(* ===== verification/Prelude.thy ===== *)
theory Prelude
  imports Main "HOL-Library.Sublist" "HOL-Library.Word"
begin

text \<open>
  Shared ground of the development: Go's \<open>error\<close> and \<open>context\<close> values, 64-bit wrap-around,
  durations and instants, \<open>fmt\<close>'s and \<open>strconv\<close>'s decimal integers, HTTP status codes, and the
  list lemmas the component theories use. Every other theory imports it.
\<close>

section \<open>Collections of facts\<close>

named_theorems store_defs \<open>definitions of the repository operations\<close>
named_theorems key_defs \<open>definitions of the Redis key builders\<close>
named_theorems slice_simps \<open>what the Redis index ranges used by the code select\<close>

section \<open>Errors and contexts\<close>

text \<open>
  A Go \<open>error\<close>: the sentinel \<open>redis.Nil\<close>, an opaque error with its text, or an error wrapped by
  \<open>fmt.Errorf("...: %w", err)\<close>. A function that returns \<open>error\<close> returns \<open>go_error option\<close>
  (\<open>None\<close> is Go's \<open>nil\<close>); one that returns a value and an error returns a sum.
\<close>

datatype go_error = RedisNil | Err string | Wrap string go_error

text \<open>\<open>errors.Is(err, redis.Nil)\<close> follows the chain of wrapped errors.\<close>

fun errors_Is_Nil :: "go_error \<Rightarrow> bool" where
  "errors_Is_Nil RedisNil = True"
| "errors_Is_Nil (Err _) = False"
| "errors_Is_Nil (Wrap _ e) = errors_Is_Nil e"

text \<open>
  The contexts the program passes on: \<open>context.Background()\<close>, a request's context while the
  client is connected, and a context that has been cancelled.
\<close>

datatype go_context = Background | ReqCtx | DoneCtx

text \<open>
  What a handler call ends in: a Go panic, or a value. \<open>ctx.Get(key).(string)\<close> without the
  comma-ok form panics on a missing value.
\<close>

datatype 'a outcome = Panic | Ret 'a

text \<open>The error of a command's result.\<close>

fun cmd_err :: "go_error + 'a \<Rightarrow> go_error option" where
  "cmd_err (Inl e) = Some e"
| "cmd_err (Inr _) = None"

text \<open>\<open>Pipeline.Exec\<close> returns the error of the first failed command, if any.\<close>

fun first_err :: "go_error option list \<Rightarrow> go_error option" where
  "first_err [] = None"
| "first_err (Some e # _) = Some e"
| "first_err (None # es) = first_err es"

lemma first_err_None: "first_err es = None \<longleftrightarrow> (\<forall>e \<in> set es. e = None)"
  by (induction es rule: first_err.induct) auto

lemma cmd_err_None [simp]: "cmd_err x = None \<longleftrightarrow> (\<exists>v. x = Inr v)"
  by (cases x) auto

section \<open>Integers, durations and instants\<close>

text \<open>Go's \<open>int\<close> and \<open>int64\<close> arithmetic wraps around modulo \<open>2^64\<close>.\<close>

definition wrap64 :: "int \<Rightarrow> int" where
  "wrap64 x = (x + 2 ^ 63) mod 2 ^ 64 - 2 ^ 63"

abbreviation int64_range :: "int \<Rightarrow> bool" where
  "int64_range x \<equiv> - (2 ^ 63) \<le> x \<and> x < 2 ^ 63"

lemma wrap64_id [simp]: "int64_range x \<Longrightarrow> wrap64 x = x"
  by (simp add: wrap64_def)

lemma wrap64_range: "int64_range (wrap64 x)"
proof -
  have "0 \<le> (x + 2 ^ 63) mod 2 ^ 64" and "(x + 2 ^ 63) mod 2 ^ 64 < (2 ^ 64 :: int)"
    by (rule pos_mod_sign, simp) (rule pos_mod_bound, simp)
  then show ?thesis by (simp add: wrap64_def)
qed

text \<open>
  \<open>time.Duration\<close> counts nanoseconds in an \<open>int64\<close>; \<open>time.Time\<close> is modelled by its nanoseconds
  since the Unix epoch, the zero \<open>time.Time\<close> (year 1) by its own value.
\<close>

type_synonym duration = int
type_synonym time = int

definition millisecond :: duration where "millisecond = 1000000"
definition second :: duration where "second = 1000000000"
definition hour :: duration where "hour = 3600 * second"

definition zero_time :: time where "zero_time = - 62135596800 * 1000000000"

definition IsZero :: "time \<Rightarrow> bool" where "IsZero t \<longleftrightarrow> t = zero_time"

text \<open>\<open>Time.Unix()\<close>: whole seconds, rounded down.\<close>

definition Unix :: "time \<Rightarrow> int" where "Unix t = t div second"

section \<open>Decimal integers (fmt's \<open>%d\<close>, strconv)\<close>

definition digit :: "nat \<Rightarrow> char" where "digit d = char_of (48 + d)"

fun nat_digits :: "nat \<Rightarrow> string" where
  "nat_digits n = (if n < 10 then [digit n] else nat_digits (n div 10) @ [digit (n mod 10)])"

declare nat_digits.simps [simp del]

definition Itoa :: "int \<Rightarrow> string" where
  "Itoa i = (if i < 0 then CHR ''-'' # nat_digits (nat (- i)) else nat_digits (nat i))"

definition is_digit :: "char \<Rightarrow> bool" where
  "is_digit ch \<longleftrightarrow> 48 \<le> (of_char ch :: nat) \<and> (of_char ch :: nat) \<le> 57"

definition digit_val :: "char \<Rightarrow> nat" where "digit_val ch = of_char ch - 48"

definition digits_val :: "string \<Rightarrow> nat" where
  "digits_val s = foldl (\<lambda>acc ch. 10 * acc + digit_val ch) 0 s"

text \<open>
  \<open>strconv.Atoi\<close>: an optional sign, at least one decimal digit, nothing else, and a value that
  fits an \<open>int\<close>; \<open>None\<close> is its error.
\<close>

definition Atoi :: "string \<Rightarrow> int option" where
  "Atoi s =
     (let neg = (s \<noteq> [] \<and> hd s = CHR ''-'');
          ds = (if s \<noteq> [] \<and> (hd s = CHR ''-'' \<or> hd s = CHR ''+'') then tl s else s)
      in if ds = [] \<or> \<not> list_all is_digit ds then None
         else let n = (if neg then - int (digits_val ds) else int (digits_val ds))
              in if - (2 ^ 63) \<le> n \<and> n < 2 ^ 63 then Some n else None)"

lemma of_char_digit: "d < 10 \<Longrightarrow> of_char (digit d) = 48 + d"
  by (simp add: digit_def)

lemma digit_facts [simp]:
  assumes "d < 10"
  shows "is_digit (digit d)" and "digit_val (digit d) = d"
  using assms by (simp_all add: is_digit_def digit_val_def of_char_digit)

lemma digit_no_sign [simp]:
  assumes "d < 10"
  shows "digit d \<noteq> CHR ''-''" and "digit d \<noteq> CHR ''+''"
proof -
  have "of_char (digit d) \<noteq> (45 :: nat)" and "of_char (digit d) \<noteq> (43 :: nat)"
    using assms by (simp_all add: of_char_digit)
  then show "digit d \<noteq> CHR ''-''" and "digit d \<noteq> CHR ''+''" by auto
qed

lemma digits_val_snoc: "digits_val (s @ [ch]) = 10 * digits_val s + digit_val ch"
  by (simp add: digits_val_def)

lemma nat_digits_props:
  "nat_digits n \<noteq> [] \<and> list_all is_digit (nat_digits n) \<and> digits_val (nat_digits n) = n
   \<and> hd (nat_digits n) \<noteq> CHR ''-'' \<and> hd (nat_digits n) \<noteq> CHR ''+''"
proof (induction n rule: nat_digits.induct)
  case (1 n)
  show ?case
  proof (cases "n < 10")
    case True
    then show ?thesis by (subst (1 2 3 4 5) nat_digits.simps) (simp add: digits_val_def)
  next
    case False
    with 1 show ?thesis
      by (subst (1 2 3 4 5) nat_digits.simps) (simp add: digits_val_snoc)
  qed
qed

lemma nat_digits_zero: "hd (nat_digits n) = CHR ''0'' \<Longrightarrow> n = 0"
proof (induction n rule: nat_digits.induct)
  case (1 n)
  show ?case
  proof (cases "n < 10")
    case True
    with 1(2) have "digit n = CHR ''0''" by (subst (asm) nat_digits.simps) simp
    with of_char_digit [OF True] show ?thesis by simp
  next
    case False
    then have "nat_digits n = nat_digits (n div 10) @ [digit (n mod 10)]" by (subst nat_digits.simps) simp
    with 1 False nat_digits_props [of "n div 10"] show ?thesis by auto
  qed
qed

lemma nat_digits_length: "n < 10 ^ k \<Longrightarrow> 0 < k \<Longrightarrow> length (nat_digits n) \<le> k"
proof (induction n arbitrary: k rule: nat_digits.induct)
  case (1 n)
  show ?case
  proof (cases "n < 10")
    case True
    with 1(3) show ?thesis by (subst nat_digits.simps) simp
  next
    case False
    with 1(2,3) obtain j where j: "k = Suc j" "0 < j" by (cases k; cases "k - 1") auto
    with 1(2) have "n div 10 < 10 ^ j" by (simp add: div_less_iff_less_mult)
    from 1(1) [OF False this j(2)] j False show ?thesis by (subst nat_digits.simps) simp
  qed
qed

lemma Atoi_Itoa: "int64_range i \<Longrightarrow> Atoi (Itoa i) = Some i"
  using nat_digits_props [of "nat i"] nat_digits_props [of "nat (- i)"]
  by (auto simp: Atoi_def Itoa_def Let_def)

section \<open>HTTP status codes\<close>

abbreviation "StatusOK \<equiv> (200 :: int)"
abbreviation "StatusCreated \<equiv> (201 :: int)"
abbreviation "StatusBadRequest \<equiv> (400 :: int)"
abbreviation "StatusUnauthorized \<equiv> (401 :: int)"
abbreviation "StatusForbidden \<equiv> (403 :: int)"
abbreviation "StatusNotFound \<equiv> (404 :: int)"
abbreviation "StatusConflict \<equiv> (409 :: int)"
abbreviation "StatusTooManyRequests \<equiv> (429 :: int)"
abbreviation "StatusInternalServerError \<equiv> (500 :: int)"
abbreviation "StatusBadGateway \<equiv> (502 :: int)"
abbreviation "StatusServiceUnavailable \<equiv> (503 :: int)"

section \<open>Lists\<close>

text \<open>The last \<open>n\<close> elements of a list.\<close>

definition last_n :: "nat \<Rightarrow> 'a list \<Rightarrow> 'a list" where
  "last_n n xs = drop (length xs - n) xs"

lemma length_last_n [simp]: "length (last_n n xs) = min n (length xs)"
  by (simp add: last_n_def min_def)

lemma last_n_all [simp]: "length xs \<le> n \<Longrightarrow> last_n n xs = xs"
  by (simp add: last_n_def)

lemma subseq_drop: "subseq (drop n xs) xs"
  by (intro suffix_imp_subseq suffix_drop)

lemma subseq_last_n: "subseq (last_n n xs) xs"
  by (simp add: last_n_def subseq_drop)

section \<open>Splitting strings\<close>

text \<open>The parts of a string between the occurrences of a separator.\<close>

fun split_on :: "char \<Rightarrow> string \<Rightarrow> string list" where
  "split_on sep [] = [[]]"
| "split_on sep (ch # s) =
     (if ch = sep then [] # split_on sep s
      else case split_on sep s of [] \<Rightarrow> [[ch]] | p # ps \<Rightarrow> (ch # p) # ps)"

lemma split_on_nonempty [simp]: "split_on sep s \<noteq> []"
  by (cases s) (auto split: list.split)

lemma split_on_append: "split_on sep (s @ sep # t) = split_on sep s @ split_on sep t"
  by (induction s) (auto split: list.split)

lemma split_on_free: "sep \<notin> set s \<Longrightarrow> split_on sep s = [s]"
  by (induction s) auto

end
