(* ===== verification/Redis_Api.thy ===== *)
theory Redis_Api
  imports Prelude
begin

text \<open>
  The Redis server and its Go client are not part of the repository: they enter the model as a
  parameter, the record \<open>redis\<close> of the commands the repository issues, over an opaque server
  state \<open>'r\<close>. What the code relies on is the locale \<open>redis_laws\<close>: the documented effect of each
  command on the key space. The locale \<open>redis_time\<close> adds the passing of time, which expires keys.
  Nothing is assumed of a command that fails, and a command may fail at any time unless the
  server is \<open>up\<close> for the context it is issued with.
\<close>

section \<open>Commands\<close>

type_synonym ('r, 'a) rcmd = "'r \<Rightarrow> (go_error + 'a) \<times> 'r"

record 'r redis =
  rGet :: "go_context \<Rightarrow> string \<Rightarrow> ('r, string) rcmd"
  rSet :: "go_context \<Rightarrow> string \<Rightarrow> string \<Rightarrow> duration \<Rightarrow> ('r, string) rcmd"
  rSetNX :: "go_context \<Rightarrow> string \<Rightarrow> string \<Rightarrow> duration \<Rightarrow> ('r, string) rcmd"
  rDel :: "go_context \<Rightarrow> string \<Rightarrow> ('r, int) rcmd"
  rExists :: "go_context \<Rightarrow> string \<Rightarrow> ('r, int) rcmd"
  rExpire :: "go_context \<Rightarrow> string \<Rightarrow> duration \<Rightarrow> ('r, bool) rcmd"
  rIncr :: "go_context \<Rightarrow> string \<Rightarrow> ('r, int) rcmd"
  rRPush :: "go_context \<Rightarrow> string \<Rightarrow> string \<Rightarrow> ('r, int) rcmd"
  rLRange :: "go_context \<Rightarrow> string \<Rightarrow> int \<Rightarrow> int \<Rightarrow> ('r, string list) rcmd"
  rLTrim :: "go_context \<Rightarrow> string \<Rightarrow> int \<Rightarrow> int \<Rightarrow> ('r, string) rcmd"
  rLLen :: "go_context \<Rightarrow> string \<Rightarrow> ('r, int) rcmd"
  rScan :: "go_context \<Rightarrow> nat \<Rightarrow> string \<Rightarrow> int \<Rightarrow> ('r, string list \<times> nat) rcmd"
  rPing :: "go_context \<Rightarrow> ('r, string) rcmd"

text \<open>A key holds a string or a list, with the time it has left to live, if any.\<close>

datatype rval = RStr string | RList "string list"

type_synonym keyspace = "string \<rightharpoonup> rval \<times> duration option"

text \<open>The string and the list a key holds; a missing key reads as no string and as the empty list.\<close>

fun str_at :: "(rval \<times> duration option) option \<Rightarrow> string option" where
  "str_at (Some (RStr v, _)) = Some v"
| "str_at _ = None"

fun list_at :: "(rval \<times> duration option) option \<Rightarrow> string list" where
  "list_at (Some (RList xs, _)) = xs"
| "list_at _ = []"

fun ttl_at :: "(rval \<times> duration option) option \<Rightarrow> duration option" where
  "ttl_at (Some (_, t)) = t"
| "ttl_at None = None"

text \<open>A key that a list command accepts, and one that a string command accepts.\<close>

fun list_or_none :: "(rval \<times> duration option) option \<Rightarrow> bool" where
  "list_or_none (Some (RStr _, _)) = False"
| "list_or_none _ = True"

fun str_or_none :: "(rval \<times> duration option) option \<Rightarrow> bool" where
  "str_or_none (Some (RList _, _)) = False"
| "str_or_none _ = True"

text \<open>The key space with the list at \<open>k\<close> replaced; an empty list is no key at all.\<close>

definition put_list :: "string \<Rightarrow> string list \<Rightarrow> keyspace \<Rightarrow> keyspace" where
  "put_list k xs ks = ks(k := (if xs = [] then None else Some (RList xs, ttl_at (ks k))))"

lemma list_at_put_list [simp]:
  "list_at (put_list k xs ks k') = (if k' = k then xs else list_at (ks k'))"
  by (simp add: put_list_def)

lemma put_list_other: "k' \<noteq> k \<Longrightarrow> put_list k xs ks k' = ks k'"
  by (simp add: put_list_def)

lemma list_or_none_put_list [simp]:
  "list_or_none (put_list k xs ks k') \<longleftrightarrow> k' = k \<or> list_or_none (ks k')"
  by (simp add: put_list_def)

section \<open>Index ranges\<close>

text \<open>
  \<open>LRANGE\<close> and \<open>LTRIM\<close> take inclusive offsets; a negative offset counts from the end, and
  offsets out of range are clamped, never an error.
\<close>

definition redis_slice :: "int \<Rightarrow> int \<Rightarrow> 'a list \<Rightarrow> 'a list" where
  "redis_slice i j xs =
     (let n = int (length xs);
          i' = (if i < 0 then max 0 (n + i) else i);
          j' = (if j < 0 then n + j else min j (n - 1))
      in if j' < i' then [] else take (nat (j' - i' + 1)) (drop (nat i') xs))"

lemma slice_head [slice_simps]:
  assumes "0 < b"
  shows "redis_slice 0 (b - 1) xs = take (nat b) xs"
proof (cases "int (length xs) \<le> b - 1")
  case True
  then have "take (nat b) xs = xs" by simp
  with assms True show ?thesis by (auto simp: redis_slice_def)
next
  case False
  with assms show ?thesis by (auto simp: redis_slice_def Let_def min_def)
qed

lemma slice_from [slice_simps]:
  assumes "0 \<le> b"
  shows "redis_slice b (- 1) xs = drop (nat b) xs"
  using assms by (auto simp: redis_slice_def Let_def)

lemma slice_last [slice_simps]:
  assumes "0 < d"
  shows "redis_slice (- d) (- 1) xs = last_n (nat d) xs"
proof (cases "xs = []")
  case True
  then show ?thesis by (simp add: redis_slice_def last_n_def)
next
  case False
  then have "0 < int (length xs)" by simp
  moreover have "nat (max 0 (int (length xs) - d)) = length xs - nat d"
    using assms by simp
  ultimately show ?thesis
    using assms by (auto simp: redis_slice_def Let_def last_n_def max_def split: if_splits)
qed

section \<open>The documented effects\<close>

text \<open>
  \<open>ks r\<close> is the key space of the server state \<open>r\<close>. Each command is one atomic step of the
  server. \<open>SET ... NX\<close> answers \<open>OK\<close> or nil, which the Go client turns into \<open>redis.Nil\<close>; so does
  \<open>GET\<close> on a missing key. A time to live in whole milliseconds (whole seconds for \<open>EXPIRE\<close>) is
  kept exactly; other values are rounded by the client.
\<close>

locale redis_laws =
  fixes R :: "'r redis"
    and ks :: "'r \<Rightarrow> keyspace"
    and up :: "go_context \<Rightarrow> 'r \<Rightarrow> bool"
  assumes get_ok: "rGet R c k r = (Inr v, r') \<Longrightarrow> str_at (ks r k) = Some v \<and> ks r' = ks r"
    and get_nil: "rGet R c k r = (Inl RedisNil, r') \<Longrightarrow> ks r k = None \<and> ks r' = ks r"
    and get_up: "up c r \<Longrightarrow> str_or_none (ks r k) \<Longrightarrow> rGet R c k r = (Inl e, r') \<Longrightarrow> e = RedisNil"
    and set_ok: "rSet R c k v d r = (Inr a, r') \<Longrightarrow>
      \<exists>t. ks r' = (ks r)(k \<mapsto> (RStr v, t)) \<and> (d = 0 \<longrightarrow> t = None)
        \<and> (0 < d \<longrightarrow> millisecond dvd d \<longrightarrow> t = Some d)"
    and set_up: "up c r \<Longrightarrow> 0 \<le> d \<Longrightarrow> rSet R c k v d r \<noteq> (Inl e, r')"
    and setnx_ok: "rSetNX R c k v d r = (Inr a, r') \<Longrightarrow> a = ''OK'' \<and> ks r k = None \<and>
      (\<exists>t. ks r' = (ks r)(k \<mapsto> (RStr v, t)) \<and> (0 < d \<longrightarrow> millisecond dvd d \<longrightarrow> t = Some d))"
    and setnx_nil: "rSetNX R c k v d r = (Inl e, r') \<Longrightarrow> errors_Is_Nil e \<Longrightarrow>
      ks r k \<noteq> None \<and> ks r' = ks r"
    and setnx_up: "up c r \<Longrightarrow> 0 \<le> d \<Longrightarrow> rSetNX R c k v d r = (Inl e, r') \<Longrightarrow> errors_Is_Nil e"
    and del_ok: "rDel R c k r = (Inr n, r') \<Longrightarrow>
      n = (if ks r k = None then 0 else 1) \<and> ks r' = (ks r)(k := None)"
    and del_up: "up c r \<Longrightarrow> rDel R c k r \<noteq> (Inl e, r')"
    and exists_ok: "rExists R c k r = (Inr n, r') \<Longrightarrow>
      n = (if ks r k = None then 0 else 1) \<and> ks r' = ks r"
    and exists_up: "up c r \<Longrightarrow> rExists R c k r \<noteq> (Inl e, r')"
    and expire_ok: "rExpire R c k d r = (Inr b, r') \<Longrightarrow> 0 < d \<Longrightarrow> (b \<longleftrightarrow> ks r k \<noteq> None) \<and>
      (\<exists>t. ks r' = (ks r)(k := map_option (\<lambda>(v, _). (v, Some t)) (ks r k))
        \<and> (second dvd d \<longrightarrow> t = d))"
    and expire_up: "up c r \<Longrightarrow> rExpire R c k d r \<noteq> (Inl e, r')"
    and incr_ok: "rIncr R c k r = (Inr n, r') \<Longrightarrow>
      (\<exists>m. (case ks r k of None \<Rightarrow> m = 0 | Some (x, _) \<Rightarrow> x = RStr (Itoa m)) \<and> n = m + 1)
      \<and> ks r' = (ks r)(k \<mapsto> (RStr (Itoa n), ttl_at (ks r k)))"
    and incr_up: "up c r \<Longrightarrow> ks r k = None \<or> (\<exists>m t. ks r k = Some (RStr (Itoa m), t) \<and> int64_range m \<and> int64_range (m + 1))
      \<Longrightarrow> rIncr R c k r \<noteq> (Inl e, r')"
    and rpush_ok: "rRPush R c k v r = (Inr n, r') \<Longrightarrow> list_or_none (ks r k)
      \<and> n = int (length (list_at (ks r k))) + 1
      \<and> ks r' = put_list k (list_at (ks r k) @ [v]) (ks r)"
    and rpush_up: "up c r \<Longrightarrow> list_or_none (ks r k) \<Longrightarrow> rRPush R c k v r \<noteq> (Inl e, r')"
    and lrange_ok: "rLRange R c k i j r = (Inr xs, r') \<Longrightarrow> list_or_none (ks r k)
      \<and> xs = redis_slice i j (list_at (ks r k)) \<and> ks r' = ks r"
    and lrange_up: "up c r \<Longrightarrow> list_or_none (ks r k) \<Longrightarrow> rLRange R c k i j r \<noteq> (Inl e, r')"
    and ltrim_ok: "rLTrim R c k i j r = (Inr a, r') \<Longrightarrow> list_or_none (ks r k)
      \<and> ks r' = put_list k (redis_slice i j (list_at (ks r k))) (ks r)"
    and ltrim_up: "up c r \<Longrightarrow> list_or_none (ks r k) \<Longrightarrow> rLTrim R c k i j r \<noteq> (Inl e, r')"
    and llen_ok: "rLLen R c k r = (Inr n, r') \<Longrightarrow> list_or_none (ks r k)
      \<and> n = int (length (list_at (ks r k))) \<and> ks r' = ks r"
    and llen_up: "up c r \<Longrightarrow> list_or_none (ks r k) \<Longrightarrow> rLLen R c k r \<noteq> (Inl e, r')"
    and never_nil: "errors_Is_Nil e \<Longrightarrow> rLRange R c k i j r \<noteq> (Inl e, r')
      \<and> rLTrim R c k i j r \<noteq> (Inl e, r') \<and> rLLen R c k r \<noteq> (Inl e, r')
      \<and> rDel R c k r \<noteq> (Inl e, r')"
    and get_plain_nil: "rGet R c k r = (Inl e, r') \<Longrightarrow> errors_Is_Nil e \<Longrightarrow> e = RedisNil"
    and up_stable: "up c r \<Longrightarrow>
      up c (snd (rGet R c' k r)) \<and> up c (snd (rSet R c' k v d r)) \<and> up c (snd (rSetNX R c' k v d r))
      \<and> up c (snd (rDel R c' k r)) \<and> up c (snd (rExists R c' k r)) \<and> up c (snd (rExpire R c' k d r))
      \<and> up c (snd (rIncr R c' k r)) \<and> up c (snd (rRPush R c' k v r))
      \<and> up c (snd (rLRange R c' k i j r)) \<and> up c (snd (rLTrim R c' k i j r))
      \<and> up c (snd (rLLen R c' k r)) \<and> up c (snd (rScan R c' cur p n r)) \<and> up c (snd (rPing R c' r))"
begin

text \<open>The commands with the success and the failure read off together, for a server that is up.\<close>

lemma get_cases:
  assumes "up c r" and "str_or_none (ks r k)" and "rGet R c k r = (x, r')"
  shows "x = (case str_at (ks r k) of None \<Rightarrow> Inl RedisNil | Some v \<Rightarrow> Inr v) \<and> ks r' = ks r \<and> up c r'"
proof -
  have u: "up c r'" using up_stable [OF assms(1), of c k] assms(3) by auto
  show ?thesis
  proof (cases x)
    case (Inl e)
    with assms get_up have "x = Inl RedisNil" by blast
    with assms(3) u get_nil show ?thesis by fastforce
  next
    case (Inr v)
    with assms(3) u get_ok show ?thesis by fastforce
  qed
qed

lemma exists_cmd:
  assumes "up c r" and "rExists R c k r = (x, r')"
  shows "x = Inr (if ks r k = None then 0 else 1) \<and> ks r' = ks r \<and> up c r'"
proof -
  obtain n where "x = Inr n" using exists_up [OF assms(1), of k] assms(2) by (cases x) auto
  with exists_ok [of c k r n r'] assms up_stable show ?thesis by (metis snd_conv)
qed

lemma set_cmd:
  assumes "up c r" and "0 \<le> d" and "rSet R c k t d r = (x, r')"
  shows "(\<exists>v. ks r' = (ks r)(k \<mapsto> v)) \<and> up c r'"
proof -
  obtain a where "x = Inr a" using set_up [OF assms(1,2), of k t] assms(3) by (cases x) auto
  with set_ok [of c k t d r a r'] assms up_stable show ?thesis by (metis snd_conv)
qed

lemma del_cmd:
  assumes "up c r" and "rDel R c k r = (x, r')"
  shows "ks r' = (ks r)(k := None) \<and> up c r'"
proof -
  obtain n where "x = Inr n" using del_up [OF assms(1), of k] assms(2) by (cases x) auto
  with del_ok [of c k r n r'] assms up_stable show ?thesis by (metis snd_conv)
qed

end

section \<open>Time\<close>

text \<open>
  Time passing without a command: a key whose time to live has run out is gone, the others have
  less left. (The server reports a key as expired once its time to live has been reached.)
\<close>

definition expire_keys :: "duration \<Rightarrow> keyspace \<Rightarrow> keyspace" where
  "expire_keys d m k =
     (case m k of None \<Rightarrow> None
      | Some (v, None) \<Rightarrow> Some (v, None)
      | Some (v, Some t) \<Rightarrow> if t \<le> d then None else Some (v, Some (t - d)))"

locale redis_time = redis_laws R ks up
  for R :: "'r redis" and ks :: "'r \<Rightarrow> keyspace" and up :: "go_context \<Rightarrow> 'r \<Rightarrow> bool" +
  fixes tick :: "duration \<Rightarrow> 'r \<Rightarrow> 'r"
  assumes tick_ks: "0 \<le> d \<Longrightarrow> ks (tick d r) = expire_keys d (ks r)"
    and tick_up: "up c r \<Longrightarrow> up c (tick d r)"

section \<open>Scanning the key space\<close>

text \<open>The patterns the repository uses are a literal prefix followed by a star.\<close>

definition glob :: "string \<Rightarrow> string \<Rightarrow> bool" where
  "glob p k \<longleftrightarrow> (if p \<noteq> [] \<and> last p = CHR ''*'' then prefix (butlast p) k else k = p)"

text \<open>
  \<open>SCAN\<close> walks the key space from cursor 0 until it answers cursor 0 again. A key that is present
  during the whole walk is returned at least once, and the walk ends: \<open>todo cur\<close> is what the walk
  still has to visit at a cursor, \<open>left cur\<close> bounds the calls it still needs.
\<close>

locale redis_scan = redis_laws R ks up
  for R :: "'r redis" and ks :: "'r \<Rightarrow> keyspace" and up :: "go_context \<Rightarrow> 'r \<Rightarrow> bool" +
  fixes todo :: "nat \<Rightarrow> string set" and left :: "nat \<Rightarrow> nat"
  assumes todo_start: "todo 0 = UNIV"
    and scan_ok: "rScan R c cur p n r = (Inr (keys, nxt), r') \<Longrightarrow> ks r' = ks r
      \<and> (\<forall>k. ks r k \<noteq> None \<longrightarrow> glob p k \<longrightarrow> k \<in> todo cur \<longrightarrow> k \<in> set keys \<or> nxt \<noteq> 0 \<and> k \<in> todo nxt)
      \<and> (\<forall>k \<in> set keys. glob p k) \<and> (nxt \<noteq> 0 \<longrightarrow> left nxt < left cur)"
    and scan_up: "up c r \<Longrightarrow> rScan R c cur p n r \<noteq> (Inl e, r')"

section \<open>Commands that fail\<close>

text \<open>
  A command runs as a whole or not at all, but the caller may not learn which: its answer can be lost. So
  whether it reports success or not, a command changes at most its own key, and leaves there what was
  there before or what the command puts there.
\<close>

definition touches :: "string \<Rightarrow> ((rval \<times> duration option) option \<Rightarrow> bool) \<Rightarrow> keyspace \<Rightarrow> keyspace \<Rightarrow> bool" where
  "touches k Q m m' \<longleftrightarrow> (\<forall>k'. k' \<noteq> k \<longrightarrow> m' k' = m k') \<and> (m' k = m k \<or> Q (m' k))"

lemma touches_refl [simp]: "touches k Q m m"
  by (simp add: touches_def)

lemma touches_upd [simp]: "touches k Q m (m(k := y)) \<longleftrightarrow> y = m k \<or> Q y"
  by (simp add: touches_def)

fun is_str :: "string \<Rightarrow> (rval \<times> duration option) option \<Rightarrow> bool" where
  "is_str v (Some (RStr s, _)) \<longleftrightarrow> s = v" | "is_str v _ \<longleftrightarrow> False"

fun is_list :: "(rval \<times> duration option) option \<Rightarrow> bool" where
  "is_list (Some (RList xs, _)) \<longleftrightarrow> xs \<noteq> []" | "is_list _ \<longleftrightarrow> False"

definition with_ttl :: "duration \<Rightarrow> (rval \<times> duration option) option \<Rightarrow> (rval \<times> duration option) option \<Rightarrow> bool" where
  "with_ttl d x y \<longleftrightarrow> (\<exists>t. y = map_option (\<lambda>(v, _). (v, Some t)) x \<and> (second dvd d \<longrightarrow> t = d))"

lemma touches_present:
  assumes "touches k Q m m'" and "m k' \<noteq> None" and "\<And>y. k' = k \<Longrightarrow> Q y \<Longrightarrow> y \<noteq> None"
  shows "m' k' \<noteq> None"
  using assms by (cases "k' = k") (auto simp: touches_def)

lemma present_values: "is_str v y \<Longrightarrow> y \<noteq> None" "is_list y \<Longrightarrow> y \<noteq> None" "with_ttl d x y \<Longrightarrow> x \<noteq> None \<Longrightarrow> y \<noteq> None"
  by (auto simp: with_ttl_def elim!: is_str.elims(2) is_list.elims(2))

locale redis_atomic = redis_laws R ks up
  for R :: "'r redis" and ks :: "'r \<Rightarrow> keyspace" and up :: "go_context \<Rightarrow> 'r \<Rightarrow> bool" +
  assumes read_atomic: "ks (snd (rGet R c k r)) = ks r" "ks (snd (rExists R c k r)) = ks r"
      "ks (snd (rLRange R c k i j r)) = ks r" "ks (snd (rLLen R c k r)) = ks r"
      "ks (snd (rScan R c cur p n r)) = ks r" "ks (snd (rPing R c r)) = ks r"
    and write_atomic: "touches k (is_str v) (ks r) (ks (snd (rSet R c k v d r)))"
      "touches k (\<lambda>y. ks r k = None \<and> is_str v y) (ks r) (ks (snd (rSetNX R c k v d r)))"
      "touches k (\<lambda>y. y = None) (ks r) (ks (snd (rDel R c k r)))"
      "touches k (\<lambda>y. if 0 < d then with_ttl d (ks r k) y else y = None) (ks r) (ks (snd (rExpire R c k d r)))"
      "touches k (\<lambda>y. \<exists>n. is_str (Itoa n) y) (ks r) (ks (snd (rIncr R c k r)))"
      "touches k is_list (ks r) (ks (snd (rRPush R c k v r)))"
      "touches k (\<lambda>y. y = None \<or> is_list y) (ks r) (ks (snd (rLTrim R c k i j r)))"

end
