(* ===== verification/Redis_Mem.thy ===== *)
theory Redis_Mem
  imports Redis_Api "HOL-Library.AList"
begin

text \<open>
  A concrete in-memory server that satisfies \<open>redis_laws\<close> and \<open>redis_time\<close>: an association list of
  keys and a flag that says whether the server can be reached. It shows that the assumed laws are
  consistent, and the witnesses evaluate the repository's code on it.
\<close>

record mem =
  entries :: "(string \<times> rval \<times> duration option) list"
  reachable :: bool

definition mks :: "mem \<Rightarrow> keyspace" where "mks r = map_of (entries r)"

definition mup :: "go_context \<Rightarrow> mem \<Rightarrow> bool" where
  "mup c r \<longleftrightarrow> reachable r \<and> c \<noteq> DoneCtx"

definition mput :: "string \<Rightarrow> rval \<times> duration option \<Rightarrow> mem \<Rightarrow> mem" where
  "mput k e r = r\<lparr>entries := AList.update k e (entries r)\<rparr>"

definition mdel :: "string \<Rightarrow> mem \<Rightarrow> mem" where
  "mdel k r = r\<lparr>entries := AList.delete k (entries r)\<rparr>"

definition mputl :: "string \<Rightarrow> string list \<Rightarrow> mem \<Rightarrow> mem" where
  "mputl k xs r = (if xs = [] then mdel k r else mput k (RList xs, ttl_at (mks r k)) r)"

definition guarded :: "go_context \<Rightarrow> (mem \<Rightarrow> (go_error + 'a) \<times> mem) \<Rightarrow> mem \<Rightarrow> (go_error + 'a) \<times> mem" where
  "guarded c f r = (if mup c r then f r else (Inl (Err ''connection refused''), r))"

abbreviation wrongtype :: go_error where
  "wrongtype \<equiv> Err ''WRONGTYPE''"

definition deadline_of :: "duration \<Rightarrow> duration option" where
  "deadline_of d = (if 0 < d then Some d else None)"

definition mGet where
  "mGet c k = guarded c (\<lambda>r. case mks r k of None \<Rightarrow> (Inl RedisNil, r)
     | Some (RStr v, _) \<Rightarrow> (Inr v, r) | Some (RList _, _) \<Rightarrow> (Inl wrongtype, r))"

definition mSet where
  "mSet c k v d = guarded c (\<lambda>r. (Inr ''OK'', mput k (RStr v, deadline_of d) r))"

definition mSetNX where
  "mSetNX c k v d = guarded c (\<lambda>r. if mks r k = None
     then (Inr ''OK'', mput k (RStr v, deadline_of d) r) else (Inl RedisNil, r))"

definition mDel where
  "mDel c k = guarded c (\<lambda>r. (Inr (if mks r k = None then 0 else 1), mdel k r))"

definition mExists where
  "mExists c k = guarded c (\<lambda>r. (Inr (if mks r k = None then 0 else 1), r))"

definition mExpire where
  "mExpire c k d = guarded c (\<lambda>r. case mks r k of None \<Rightarrow> (Inr False, r)
     | Some (v, _) \<Rightarrow> if 0 < d then (Inr True, mput k (v, Some d) r) else (Inr True, mdel k r))"

definition mIncr where
  "mIncr c k = guarded c (\<lambda>r. case mks r k of None \<Rightarrow> (Inr 1, mput k (RStr (Itoa 1), None) r)
     | Some (RList _, _) \<Rightarrow> (Inl wrongtype, r)
     | Some (RStr s, t) \<Rightarrow> (case Atoi s of
         None \<Rightarrow> (Inl (Err ''not an integer''), r)
       | Some m \<Rightarrow> if Itoa m = s \<and> m + 1 < 2 ^ 63 then (Inr (m + 1), mput k (RStr (Itoa (m + 1)), t) r)
                   else (Inl (Err ''increment would overflow''), r)))"

definition on_list where
  "on_list c k f = guarded c (\<lambda>r. if list_or_none (mks r k) then f (list_at (mks r k)) r
     else (Inl wrongtype, r))"

definition mRPush where
  "mRPush c k v = on_list c k (\<lambda>xs r. (Inr (int (length xs) + 1), mputl k (xs @ [v]) r))"

definition mLRange where
  "mLRange c k i j = on_list c k (\<lambda>xs r. (Inr (redis_slice i j xs), r))"

definition mLTrim where
  "mLTrim c k i j = on_list c k (\<lambda>xs r. (Inr ''OK'', mputl k (redis_slice i j xs) r))"

definition mLLen where
  "mLLen c k = on_list c k (\<lambda>xs r. (Inr (int (length xs)), r))"

definition mScan where
  "mScan c cur p n = guarded c (\<lambda>r. (Inr (filter (glob p) (remdups (map fst (entries r))), 0 :: nat), r))"

definition mPing where "mPing c = guarded c (\<lambda>r. (Inr ''PONG'', r))"

definition mem_redis :: "mem redis" where
  "mem_redis = \<lparr>rGet = mGet, rSet = mSet, rSetNX = mSetNX, rDel = mDel, rExists = mExists,
     rExpire = mExpire, rIncr = mIncr, rRPush = mRPush, rLRange = mLRange, rLTrim = mLTrim,
     rLLen = mLLen, rScan = (\<lambda>c cur p (n::int). mScan c cur p n), rPing = mPing\<rparr>"

definition mtick :: "duration \<Rightarrow> mem \<Rightarrow> mem" where
  "mtick d r = r\<lparr>entries := List.map_filter
     (\<lambda>k. map_option (Pair k) (expire_keys d (mks r) k)) (map fst (entries r))\<rparr>"

definition mem0 :: mem where "mem0 = \<lparr>entries = [], reachable = True\<rparr>"

lemmas mem_defs = mGet_def mSet_def mSetNX_def mDel_def mExists_def mExpire_def mIncr_def
  mRPush_def mLRange_def mLTrim_def mLLen_def mScan_def mPing_def on_list_def guarded_def

lemmas mem_ops = mem_redis_def mem_defs mem0_def mks_def mup_def mput_def mdel_def mputl_def
  Let_def redis_slice_def deadline_of_def

lemma mks_mput [simp]: "mks (mput k e r) = (mks r)(k \<mapsto> e)"
  by (simp add: mks_def mput_def update_conv')

lemma mks_mdel [simp]: "mks (mdel k r) = (mks r)(k := None)"
  by (simp add: mks_def mdel_def delete_conv')

lemma mks_mputl [simp]: "mks (mputl k xs r) = put_list k xs (mks r)"
  by (simp add: mputl_def put_list_def)

lemma reachable_upd [simp]: "reachable (mput k e r) = reachable r"
    "reachable (mdel k r) = reachable r" "reachable (mputl k xs r) = reachable r"
    "reachable (mtick d r) = reachable r"
  by (simp_all add: mput_def mdel_def mputl_def mtick_def)

lemma map_of_map_filter_keys:
  "map_of (List.map_filter (\<lambda>k. map_option (Pair k) (f k)) l) k = (if k \<in> set l then f k else None)"
  by (induction l) (auto simp: List.map_filter_simps split: option.splits)

lemma mks_mtick: "mks (mtick d r) = expire_keys d (mks r)"
proof
  fix k
  have "k \<notin> fst ` set (entries r) \<Longrightarrow> map_of (entries r) k = None"
    by (simp add: map_of_eq_None_iff)
  then show "mks (mtick d r) k = expire_keys d (mks r) k"
    by (auto simp: mks_def mtick_def map_of_map_filter_keys expire_keys_def)
qed

interpretation mr: redis_time mem_redis mks mup mtick
  by unfold_locales
    (auto simp: mem_redis_def mem_defs mks_mtick Atoi_Itoa mup_def deadline_of_def Let_def
      split: if_splits option.splits rval.splits prod.splits)

interpretation ma: redis_atomic mem_redis mks mup
  by unfold_locales
    (auto simp: mem_redis_def mem_defs put_list_def with_ttl_def split: option.split rval.split prod.split)

lemma mem_scan_keys:
  "k \<in> set (filter (glob p) (remdups (map fst (entries r)))) \<longleftrightarrow> glob p k \<and> mks r k \<noteq> None"
  by (simp add: mks_def map_of_eq_None_iff conj_commute)

interpretation ms: redis_scan mem_redis mks mup "\<lambda>_. UNIV" "\<lambda>_. 0"
proof unfold_locales
  fix c cur p and n :: int and r keys nxt r'
  assume "rScan mem_redis c cur p n r = (Inr (keys, nxt), r')"
  then have "keys = filter (glob p) (remdups (map fst (entries r)))" "nxt = 0" "r' = r"
    by (auto simp: mem_redis_def mScan_def guarded_def split: if_splits)
  then show "mks r' = mks r
      \<and> (\<forall>k. mks r k \<noteq> None \<longrightarrow> glob p k \<longrightarrow> k \<in> UNIV \<longrightarrow> k \<in> set keys \<or> nxt \<noteq> 0 \<and> k \<in> UNIV)
      \<and> (\<forall>k \<in> set keys. glob p k) \<and> (nxt \<noteq> 0 \<longrightarrow> (0::nat) < 0)"
    using mem_scan_keys [of _ p r] by blast
qed (simp_all add: mem_redis_def mScan_def guarded_def mup_def)

end
