(* ===== verification/Keys.thy ===== *)
theory Keys
  imports Prelude
begin

text \<open>
  The Redis key builders of the repository packages and of the rate limiter, with the facts that
  make the stores independent of each other: keys of different stores differ, and keys of one
  store are injective as long as the client identifier contains no colon.
\<close>

definition connKey :: "string \<Rightarrow> string \<Rightarrow> string" where
  [key_defs]: "connKey clientID ip = ''scorpion:conn:'' @ clientID @ '':'' @ ip"

definition eventsKey :: "string \<Rightarrow> string" where
  [key_defs]: "eventsKey clientID = ''scorpion:events:'' @ clientID"

definition inFlightKey :: "string \<Rightarrow> string \<Rightarrow> string" where
  [key_defs]: "inFlightKey clientID eventID = ''scorpion:inflight:'' @ clientID @ '':'' @ eventID"

definition ackedKey :: "string \<Rightarrow> string \<Rightarrow> string" where
  [key_defs]: "ackedKey clientID eventID = ''scorpion:acked:'' @ clientID @ '':'' @ eventID"

definition ticketKey :: "string \<Rightarrow> string \<Rightarrow> string" where
  [key_defs]: "ticketKey clientID ip = ''scorpion:ticket:'' @ clientID @ '':'' @ ip"

definition ratelimitKey :: "string \<Rightarrow> string" where
  [key_defs]: "ratelimitKey ip = ''scorpion:ratelimit:'' @ ip"

definition colon_free :: "string \<Rightarrow> bool" where
  "colon_free s \<longleftrightarrow> CHR '':'' \<notin> set s"

lemma append_colon_inject:
  assumes "colon_free a" and "colon_free a'"
  shows "a @ CHR '':'' # b = a' @ CHR '':'' # b' \<longleftrightarrow> a = a' \<and> b = b'"
  using assms
proof (induction a arbitrary: a')
  case Nil
  then show ?case by (cases a') (auto simp: colon_free_def)
next
  case (Cons x a)
  then show ?case by (cases a') (auto simp: colon_free_def)
qed

lemma eventsKey_inject [simp]: "eventsKey a = eventsKey b \<longleftrightarrow> a = b"
  by (simp add: eventsKey_def)

lemma ratelimitKey_inject [simp]: "ratelimitKey a = ratelimitKey b \<longleftrightarrow> a = b"
  by (simp add: ratelimitKey_def)

lemma same_client_inject [simp]:
  "connKey c ip = connKey c ip' \<longleftrightarrow> ip = ip'"
  "ticketKey c ip = ticketKey c ip' \<longleftrightarrow> ip = ip'"
  "inFlightKey c e = inFlightKey c e' \<longleftrightarrow> e = e'"
  "ackedKey c e = ackedKey c e' \<longleftrightarrow> e = e'"
  by (simp_all add: key_defs)

text \<open>The builders of different stores never produce the same key.\<close>

lemma keys_apart [simp]:
  "connKey a b \<noteq> eventsKey c" "eventsKey c \<noteq> connKey a b"
  "connKey a b \<noteq> inFlightKey c d" "inFlightKey c d \<noteq> connKey a b"
  "connKey a b \<noteq> ackedKey c d" "ackedKey c d \<noteq> connKey a b"
  "connKey a b \<noteq> ticketKey c d" "ticketKey c d \<noteq> connKey a b"
  "connKey a b \<noteq> ratelimitKey c" "ratelimitKey c \<noteq> connKey a b"
  "eventsKey a \<noteq> inFlightKey c d" "inFlightKey c d \<noteq> eventsKey a"
  "eventsKey a \<noteq> ackedKey c d" "ackedKey c d \<noteq> eventsKey a"
  "eventsKey a \<noteq> ticketKey c d" "ticketKey c d \<noteq> eventsKey a"
  "eventsKey a \<noteq> ratelimitKey c" "ratelimitKey c \<noteq> eventsKey a"
  "inFlightKey a b \<noteq> ackedKey c d" "ackedKey c d \<noteq> inFlightKey a b"
  "inFlightKey a b \<noteq> ticketKey c d" "ticketKey c d \<noteq> inFlightKey a b"
  "inFlightKey a b \<noteq> ratelimitKey c" "ratelimitKey c \<noteq> inFlightKey a b"
  "ackedKey a b \<noteq> ticketKey c d" "ticketKey c d \<noteq> ackedKey a b"
  "ackedKey a b \<noteq> ratelimitKey c" "ratelimitKey c \<noteq> ackedKey a b"
  "ticketKey a b \<noteq> ratelimitKey c" "ratelimitKey c \<noteq> ticketKey a b"
  by (simp_all add: key_defs)

text \<open>
  For client identifiers without a colon the connection, ticket, in-flight and acked keys of
  two clients coincide only when both the client and the second component (IP address or event
  id, which may contain colons) coincide: no client can touch another client's keys.
\<close>

theorem client_keys_injective:
  assumes "colon_free c" and "colon_free c'"
  shows "(connKey c x = connKey c' x' \<longleftrightarrow> c = c' \<and> x = x')
    \<and> (ticketKey c x = ticketKey c' x' \<longleftrightarrow> c = c' \<and> x = x')
    \<and> (inFlightKey c x = inFlightKey c' x' \<longleftrightarrow> c = c' \<and> x = x')
    \<and> (ackedKey c x = ackedKey c' x' \<longleftrightarrow> c = c' \<and> x = x')"
  using append_colon_inject [OF assms, of x x'] by (simp add: key_defs)

theorem client_keys_injective_witness:
  "connKey ''alice'' ''::1'' \<noteq> connKey ''bob'' ''::1''"
  using client_keys_injective [of "''alice''" "''bob''" "''::1''" "''::1''"]
  by (simp add: colon_free_def)

end
