(* ===== verification/Event_Store.thy ===== *)
theory Event_Store
  imports Redis_Mem Keys
begin

text \<open>
  The per-client event queues (\<open>internal/repository/events.go\<close>). \<open>Push\<close> and \<open>Drain\<close> are the
  pipelined Redis commands, run in order. The interface \<open>EventStore\<close> is the locale \<open>event_store\<close>:
  a capped FIFO queue per client. The Redis-backed store satisfies it for every Redis that obeys
  \<open>redis_laws\<close> and every positive queue depth.
\<close>

section \<open>Operations\<close>

record eventStore =
  maxQueueDepth :: int

definition NewEventStore :: "int \<Rightarrow> eventStore" where
  "NewEventStore depth = \<lparr>maxQueueDepth = depth\<rparr>"

definition Push ::
  "'r redis \<Rightarrow> eventStore \<Rightarrow> go_context \<Rightarrow> string \<Rightarrow> string \<Rightarrow> 'r \<Rightarrow> go_error option \<times> 'r" where
  [store_defs]: "Push R s c clientID eventJSON r =
     (let key = eventsKey clientID;
          (x1, r1) = rRPush R c key eventJSON r;
          (x2, r2) = rLTrim R c key (wrap64 (- maxQueueDepth s)) (- 1) r1
      in (first_err [cmd_err x1, cmd_err x2], r2))"

text \<open>
  \<open>lrangeCmd.Val()\<close> and \<open>llenCmd.Val()\<close> are the zero values when their command failed, which can
  only be with \<open>redis.Nil\<close> once the error check has passed.
\<close>

definition Drain ::
  "'r redis \<Rightarrow> eventStore \<Rightarrow> go_context \<Rightarrow> string \<Rightarrow> int \<Rightarrow> 'r \<Rightarrow> (go_error + string list \<times> int) \<times> 'r" where
  [store_defs]: "Drain R s c clientID batchSize r =
     (let key = eventsKey clientID;
          (x1, r1) = rLRange R c key 0 (wrap64 (batchSize - 1)) r;
          (x2, r2) = rLTrim R c key batchSize (- 1) r1;
          (x3, r3) = rLLen R c key r2
      in case first_err [cmd_err x1, cmd_err x2, cmd_err x3] of
           Some e \<Rightarrow> if \<not> errors_Is_Nil e then (Inl (Wrap ''failed to drain events'' e), r3)
                     else (Inr (case_sum (\<lambda>_. []) id x1, case_sum (\<lambda>_. 0) id x3), r3)
         | None \<Rightarrow> (Inr (case_sum (\<lambda>_. []) id x1, case_sum (\<lambda>_. 0) id x3), r3))"

text \<open>A run of pushes and drains on one client's queue; it stops at the first error.\<close>

datatype queue_op = QPush string | QDrain int

fun run_queue ::
  "'r redis \<Rightarrow> eventStore \<Rightarrow> go_context \<Rightarrow> string \<Rightarrow> queue_op list \<Rightarrow> 'r \<Rightarrow> (string list \<times> 'r) option" where
  "run_queue R s c cl [] r = Some ([], r)"
| "run_queue R s c cl (QPush e # ops) r =
     (case Push R s c cl e r of (None, r') \<Rightarrow> run_queue R s c cl ops r' | (Some _, _) \<Rightarrow> None)"
| "run_queue R s c cl (QDrain b # ops) r =
     (case Drain R s c cl b r of (Inl _, _) \<Rightarrow> None
      | (Inr (es, _), r') \<Rightarrow> map_option (\<lambda>(d, r''). (es @ d, r'')) (run_queue R s c cl ops r'))"

fun pushed :: "queue_op list \<Rightarrow> string list" where
  "pushed [] = []"
| "pushed (QPush e # ops) = e # pushed ops"
| "pushed (QDrain _ # ops) = pushed ops"

fun positive_drains :: "queue_op list \<Rightarrow> bool" where
  "positive_drains [] = True"
| "positive_drains (QPush _ # ops) = positive_drains ops"
| "positive_drains (QDrain b # ops) \<longleftrightarrow> 0 < b \<and> b < 2 ^ 63 \<and> positive_drains ops"

section \<open>The interface\<close>

text \<open>
  What a client of \<open>EventStore\<close> may rely on: a successful push appends the event and keeps the
  newest \<open>cap\<close> events, a successful drain of a positive batch takes the oldest events and reports
  how many remain. Other clients' queues are untouched.
\<close>

locale event_store =
  fixes push :: "go_context \<Rightarrow> string \<Rightarrow> string \<Rightarrow> 'w \<Rightarrow> go_error option \<times> 'w"
    and drain :: "go_context \<Rightarrow> string \<Rightarrow> int \<Rightarrow> 'w \<Rightarrow> (go_error + string list \<times> int) \<times> 'w"
    and queue :: "'w \<Rightarrow> string \<Rightarrow> string list"
    and cap :: nat
  assumes cap_pos: "0 < cap"
    and push_spec: "push c cl e w = (None, w') \<Longrightarrow>
      queue w' = (queue w)(cl := last_n cap (queue w cl @ [e]))"
    and drain_spec: "drain c cl b w = (Inr (es, n), w') \<Longrightarrow> 0 < b \<Longrightarrow> b < 2 ^ 63 \<Longrightarrow>
      es = take (nat b) (queue w cl) \<and> queue w' = (queue w)(cl := drop (nat b) (queue w cl))
      \<and> n = int (length (queue w' cl))"
begin

lemma push_bounded: "push c cl e w = (None, w') \<Longrightarrow> length (queue w' cl) \<le> cap"
  by (simp add: push_spec)

lemma push_no_overflow:
  "push c cl e w = (None, w') \<Longrightarrow> length (queue w cl) < cap \<Longrightarrow> queue w' cl = queue w cl @ [e]"
  by (simp add: push_spec)

lemma drain_splits:
  "drain c cl b w = (Inr (es, n), w') \<Longrightarrow> 0 < b \<Longrightarrow> b < 2 ^ 63 \<Longrightarrow> es @ queue w' cl = queue w cl"
  using drain_spec by (metis append_take_drop_id fun_upd_same)

lemma drain_empty:
  assumes "drain c cl b w = (Inr (es, n), w')" and "0 < b" and "b < 2 ^ 63"
  shows "es = [] \<longleftrightarrow> queue w cl = []"
  using drain_spec [OF assms] assms(2) by (auto simp: take_eq_Nil)

end

section \<open>The Redis-backed store\<close>

locale redis_events = redis_laws R ks up
  for R :: "'r redis" and ks :: "'r \<Rightarrow> keyspace" and up :: "go_context \<Rightarrow> 'r \<Rightarrow> bool" +
  fixes s :: eventStore
  assumes depth_pos: "0 < maxQueueDepth s" and depth_int64: "maxQueueDepth s < 2 ^ 63"

definition queue_of :: "('r \<Rightarrow> keyspace) \<Rightarrow> 'r \<Rightarrow> string \<Rightarrow> string list" where
  "queue_of ks r clientID = list_at (ks r (eventsKey clientID))"

context redis_laws
begin

lemma Push_effect:
  assumes "Push R s c cl e r = (None, r')"
  shows "ks r' = put_list (eventsKey cl)
           (redis_slice (wrap64 (- maxQueueDepth s)) (- 1) (queue_of ks r cl @ [e])) (ks r)"
proof -
  obtain x1 r1 x2 where 1: "rRPush R c (eventsKey cl) e r = (x1, r1)"
    and 2: "rLTrim R c (eventsKey cl) (wrap64 (- maxQueueDepth s)) (- 1) r1 = (x2, r')"
    and ok: "first_err [cmd_err x1, cmd_err x2] = None"
    using assms by (auto simp: Push_def Let_def split: prod.splits)
  from ok obtain n a where "x1 = Inr n" "x2 = Inr a"
    by (auto simp: first_err_None)
  with rpush_ok [of c _ e r n r1] ltrim_ok [of c _ _ _ r1 a r'] 1 2 show ?thesis
    by (auto simp: queue_of_def put_list_def)
qed

lemma Drain_effect:
  assumes "Drain R s c cl b r = (Inr (es, n), r')"
  shows "es = redis_slice 0 (wrap64 (b - 1)) (queue_of ks r cl)
    \<and> ks r' = put_list (eventsKey cl) (redis_slice b (- 1) (queue_of ks r cl)) (ks r)
    \<and> n = int (length (queue_of ks r' cl))"
proof -
  obtain x1 r1 x2 r2 x3 where 1: "rLRange R c (eventsKey cl) 0 (wrap64 (b - 1)) r = (x1, r1)"
    and 2: "rLTrim R c (eventsKey cl) b (- 1) r1 = (x2, r2)"
    and 3: "rLLen R c (eventsKey cl) r2 = (x3, r')"
    and ok: "case first_err [cmd_err x1, cmd_err x2, cmd_err x3] of None \<Rightarrow> True | Some e \<Rightarrow> errors_Is_Nil e"
    and es: "es = case_sum (\<lambda>_. []) id x1" and n: "n = case_sum (\<lambda>_. 0) id x3"
    using assms by (auto simp: Drain_def Let_def split: prod.splits option.splits if_splits)
  have "first_err [cmd_err x1, cmd_err x2, cmd_err x3] = None"
    using ok 1 2 3 never_nil by (cases x1; cases x2; cases x3) auto
  then obtain xs a m where x: "x1 = Inr xs" "x2 = Inr a" "x3 = Inr m"
    by (auto simp: first_err_None)
  from lrange_ok [OF 1 [unfolded x]] ltrim_ok [OF 2 [unfolded x]] llen_ok [OF 3 [unfolded x]]
  show ?thesis by (simp add: es n x queue_of_def)
qed

end

sublocale redis_events \<subseteq> es: event_store "Push R s" "Drain R s" "queue_of ks" "nat (maxQueueDepth s)"
proof unfold_locales
  show "0 < nat (maxQueueDepth s)" using depth_pos by simp
next
  fix c cl e r r'
  assume "Push R s c cl e r = (None, r')"
  then show "queue_of ks r' = (queue_of ks r)(cl := last_n (nat (maxQueueDepth s)) (queue_of ks r cl @ [e]))"
    using depth_pos depth_int64 slice_last [OF depth_pos]
    by (auto simp: Push_effect queue_of_def fun_eq_iff)
next
  fix c cl and b :: int and r es n r'
  assume a: "Drain R s c cl b r = (Inr (es, n), r')" and b: "0 < b" "b < 2 ^ 63"
  then show "es = take (nat b) (queue_of ks r cl)
      \<and> queue_of ks r' = (queue_of ks r)(cl := drop (nat b) (queue_of ks r cl))
      \<and> n = int (length (queue_of ks r' cl))"
    using Drain_effect [OF a] slice_head [OF b(1)] slice_from [of b]
    by (auto simp: queue_of_def fun_eq_iff)
qed

context redis_events
begin

lemmas Push_spec = es.push_spec and Drain_spec = es.drain_spec

text \<open>A run never reorders, duplicates or invents events: it only loses what the cap cuts off.\<close>

lemma run_queue_subseq:
  "run_queue R s c cl ops r = Some (del, r') \<Longrightarrow> positive_drains ops \<Longrightarrow>
     subseq (del @ queue_of ks r' cl) (queue_of ks r cl @ pushed ops)"
proof (induction ops arbitrary: del r)
  case (Cons op ops)
  show ?case
  proof (cases op)
    case (QPush e)
    with Cons.prems obtain r1 where 1: "Push R s c cl e r = (None, r1)"
      and 2: "run_queue R s c cl ops r1 = Some (del, r')"
      by (auto split: prod.splits option.splits)
    have "subseq (queue_of ks r1 cl) (queue_of ks r cl @ [e])"
      using es.push_spec [OF 1] by (simp add: subseq_last_n)
    then have "subseq (queue_of ks r1 cl @ pushed ops) ((queue_of ks r cl @ [e]) @ pushed ops)"
      by (rule list_emb_append_mono) simp
    then show ?thesis
      using Cons.IH [OF 2] Cons.prems(2) QPush subseq_order.order_trans by fastforce
  next
    case (QDrain b)
    with Cons.prems obtain ds n r1 d where 1: "Drain R s c cl b r = (Inr (ds, n), r1)"
      and 2: "run_queue R s c cl ops r1 = Some (d, r')" and del: "del = ds @ d"
      by (auto split: prod.splits option.splits sum.splits)
    from QDrain Cons.prems(2) have b: "0 < b" "b < 2 ^ 63" and p: "positive_drains ops" by simp_all
    have "subseq (ds @ (d @ queue_of ks r' cl)) (ds @ (queue_of ks r1 cl @ pushed ops))"
      by (rule list_emb_append_mono [OF _ Cons.IH [OF 2 p]]) simp
    also have "ds @ (queue_of ks r1 cl @ pushed ops) = queue_of ks r cl @ pushed ops"
      using es.drain_splits [OF 1 b] by (metis append.assoc)
    finally show ?thesis using QDrain del by simp
  qed
qed simp

text \<open>Below the cap nothing is lost either.\<close>

lemma run_queue_exact:
  "run_queue R s c cl ops r = Some (del, r') \<Longrightarrow> positive_drains ops \<Longrightarrow>
     int (length (queue_of ks r cl) + length (pushed ops)) \<le> maxQueueDepth s \<Longrightarrow>
     del @ queue_of ks r' cl = queue_of ks r cl @ pushed ops"
proof (induction ops arbitrary: del r)
  case (Cons op ops)
  show ?case
  proof (cases op)
    case (QPush e)
    with Cons.prems obtain r1 where 1: "Push R s c cl e r = (None, r1)"
      and 2: "run_queue R s c cl ops r1 = Some (del, r')"
      by (auto split: prod.splits option.splits)
    have "queue_of ks r1 cl = queue_of ks r cl @ [e]"
      using es.push_no_overflow [OF 1] Cons.prems(3) QPush by simp
    with Cons.IH [OF 2] Cons.prems(2,3) QPush show ?thesis by simp
  next
    case (QDrain b)
    with Cons.prems obtain ds n r1 d where 1: "Drain R s c cl b r = (Inr (ds, n), r1)"
      and 2: "run_queue R s c cl ops r1 = Some (d, r')" and del: "del = ds @ d"
      by (auto split: prod.splits option.splits sum.splits)
    from QDrain Cons.prems(2) have b: "0 < b" "b < 2 ^ 63" and p: "positive_drains ops" by simp_all
    have sp: "ds @ queue_of ks r1 cl = queue_of ks r cl" by (rule es.drain_splits [OF 1 b])
    then have "length (queue_of ks r1 cl) \<le> length (queue_of ks r cl)" by (metis le_add2 length_append)
    with Cons.prems(3) QDrain have "d @ queue_of ks r' cl = queue_of ks r1 cl @ pushed ops"
      by (intro Cons.IH [OF 2 p]) simp
    with sp QDrain del show ?thesis by (metis append.assoc pushed.simps(3))
  qed
qed simp

end

interpretation mes: redis_events mem_redis mks mup "NewEventStore 10000"
  by unfold_locales (simp_all add: NewEventStore_def)

section \<open>Properties\<close>

text \<open>
  A successful \<open>Push\<close> appends the event to the tail of that client's queue and keeps the newest
  \<open>maxQueueDepth\<close> events, so the queue never exceeds the cap; no other key of Redis changes.
\<close>

theorem push_appends_and_caps:
  assumes "redis_events R ks up s" and "Push R s c cl e r = (None, r')"
  shows "queue_of ks r' cl = last_n (nat (maxQueueDepth s)) (queue_of ks r cl @ [e])
    \<and> int (length (queue_of ks r' cl)) \<le> maxQueueDepth s
    \<and> (\<forall>k. k \<noteq> eventsKey cl \<longrightarrow> ks r' k = ks r k)"
  using redis_events.Push_spec [OF assms] redis_events.depth_pos [OF assms(1)]
    redis_laws.Push_effect [OF redis_events.axioms(1) [OF assms(1)] assms(2)]
  by (simp add: put_list_other)

lemma mem_events: "0 < d \<Longrightarrow> d < 2 ^ 63 \<Longrightarrow> redis_events mem_redis mks mup (NewEventStore d)"
  by unfold_locales (simp_all add: NewEventStore_def)

text \<open>A server that already holds three events of the client \<open>u1\<close>.\<close>

definition mem3 :: mem where
  "mem3 = \<lparr>entries = [(eventsKey ''u1'', RList [''a'', ''b'', ''c''], None)], reachable = True\<rparr>"

lemmas mem_eval = mem_ops mem3_def NewEventStore_def queue_of_def key_defs

lemma mem3_queue: "queue_of mks mem3 ''u1'' = [''a'', ''b'', ''c'']"
  by (simp add: mem_eval)

theorem push_appends_and_caps_witness:
  "queue_of mks (snd (Push mem_redis (NewEventStore 3) ReqCtx ''u1'' ''d'' mem3)) ''u1'' = [''b'', ''c'', ''d'']"
proof -
  obtain r where p: "Push mem_redis (NewEventStore 3) ReqCtx ''u1'' ''d'' mem3 = (None, r)"
    by (simp add: Push_def mem_eval)
  from push_appends_and_caps [OF mem_events [of 3] p] p show ?thesis
    by (simp add: last_n_def mem3_queue NewEventStore_def)
qed

text \<open>
  A successful \<open>Drain\<close> of a positive batch returns exactly the oldest \<open>batchSize\<close> events (all of
  them when there are fewer), removes exactly those, and reports the number that remain.
\<close>

theorem drain_takes_oldest:
  assumes "redis_events R ks up s" and "Drain R s c cl b r = (Inr (es, n), r')"
    and "0 < b" and "b < 2 ^ 63"
  shows "es = take (nat b) (queue_of ks r cl) \<and> queue_of ks r' cl = drop (nat b) (queue_of ks r cl)
    \<and> n = int (length (queue_of ks r' cl)) \<and> (\<forall>k. k \<noteq> eventsKey cl \<longrightarrow> ks r' k = ks r k)"
  using redis_events.Drain_spec [OF assms]
    redis_laws.Drain_effect [OF redis_events.axioms(1) [OF assms(1)] assms(2)]
  by (simp add: put_list_other)

theorem drain_takes_oldest_witness:
  "fst (Drain mem_redis (NewEventStore 3) ReqCtx ''u1'' 2 mem3) = Inr ([''a'', ''b''], 1)
   \<and> queue_of mks (snd (Drain mem_redis (NewEventStore 3) ReqCtx ''u1'' 2 mem3)) ''u1'' = [''c'']"
proof -
  obtain r where d: "Drain mem_redis (NewEventStore 3) ReqCtx ''u1'' 2 mem3 = (Inr ([''a'', ''b''], 1), r)"
    by (simp add: Drain_def mem_eval)
  from drain_takes_oldest [OF mem_events [of 3] d] d show ?thesis by (simp add: mem3_queue)
qed

text \<open>
  C1: Over any sequence of successful pushes and drains (of positive batch sizes) by a single consumer, what was delivered
  followed by what is still queued is a subsequence of what was queued and pushed (nothing is
  duplicated, reordered or invented), and it is all of it as long as the pushes fit the cap.
\<close>

theorem sequential_delivery_fifo:
  assumes "redis_events R ks up s" and "run_queue R s c cl ops r = Some (del, r')"
    and "positive_drains ops"
  shows "subseq (del @ queue_of ks r' cl) (queue_of ks r cl @ pushed ops)
    \<and> (int (length (queue_of ks r cl) + length (pushed ops)) \<le> maxQueueDepth s
         \<longrightarrow> del @ queue_of ks r' cl = queue_of ks r cl @ pushed ops)"
  using redis_events.run_queue_subseq [OF assms] redis_events.run_queue_exact [OF assms] by blast

theorem sequential_delivery_fifo_witness:
  "\<exists>r'. run_queue mem_redis (NewEventStore 9) ReqCtx ''u1''
      [QDrain 2, QPush ''d'', QDrain 5] mem3 = Some ([''a'', ''b'', ''c'', ''d''], r')
    \<and> queue_of mks r' ''u1'' = []"
proof -
  obtain r' where r: "run_queue mem_redis (NewEventStore 9) ReqCtx ''u1''
      [QDrain 2, QPush ''d'', QDrain 5] mem3 = Some ([''a'', ''b'', ''c'', ''d''], r')"
    by (simp add: Drain_def Push_def mem_eval)
  from sequential_delivery_fifo [OF mem_events [of 9] this] r show ?thesis
    by (auto simp: mem_eval)
qed

text \<open>
  With \<open>batch_size\<close> configured as 0 a drain returns the whole queue and removes nothing
  (\<open>LRANGE 0 -1\<close> with \<open>LTRIM 0 -1\<close>), so every poll tick delivers the same events again.
\<close>

theorem zero_batch_redelivers:
  assumes "redis_events R ks up s" and "Drain R s c cl 0 r = (Inr (es, n), r')"
  shows "es = queue_of ks r cl \<and> queue_of ks r' cl = queue_of ks r cl"
  using redis_laws.Drain_effect [OF redis_events.axioms(1) [OF assms(1)] assms(2)] slice_from [of 0]
  by (simp add: queue_of_def)

theorem zero_batch_redelivers_witness:
  "fst (Drain mem_redis (NewEventStore 3) ReqCtx ''u1'' 0 mem3) = Inr ([''a'', ''b'', ''c''], 3)
   \<and> queue_of mks (snd (Drain mem_redis (NewEventStore 3) ReqCtx ''u1'' 0 mem3)) ''u1'' = [''a'', ''b'', ''c'']"
proof -
  obtain r where d: "Drain mem_redis (NewEventStore 3) ReqCtx ''u1'' 0 mem3 = (Inr ([''a'', ''b'', ''c''], 3), r)"
    by (simp add: Drain_def mem_eval)
  from zero_batch_redelivers [OF mem_events [of 3] d] d show ?thesis by (simp add: mem3_queue)
qed

end
