(* ===== verification/Event_Pipeline.thy ===== *)
theory Event_Pipeline
  imports Event_Store
begin

text \<open>
  \<open>Push\<close> and \<open>Drain\<close> send their commands with \<open>rdb.Pipeline()\<close>, not \<open>TxPipeline()\<close>: Redis runs each
  command atomically but may run commands of other connections in between. This theory takes the
  two operations apart into their commands, shows that running the commands back to back is the
  operation, and studies every interleaving of any number of concurrent pushes and drains of one
  client's queue.
\<close>

section \<open>The commands of a pipeline\<close>

datatype qcmd = CRPush string | CLTrim int int | CLRange int int | CLLen

datatype reply = RInt int | RItems "string list" | ROK

definition trim_cmd :: "eventStore \<Rightarrow> qcmd" where
  "trim_cmd s = CLTrim (wrap64 (- maxQueueDepth s)) (- 1)"

definition push_cmds :: "eventStore \<Rightarrow> string \<Rightarrow> qcmd list" where
  "push_cmds s e = [CRPush e, trim_cmd s]"

definition drain_cmds :: "int \<Rightarrow> qcmd list" where
  "drain_cmds b = [CLRange 0 (wrap64 (b - 1)), CLTrim b (- 1), CLLen]"

fun exec_cmd :: "'r redis \<Rightarrow> go_context \<Rightarrow> string \<Rightarrow> qcmd \<Rightarrow> 'r \<Rightarrow> (go_error + reply) \<times> 'r" where
  "exec_cmd R c k (CRPush e) r = apfst (map_sum id RInt) (rRPush R c k e r)"
| "exec_cmd R c k (CLTrim i j) r = apfst (map_sum id (\<lambda>_. ROK)) (rLTrim R c k i j r)"
| "exec_cmd R c k (CLRange i j) r = apfst (map_sum id RItems) (rLRange R c k i j r)"
| "exec_cmd R c k CLLen r = apfst (map_sum id RInt) (rLLen R c k r)"

fun exec_pipe :: "'r redis \<Rightarrow> go_context \<Rightarrow> string \<Rightarrow> qcmd list \<Rightarrow> 'r \<Rightarrow> (go_error + reply) list \<times> 'r" where
  "exec_pipe R c k [] r = ([], r)"
| "exec_pipe R c k (q # qs) r =
     (let (x, r1) = exec_cmd R c k q r; (xs, r2) = exec_pipe R c k qs r1 in (x # xs, r2))"

lemma cmd_err_map_sum [simp]: "cmd_err (map_sum id f x) = cmd_err x"
  by (cases x) auto

lemma Push_is_pipeline:
  "Push R s c cl e r =
     (let (xs, r') = exec_pipe R c (eventsKey cl) (push_cmds s e) r in (first_err (map cmd_err xs), r'))"
  by (simp add: Push_def push_cmds_def trim_cmd_def Let_def split: prod.splits)

lemma Drain_is_pipeline:
  "snd (Drain R s c cl b r) = snd (exec_pipe R c (eventsKey cl) (drain_cmds b) r)"
  by (simp add: Drain_def drain_cmds_def Let_def split: prod.splits option.splits)

section \<open>Their effect on a queue\<close>

fun q_step :: "qcmd \<Rightarrow> string list \<Rightarrow> string list" where
  "q_step (CRPush e) q = q @ [e]"
| "q_step (CLTrim i j) q = redis_slice i j q"
| "q_step (CLRange _ _) q = q"
| "q_step CLLen q = q"

fun q_reply :: "qcmd \<Rightarrow> string list \<Rightarrow> reply" where
  "q_reply (CRPush e) q = RInt (int (length q) + 1)"
| "q_reply (CLTrim i j) q = ROK"
| "q_reply (CLRange i j) q = RItems (redis_slice i j q)"
| "q_reply CLLen q = RInt (int (length q))"

context redis_laws
begin

lemma exec_cmd_effect:
  assumes "exec_cmd R c (eventsKey cl) q r = (Inr a, r')"
  shows "a = q_reply q (queue_of ks r cl) \<and> queue_of ks r' cl = q_step q (queue_of ks r cl)"
proof (cases q)
  case (CRPush e)
  with assms obtain n where "rRPush R c (eventsKey cl) e r = (Inr n, r')" "a = RInt n"
    by (cases "rRPush R c (eventsKey cl) e r") (auto simp: map_sum_def split: sum.splits)
  with CRPush rpush_ok show ?thesis by (fastforce simp: queue_of_def)
next
  case (CLTrim i j)
  with assms obtain n where "rLTrim R c (eventsKey cl) i j r = (Inr n, r')" "a = ROK"
    by (cases "rLTrim R c (eventsKey cl) i j r") (auto simp: map_sum_def split: sum.splits)
  with CLTrim ltrim_ok show ?thesis by (fastforce simp: queue_of_def)
next
  case (CLRange i j)
  with assms obtain n where "rLRange R c (eventsKey cl) i j r = (Inr n, r')" "a = RItems n"
    by (cases "rLRange R c (eventsKey cl) i j r") (auto simp: map_sum_def split: sum.splits)
  with CLRange lrange_ok show ?thesis by (fastforce simp: queue_of_def)
next
  case CLLen
  with assms obtain n where "rLLen R c (eventsKey cl) r = (Inr n, r')" "a = RInt n"
    by (cases "rLLen R c (eventsKey cl) r") (auto simp: map_sum_def split: sum.splits)
  with CLLen llen_ok show ?thesis by (fastforce simp: queue_of_def)
qed

end

section \<open>Concurrent pipelines\<close>

text \<open>
  A set of pipelines on one queue: what each still has to send and the replies it has got. A
  schedule names, step by step, the pipeline whose next command Redis runs.
\<close>

record pipes =
  cqueue :: "string list"
  conts :: "qcmd list list"
  replies :: "reply list list"

definition start_pipes :: "string list \<Rightarrow> qcmd list list \<Rightarrow> pipes" where
  "start_pipes q ps = \<lparr>cqueue = q, conts = ps, replies = map (\<lambda>_. []) ps\<rparr>"

definition pipe_step :: "nat \<Rightarrow> pipes \<Rightarrow> pipes option" where
  "pipe_step i p =
     (if i < length (conts p) then
        (case conts p ! i of [] \<Rightarrow> None
         | q # qs \<Rightarrow> Some \<lparr>cqueue = q_step q (cqueue p), conts = (conts p)[i := qs],
             replies = (replies p)[i := replies p ! i @ [q_reply q (cqueue p)]]\<rparr>)
      else None)"

fun run_sched :: "nat list \<Rightarrow> pipes \<Rightarrow> pipes option" where
  "run_sched [] p = Some p"
| "run_sched (i # is) p = Option.bind (pipe_step i p) (run_sched is)"

definition pipe_ok :: "eventStore \<Rightarrow> qcmd list \<Rightarrow> bool" where
  "pipe_ok s c \<longleftrightarrow> (\<exists>e. c = push_cmds s e) \<or> (\<exists>b>0. c = drain_cmds b)"

text \<open>A pipeline on its way, and the pushes that have appended but not yet trimmed.\<close>

definition cont_ok :: "eventStore \<Rightarrow> qcmd list \<Rightarrow> bool" where
  "cont_ok s c \<longleftrightarrow> (\<exists>e. c = push_cmds s e) \<or> c = [trim_cmd s] \<or> (\<exists>b>0. suffix c (drain_cmds b))"

definition untrimmed :: "eventStore \<Rightarrow> pipes \<Rightarrow> nat" where
  "untrimmed s p = length (filter (\<lambda>c. c = [trim_cmd s]) (conts p))"

definition pipes_inv :: "eventStore \<Rightarrow> pipes \<Rightarrow> bool" where
  "pipes_inv s p \<longleftrightarrow> (\<forall>c \<in> set (conts p). cont_ok s c)
     \<and> length (cqueue p) \<le> nat (maxQueueDepth s) + untrimmed s p"

lemma length_filter_update:
  "i < length xs \<Longrightarrow> length (filter P (xs[i := y])) + (if P (xs ! i) then 1 else 0)
     = length (filter P xs) + (if P y then 1 else 0)"
proof (induction xs arbitrary: i)
  case (Cons x xs)
  then show ?case
    by (cases i) (use Cons.IH [of "i - 1"] in \<open>auto split: if_splits\<close>)
qed simp

lemma length_take_le: "length (take n (drop m xs)) \<le> length xs"
  by simp

lemma length_redis_slice: "length (redis_slice i j xs) \<le> length xs"
  by (auto simp: redis_slice_def Let_def intro: order_trans [OF length_take_le])

lemma suffix_drain_cmds:
  "suffix c (drain_cmds b) \<longleftrightarrow> c \<in> {drain_cmds b, [CLTrim b (- 1), CLLen], [CLLen], []}"
  by (auto simp: drain_cmds_def suffix_Cons)

lemmas cmds_defs = push_cmds_def drain_cmds_def trim_cmd_def

text \<open>What the next command of a pipeline under way can be.\<close>

lemma cont_ok_Cons:
  assumes "cont_ok s (q # qs)"
  obtains (rpush) e where "q = CRPush e" "qs = [trim_cmd s]"
    | (trim) "q = trim_cmd s" "qs = []"
    | (drain) b where "q \<noteq> trim_cmd s \<or> qs \<noteq> []" "0 < b" "suffix qs (drain_cmds b)"
        "qs \<noteq> [trim_cmd s]" "\<forall>e. q \<noteq> CRPush e"
  using assms unfolding cont_ok_def suffix_drain_cmds
  by (auto simp: cmds_defs suffix_Cons)

lemma length_q_step: "\<forall>e. q \<noteq> CRPush e \<Longrightarrow> length (q_step q xs) \<le> length xs"
  by (cases q) (simp_all add: length_redis_slice)

lemma pipe_step_inv:
  assumes inv: "pipes_inv s p" and step: "pipe_step i p = Some p'"
    and d: "0 < maxQueueDepth s" "maxQueueDepth s < 2 ^ 63"
  shows "pipes_inv s p'"
proof -
  obtain q qs where i: "i < length (conts p)" and c: "conts p ! i = q # qs"
    and p': "cqueue p' = q_step q (cqueue p)" "conts p' = (conts p)[i := qs]"
    using step by (auto simp: pipe_step_def split: if_splits list.splits)
  have cnt: "untrimmed s p' + (if q # qs = [trim_cmd s] then 1 else 0)
      = untrimmed s p + (if qs = [trim_cmd s] then 1 else 0)"
    using length_filter_update [OF i, of "\<lambda>c. c = [trim_cmd s]" qs] c p'(2) by (simp add: untrimmed_def)
  have "cont_ok s (q # qs)" using inv i c by (metis nth_mem pipes_inv_def)
  then have "cont_ok s qs \<and> length (cqueue p') \<le> nat (maxQueueDepth s) + untrimmed s p'"
  proof (cases rule: cont_ok_Cons)
    case (rpush e)
    with cnt p'(1) inv show ?thesis by (auto simp: cont_ok_def pipes_inv_def trim_cmd_def)
  next
    case trim
    with p'(1) d have "length (cqueue p') \<le> nat (maxQueueDepth s)"
      by (simp add: trim_cmd_def slice_last)
    with trim show ?thesis by (auto simp: cont_ok_def intro: exI [of _ 1])
  next
    case (drain b)
    with cnt p'(1) inv length_q_step [of q "cqueue p"] show ?thesis
      by (auto simp: cont_ok_def pipes_inv_def split: if_splits)
  qed
  then show ?thesis
    using inv p'(2) set_update_subset_insert [of "conts p" i qs] by (auto simp: pipes_inv_def)
qed

lemma run_sched_inv:
  "pipes_inv s p \<Longrightarrow> run_sched is p = Some p' \<Longrightarrow> 0 < maxQueueDepth s \<Longrightarrow> maxQueueDepth s < 2 ^ 63
     \<Longrightarrow> pipes_inv s p'"
  by (induction "is" arbitrary: p) (auto simp: bind_eq_Some_conv dest: pipe_step_inv)

section \<open>Properties\<close>

text \<open>
  C23: However the commands of any number of concurrent pushes and drains interleave, the queue
  exceeds \<open>maxQueueDepth\<close> by at most one event per push that has appended and not yet trimmed, and
  it is within the cap whenever all pipelines have finished.
\<close>

theorem interleaved_queue_bounded:
  assumes "0 < maxQueueDepth s" and "maxQueueDepth s < 2 ^ 63"
    and "list_all (pipe_ok s) ps" and "int (length q) \<le> maxQueueDepth s"
    and "run_sched sched (start_pipes q ps) = Some p"
  shows "length (cqueue p) \<le> nat (maxQueueDepth s) + untrimmed s p
    \<and> (list_all (\<lambda>c. c = []) (conts p) \<longrightarrow> int (length (cqueue p)) \<le> maxQueueDepth s)"
proof -
  have "pipes_inv s (start_pipes q ps)"
    using assms(3,4) by (fastforce simp: pipes_inv_def start_pipes_def pipe_ok_def cont_ok_def list_all_iff)
  then have inv: "pipes_inv s p" using assms(1,2,5) by (blast intro: run_sched_inv)
  moreover have "list_all (\<lambda>c. c = []) (conts p) \<Longrightarrow> untrimmed s p = 0"
    by (auto simp: untrimmed_def list_all_iff filter_empty_conv)
  ultimately show ?thesis using assms(1) by (auto simp: pipes_inv_def)
qed

theorem interleaved_queue_bounded_witness:
  "\<exists>p. run_sched [0, 1, 1, 0]
      (start_pipes [''a'', ''b''] [push_cmds (NewEventStore 2) ''c'', push_cmds (NewEventStore 2) ''d'']) = Some p
    \<and> length (cqueue p) \<le> 2 + untrimmed (NewEventStore 2) p"
proof -
  obtain p where p: "run_sched [0, 1, 1, 0]
      (start_pipes [''a'', ''b''] [push_cmds (NewEventStore 2) ''c'', push_cmds (NewEventStore 2) ''d'']) = Some p"
    by (simp add: start_pipes_def pipe_step_def cmds_defs NewEventStore_def)
  from interleaved_queue_bounded [OF _ _ _ _ this, of "NewEventStore 2"]
  have "length (cqueue p) \<le> 2 + untrimmed (NewEventStore 2) p"
    by (auto simp: NewEventStore_def pipe_ok_def)
  with p show ?thesis by blast
qed

text \<open>
  C38: A drain is not atomic. If a push runs between the drain's \<open>LRANGE\<close> and its \<open>LTRIM\<close>, and fewer
  events than the batch size were queued, the trim also removes the event just pushed: the push
  has been answered with success, the drain did not return the event, and the queue is empty.
\<close>

theorem interleaved_drain_loses_event:
  assumes "int (length q) < b" and "b < 2 ^ 63"
    and "int (length q) < maxQueueDepth s" and "maxQueueDepth s < 2 ^ 63"
  shows "run_sched [0, 1, 1, 0, 0] (start_pipes q [drain_cmds b, push_cmds s e])
     = Some \<lparr>cqueue = [], conts = [[], []],
             replies = [[RItems q, ROK, RInt 0], [RInt (int (length q) + 1), ROK]]\<rparr>"
proof -
  have "0 < b" and "0 < maxQueueDepth s" using assms by linarith+
  moreover have "drop (nat b) (q @ [e]) = []" and "take (nat b) q = q"
    and "last_n (nat (maxQueueDepth s)) (q @ [e]) = q @ [e]"
    using assms by auto
  ultimately show ?thesis
    using assms(2,4) slice_head [of b q] slice_from [of b "q @ [e]"] slice_last [of "maxQueueDepth s" "q @ [e]"]
    by (simp add: start_pipes_def pipe_step_def cmds_defs)
qed

theorem interleaved_drain_loses_event_witness:
  "\<exists>p. run_sched [0, 1, 1, 0, 0] (start_pipes [] [drain_cmds 100, push_cmds (NewEventStore 10000) ''e''])
     = Some p \<and> cqueue p = [] \<and> hd (replies p) = [RItems [], ROK, RInt 0]"
  using interleaved_drain_loses_event [of "[]" 100 "NewEventStore 10000" "''e''"]
  by (simp add: NewEventStore_def)

text \<open>
  Two concurrent drains (two streams of one client, from two addresses) can return the same
  events: both \<open>LRANGE\<close>s may run before either \<open>LTRIM\<close>, and the second \<open>LTRIM\<close> then discards the
  next batch, which neither drain returned.
\<close>

theorem interleaved_drains_duplicate:
  assumes "0 < b" and "b < 2 ^ 63"
  shows "run_sched [0, 1, 0, 1, 0, 1] (start_pipes q [drain_cmds b, drain_cmds b])
     = Some \<lparr>cqueue = drop (2 * nat b) q, conts = [[], []],
             replies = [[RItems (take (nat b) q), ROK, RInt (int (length (drop (2 * nat b) q)))],
                        [RItems (take (nat b) q), ROK, RInt (int (length (drop (2 * nat b) q)))]]\<rparr>"
  using assms slice_head [of b q] slice_from [of b q] slice_from [of b "drop (nat b) q"]
  by (simp add: start_pipes_def pipe_step_def cmds_defs add.commute mult_2)

theorem interleaved_drains_duplicate_witness:
  "\<exists>p. run_sched [0, 1, 0, 1, 0, 1]
       (start_pipes [''a'', ''b''] [drain_cmds 1, drain_cmds 1]) = Some p
     \<and> cqueue p = [] \<and> map hd (replies p) = [RItems [''a''], RItems [''a'']]"
  using interleaved_drains_duplicate [of 1 "[''a'', ''b'']"] by simp

end
