(* ===== verification/Event_Delivery.thy ===== *)
theory Event_Delivery
  imports Event_Pipeline "HOL-Library.Multiset" "HOL-Library.Sublist"
begin

text \<open>
  What is promised in spite of the plain pipelines of \<open>Event_Pipeline\<close>: one consumer whose drains follow each other, as those
  of a stream do, and any number of concurrent pushes. The drain under way has read a part of the front of the queue that
  it is about to remove; trims of pushes may shorten that part, and nothing comes before it.
\<close>

section \<open>The consumer and the pushes\<close>

fun items_of :: "reply \<Rightarrow> string list" where
  "items_of (RItems xs) = xs"
| "items_of _ = []"

definition delivered :: "reply list \<Rightarrow> string list" where
  "delivered rs = concat (map items_of rs)"

text \<open>The events a schedule appends, in the order of its \<open>RPUSH\<close>es.\<close>

definition next_push :: "qcmd list \<Rightarrow> string list" where
  "next_push qs = (case qs of CRPush e # _ \<Rightarrow> [e] | _ \<Rightarrow> [])"

fun appended :: "nat list \<Rightarrow> pipes \<Rightarrow> string list" where
  "appended [] p = []"
| "appended (i # is) p = (case pipe_step i p of None \<Rightarrow> [] | Some p' \<Rightarrow> next_push (conts p ! i) @ appended is p')"

text \<open>One consumer on one connection: its drains one after the other. The commands it has still to send are these.\<close>

definition consumer :: "int list \<Rightarrow> qcmd list" where
  "consumer bs = concat (map drain_cmds bs)"

fun drain_cont :: "qcmd list \<Rightarrow> bool" where
  "drain_cont [] = True"
| "drain_cont (CLRange i j # qs) = (\<exists>b qs'. qs = CLTrim b (- 1) # qs' \<and> i = 0 \<and> j = b - 1 \<and> drain_cont qs)"
| "drain_cont (CLTrim b j # qs) = (j = - 1 \<and> 0 < b \<and> b < 2 ^ 63 \<and> drain_cont qs)"
| "drain_cont (CLLen # qs) = drain_cont qs"
| "drain_cont (CRPush e # qs) = False"

lemma drain_cont_consumer: "\<forall>b \<in> set bs. 0 < b \<and> b < 2 ^ 63 \<Longrightarrow> drain_cont (consumer bs)"
  by (induction bs) (auto simp: consumer_def drain_cmds_def)

definition push_cont :: "eventStore \<Rightarrow> qcmd list \<Rightarrow> bool" where
  "push_cont s c \<longleftrightarrow> (\<exists>e. c = push_cmds s e) \<or> c = [trim_cmd s] \<or> c = []"

section \<open>The order of events\<close>

text \<open>How much of the front of the queue the drain under way has read and is about to remove.\<close>

definition read_ahead :: "qcmd list \<Rightarrow> nat" where
  "read_ahead qs = (case qs of CLTrim b _ # _ \<Rightarrow> nat b | _ \<Rightarrow> 0)"

definition in_order :: "eventStore \<Rightarrow> string list \<Rightarrow> pipes \<Rightarrow> bool" where
  "in_order s hist p \<longleftrightarrow> (\<exists>c cs rs rss. conts p = c # cs \<and> replies p = rs # rss \<and> drain_cont c \<and> list_all (push_cont s) cs
     \<and> (\<exists>k. k \<le> read_ahead c \<and> k \<le> length (cqueue p) \<and> subseq (delivered rs @ drop k (cqueue p)) hist))"

lemma subseq_drop_more: "k \<le> m \<Longrightarrow> subseq (xs @ drop m ys) (xs @ drop k ys)"
  by (metis drop_drop le_add_diff_inverse2 list_emb_append_mono subseq_order.refl suffix_drop suffix_imp_subseq)

lemma last_n_drop: "last_n n xs = drop (length xs - n) xs"
  by (simp add: last_n_def)

lemma append_take_min: "take n xs @ drop (min n (length xs)) xs = xs"
  by (cases "n \<le> length xs") (simp_all add: min_def)

lemma consumer_step:
  assumes "drain_cont (q # qs)" and "k \<le> read_ahead (q # qs)" and "k \<le> length Q" and "subseq (D @ drop k Q) hist"
  shows "\<exists>k'. k' \<le> read_ahead qs \<and> k' \<le> length (q_step q Q) \<and> subseq ((D @ items_of (q_reply q Q)) @ drop k' (q_step q Q)) hist"
proof (cases q)
  case (CRPush e)
  with assms(1) show ?thesis by simp
next
  case (CLTrim b j)
  with assms(1) have "q_step q Q = drop (nat b) Q" by (simp add: slice_from)
  moreover have "k \<le> nat b" using assms(2) CLTrim by (simp add: read_ahead_def)
  ultimately show ?thesis using CLTrim subseq_order.trans [OF subseq_drop_more assms(4)] by fastforce
next
  case (CLRange i j)
  with assms(1) obtain b qs' where b: "qs = CLTrim b (- 1) # qs'" "i = 0" "j = b - 1" "0 < b" by auto
  moreover have "k = 0" using assms(2) CLRange by (simp add: read_ahead_def)
  ultimately show ?thesis using assms(4) CLRange slice_head [of b Q]
    by (intro exI [of _ "min (nat b) (length Q)"]) (simp add: read_ahead_def append_take_min)
next
  case CLLen
  with assms show ?thesis by (auto simp: read_ahead_def)
qed

lemma push_step:
  assumes "push_cont s (q # qs)" and "k \<le> length Q" and "subseq (D @ drop k Q) hist" and "0 < maxQueueDepth s" "maxQueueDepth s < 2 ^ 63"
  shows "\<exists>k' \<le> k. k' \<le> length (q_step q Q) \<and> subseq (D @ drop k' (q_step q Q)) (hist @ next_push (q # qs))"
proof -
  consider e where "q = CRPush e" | "q = trim_cmd s" using assms(1) by (auto simp: push_cont_def push_cmds_def)
  then show ?thesis
  proof cases
    case 1
    with assms(2,3) show ?thesis
      by (intro exI [of _ k]) (simp add: next_push_def list_emb_append_mono flip: append_assoc)
  next
    case 2
    let ?m = "length Q - nat (maxQueueDepth s)"
    have "q_step q Q = drop ?m Q" using 2 assms(4,5) by (simp add: trim_cmd_def slice_last last_n_drop)
    moreover have "subseq (D @ drop (k - ?m) (drop ?m Q)) hist"
      using subseq_order.trans [OF subseq_drop_more assms(3)] by simp
    ultimately show ?thesis using 2 assms(2) by (intro exI [of _ "k - ?m"]) (auto simp: next_push_def trim_cmd_def)
  qed
qed

lemma pipe_step_in_order:
  assumes inv: "in_order s hist p" and step: "pipe_step i p = Some p'" and d: "0 < maxQueueDepth s" "maxQueueDepth s < 2 ^ 63"
  shows "in_order s (hist @ next_push (conts p ! i)) p'"
proof -
  obtain c cs rs rss k where c: "conts p = c # cs" "replies p = rs # rss" "drain_cont c" "list_all (push_cont s) cs"
    and k: "k \<le> read_ahead c" "k \<le> length (cqueue p)" "subseq (delivered rs @ drop k (cqueue p)) hist"
    using inv by (auto simp: in_order_def)
  obtain q qs where i: "i < length (conts p)" "conts p ! i = q # qs"
    and p': "p' = \<lparr>cqueue = q_step q (cqueue p), conts = (conts p)[i := qs], replies = (replies p)[i := replies p ! i @ [q_reply q (cqueue p)]]\<rparr>"
    using step by (auto simp: pipe_step_def split: if_splits list.splits)
  show ?thesis
  proof (cases i)
    case 0
    with i c have q: "c = q # qs" by simp
    then have "drain_cont qs" "next_push (q # qs) = []" using c(3) by (cases q; auto simp: next_push_def)+
    with consumer_step [of q qs k "cqueue p" "delivered rs" hist] k c q i 0 show ?thesis
      by (simp add: in_order_def p' delivered_def)
  next
    case (Suc n)
    with i c have n: "n < length cs" "push_cont s (q # qs)" by (auto simp: list_all_length)
    then have "push_cont s qs" by (auto simp: push_cont_def push_cmds_def)
    then have "list_all (push_cont s) (cs[n := qs])" using c(4) by (simp add: list_all_iff) (metis insertE set_update_subset_insert subsetD)
    with push_step [OF n(2) k(2,3) d] k(1) c i Suc show ?thesis
      by (auto simp: in_order_def p' intro: order_trans)
  qed
qed

lemma run_sched_in_order:
  "in_order s hist p \<Longrightarrow> run_sched is p = Some p' \<Longrightarrow> 0 < maxQueueDepth s \<Longrightarrow> maxQueueDepth s < 2 ^ 63
     \<Longrightarrow> in_order s (hist @ appended is p) p'"
proof (induction "is" arbitrary: p hist)
  case (Cons i "is")
  then obtain p1 where 1: "pipe_step i p = Some p1" "run_sched is p1 = Some p'" by (auto simp: bind_eq_Some_conv)
  from Cons.IH [OF pipe_step_in_order [OF Cons.prems(1) 1(1) Cons.prems(3,4)] 1(2) Cons.prems(3,4)] 1(1) show ?case by simp
qed simp

text \<open>Each push appends its event once.\<close>

definition to_append :: "pipes \<Rightarrow> string multiset" where
  "to_append p = mset (concat (map next_push (conts p)))"

lemma mset_concat_update:
  "i < length xss \<Longrightarrow> mset (concat (map f (xss[i := y]))) + mset (f (xss ! i)) = mset (concat (map f xss)) + mset (f y)"
proof (induction xss arbitrary: i)
  case (Cons x xss)
  then show ?case by (cases i) (use Cons.IH [of "i - 1"] in \<open>simp_all add: ac_simps\<close>)
qed simp

lemma next_push_tail:
  assumes "drain_cont (q # qs) \<or> push_cont s (q # qs)"
  shows "next_push qs = []"
proof -
  have "drain_cont qs \<Longrightarrow> next_push qs = []" for qs by (cases qs rule: drain_cont.cases) (auto simp: next_push_def)
  moreover have "drain_cont (q # qs) \<Longrightarrow> drain_cont qs" by (cases q) auto
  ultimately show ?thesis using assms by (auto simp: push_cont_def push_cmds_def next_push_def trim_cmd_def)
qed

lemma pipe_step_to_append:
  assumes "in_order s hist p" and "pipe_step i p = Some p'"
  shows "to_append p = mset (next_push (conts p ! i)) + to_append p'"
proof -
  obtain q qs where i: "i < length (conts p)" "conts p ! i = q # qs" "conts p' = (conts p)[i := qs]"
    using assms(2) by (auto simp: pipe_step_def split: if_splits list.splits)
  have "drain_cont (q # qs) \<or> push_cont s (q # qs)"
    using assms(1) i by (auto simp: in_order_def list_all_length nth_Cons split: nat.splits) metis
  from next_push_tail [OF this] mset_concat_update [OF i(1), of next_push qs] i(2,3) show ?thesis
    by (simp add: to_append_def add.commute)
qed

lemma run_sched_to_append:
  "in_order s hist p \<Longrightarrow> run_sched is p = Some p' \<Longrightarrow> 0 < maxQueueDepth s \<Longrightarrow> maxQueueDepth s < 2 ^ 63
     \<Longrightarrow> to_append p = mset (appended is p) + to_append p'"
proof (induction "is" arbitrary: p hist)
  case (Cons i "is")
  then obtain p1 where 1: "pipe_step i p = Some p1" "run_sched is p1 = Some p'" by (auto simp: bind_eq_Some_conv)
  from Cons.IH [OF pipe_step_in_order [OF Cons.prems(1) 1(1) Cons.prems(3,4)] 1(2) Cons.prems(3,4)]
    pipe_step_to_append [OF Cons.prems(1) 1(1)] 1(1) show ?case by simp
qed simp

section \<open>Property\<close>

text \<open>
  C22: Delivery keeps the order and repeats nothing, under every interleaving. While one consumer drains a client's queue again and again and
  any number of pushes run concurrently, command by command in any order, what the consumer has received is at every moment a subsequence of the
  backlog followed by the events in the order in which Redis appended them, each push being appended at most once; unless a drain
  is between its \<open>LRANGE\<close> and its \<open>LTRIM\<close> this holds with the rest of the queue behind it, so an event received is no longer queued. Events can be lost, but none is received twice
  or before an older one.
\<close>

theorem interleaved_delivery_in_order:
  assumes "0 < maxQueueDepth s" and "maxQueueDepth s < 2 ^ 63" and "\<forall>b \<in> set bs. 0 < b \<and> b < 2 ^ 63"
    and "p0 = start_pipes q (consumer bs # map (push_cmds s) es)" and "run_sched sched p0 = Some p"
  shows "subseq (delivered (replies p ! 0)) (q @ appended sched p0)
    \<and> (read_ahead (conts p ! 0) = 0 \<longrightarrow> subseq (delivered (replies p ! 0) @ cqueue p) (q @ appended sched p0))
    \<and> mset (appended sched p0) \<subseteq># mset es"
proof -
  have inv: "in_order s q p0" using drain_cont_consumer [OF assms(3)]
    by (auto simp: assms(4) in_order_def start_pipes_def delivered_def list_all_iff push_cont_def)
  from run_sched_in_order [OF inv assms(5,1,2)] obtain k where
    k: "subseq (delivered (replies p ! 0) @ drop k (cqueue p)) (q @ appended sched p0)" "k \<le> read_ahead (conts p ! 0)"
    by (auto simp: in_order_def)
  have "subseq (delivered (replies p ! 0)) (q @ appended sched p0)"
    by (rule subseq_order.trans [OF prefix_imp_subseq [OF prefixI [OF refl]] k(1)])
  moreover have "to_append p0 = mset es"
    using next_push_tail [of CLLen "consumer bs"] drain_cont_consumer [OF assms(3)]
    by (simp add: to_append_def assms(4) start_pipes_def o_def next_push_def push_cmds_def)
  then have "mset (appended sched p0) \<subseteq># mset es"
    using run_sched_to_append [OF inv assms(5,1,2)] by (metis mset_subset_eq_add_left)
  ultimately show ?thesis using k by auto
qed

theorem interleaved_delivery_in_order_witness:
  "\<exists>p0 p. p0 = start_pipes [''a''] [consumer [2, 2], push_cmds (NewEventStore 9) ''b'', push_cmds (NewEventStore 9) ''c'']
     \<and> run_sched [0, 1, 0, 2, 0, 1, 0, 2, 0, 0] p0 = Some p
     \<and> delivered (replies p ! 0) = [''a'', ''c''] \<and> subseq [''a'', ''c''] ([''a''] @ appended [0, 1, 0, 2, 0, 1, 0, 2, 0, 0] p0)"
proof -
  let ?p0 = "start_pipes [''a''] (consumer [2, 2] # map (push_cmds (NewEventStore 9)) [''b'', ''c''])"
  obtain p where p: "run_sched [0, 1, 0, 2, 0, 1, 0, 2, 0, 0] ?p0 = Some p" "delivered (replies p ! 0) = [''a'', ''c'']"
    by (simp add: start_pipes_def pipe_step_def cmds_defs NewEventStore_def consumer_def delivered_def redis_slice_def)
  from interleaved_delivery_in_order [OF _ _ _ refl p(1)] p show ?thesis by (simp add: NewEventStore_def)
qed

end
