(* ===== verification/Ticket_Store.thy ===== *)
theory Ticket_Store
  imports Redis_Mem Keys
begin

text \<open>
  Pre-auth tickets (\<open>internal/repository/ticket.go\<close> and \<open>scripts/atomic_ticket_validate.lua\<close>): one
  pending ticket identifier per client and address, consumed at most once. The Lua script runs as
  one step of the server; the interface \<open>TicketStore\<close> is the locale \<open>ticket_store\<close>.
\<close>

section \<open>Operations\<close>

definition atomic_ticket_validate ::
  "'r redis \<Rightarrow> go_context \<Rightarrow> string \<Rightarrow> string \<Rightarrow> ('r, int) rcmd" where
  [store_defs]: "atomic_ticket_validate R c key expected_jti r =
     (case rGet R c key r of
        (Inl e, r1) \<Rightarrow> if e = RedisNil then (Inr 0, r1) else (Inl e, r1)
      | (Inr stored_jti, r1) \<Rightarrow>
          if stored_jti \<noteq> expected_jti then (Inr (- 1), r1)
          else (case rDel R c key r1 of (Inl e, r2) \<Rightarrow> (Inl e, r2) | (Inr _, r2) \<Rightarrow> (Inr 1, r2)))"

definition Store ::
  "'r redis \<Rightarrow> go_context \<Rightarrow> string \<Rightarrow> string \<Rightarrow> string \<Rightarrow> duration \<Rightarrow> 'r \<Rightarrow> go_error option \<times> 'r" where
  [store_defs]: "Store R c clientID ip jti ttl r = apfst cmd_err (rSet R c (ticketKey clientID ip) jti ttl r)"

definition ValidateAndConsume ::
  "'r redis \<Rightarrow> go_context \<Rightarrow> string \<Rightarrow> string \<Rightarrow> string \<Rightarrow> ('r, bool) rcmd" where
  [store_defs]: "ValidateAndConsume R c clientID ip jti r =
     (case atomic_ticket_validate R c (ticketKey clientID ip) jti r of
        (Inl e, r') \<Rightarrow> (Inl (Wrap ''ticket validate script error'' e), r')
      | (Inr result, r') \<Rightarrow> (Inr (result = 1), r'))"

text \<open>Attempts to consume one client's ticket, one after the other; which of them were accepted.\<close>

fun consume_all ::
  "'r redis \<Rightarrow> go_context \<Rightarrow> string \<Rightarrow> string \<Rightarrow> string list \<Rightarrow> 'r \<Rightarrow> (bool list \<times> 'r) option" where
  "consume_all R c cl ip [] r = Some ([], r)"
| "consume_all R c cl ip (jti # js) r =
     (case ValidateAndConsume R c cl ip jti r of
        (Inl _, _) \<Rightarrow> None
      | (Inr b, r') \<Rightarrow> map_option (apfst ((#) b)) (consume_all R c cl ip js r'))"

text \<open>Which attempts are accepted: the first that names \<open>j\<close>, and no other.\<close>

fun first_hit :: "string \<Rightarrow> string list \<Rightarrow> bool list" where
  "first_hit j [] = []"
| "first_hit j (x # xs) =
     (if x = j then True # replicate (length xs) False else False # first_hit j xs)"

section \<open>The interface\<close>

locale ticket_store =
  fixes store :: "go_context \<Rightarrow> string \<Rightarrow> string \<Rightarrow> string \<Rightarrow> duration \<Rightarrow> 'w \<Rightarrow> go_error option \<times> 'w"
    and consume :: "go_context \<Rightarrow> string \<Rightarrow> string \<Rightarrow> string \<Rightarrow> 'w \<Rightarrow> (go_error + bool) \<times> 'w"
    and pending :: "'w \<Rightarrow> string \<Rightarrow> string \<Rightarrow> string option"
  assumes store_spec: "store c cl ip jti d w = (None, w') \<Longrightarrow> pending w' cl ip = Some jti"
    and consume_spec: "consume c cl ip jti w = (Inr b, w') \<Longrightarrow>
      (b \<longleftrightarrow> pending w cl ip = Some jti)
      \<and> pending w' cl ip = (if b then None else pending w cl ip)"
begin

lemma consume_once:
  assumes "consume c cl ip jti w = (Inr True, w')" and "consume c' cl ip jti' w' = (Inr b, w'')"
  shows "\<not> b"
  using consume_spec [OF assms(1)] consume_spec [OF assms(2)] by simp

lemma store_replaces:
  assumes "store c cl ip jti d w = (None, w')" and "consume c' cl ip old w' = (Inr b, w'')"
  shows "b \<longleftrightarrow> old = jti"
  using store_spec [OF assms(1)] consume_spec [OF assms(2)] by auto

end

section \<open>The Redis-backed store\<close>

definition pending_ticket :: "('r \<Rightarrow> keyspace) \<Rightarrow> 'r \<Rightarrow> string \<Rightarrow> string \<Rightarrow> string option" where
  "pending_ticket ks r clientID ip = str_at (ks r (ticketKey clientID ip))"

context redis_laws
begin

lemma script_effect:
  assumes "atomic_ticket_validate R c k jti r = (Inr n, r')"
  shows "n = (case str_at (ks r k) of None \<Rightarrow> 0 | Some v \<Rightarrow> if v = jti then 1 else - 1)
    \<and> ks r' = (if n = 1 then (ks r)(k := None) else ks r)"
proof (cases "rGet R c k r")
  case (Pair x r1)
  show ?thesis
  proof (cases x)
    case (Inl e)
    with assms Pair have "e = RedisNil" "n = 0" "r' = r1"
      by (auto simp: atomic_ticket_validate_def split: if_splits)
    with get_nil Inl Pair show ?thesis by fastforce
  next
    case (Inr v)
    with get_ok Pair have g: "str_at (ks r k) = Some v" "ks r1 = ks r" by blast+
    show ?thesis
    proof (cases "v = jti")
      case True
      with assms Pair Inr obtain m where "rDel R c k r1 = (Inr m, r')" "n = 1"
        by (auto simp: atomic_ticket_validate_def split: prod.splits sum.splits)
      with del_ok g True show ?thesis by fastforce
    next
      case False
      with assms Pair Inr g show ?thesis by (auto simp: atomic_ticket_validate_def)
    qed
  qed
qed

lemma consume_effect:
  assumes "ValidateAndConsume R c cl ip jti r = (Inr b, r')"
  shows "(b \<longleftrightarrow> pending_ticket ks r cl ip = Some jti)
    \<and> ks r' = (if b then (ks r)(ticketKey cl ip := None) else ks r)"
proof -
  obtain n where n: "atomic_ticket_validate R c (ticketKey cl ip) jti r = (Inr n, r')" "b = (n = 1)"
    using assms by (auto simp: ValidateAndConsume_def split: prod.splits sum.splits)
  from script_effect [OF n(1)] n(2) show ?thesis
    by (auto simp: pending_ticket_def split: option.splits if_splits)
qed

lemma script_up:
  assumes "up c r" and "str_or_none (ks r k)"
  shows "\<exists>n r'. atomic_ticket_validate R c k jti r = (Inr n, r') \<and> up c r'"
proof -
  obtain x r1 where g: "rGet R c k r = (x, r1)" by force
  note g1 = get_cases [OF assms this]
  show ?thesis
  proof (cases "str_at (ks r k) = Some jti")
    case True
    obtain y r2 where d: "rDel R c k r1 = (y, r2)" by force
    with del_up g1 obtain n where "y = Inr n" by (cases y) auto
    moreover have "up c r2" using up_stable [of c r1 c k] g1 d by auto
    ultimately show ?thesis using True g g1 d by (simp add: atomic_ticket_validate_def)
  next
    case False
    with g g1 show ?thesis by (cases "str_at (ks r k)") (simp_all add: atomic_ticket_validate_def)
  qed
qed

lemma ValidateAndConsume_up:
  assumes "up c r" and "str_or_none (ks r (ticketKey cl ip))"
  shows "\<exists>b r'. ValidateAndConsume R c cl ip jti r = (Inr b, r') \<and> up c r'"
  using script_up [OF assms, of jti] by (auto simp: ValidateAndConsume_def)

lemma Store_effect:
  assumes "Store R c cl ip jti d r = (None, r')"
  shows "\<exists>t. ks r' = (ks r)(ticketKey cl ip \<mapsto> (RStr jti, t))
    \<and> (0 < d \<longrightarrow> millisecond dvd d \<longrightarrow> t = Some d)"
proof -
  obtain a where "rSet R c (ticketKey cl ip) jti d r = (Inr a, r')"
    using assms by (auto simp: Store_def split: prod.splits) (metis apfst_conv cmd_err_None prod.collapse prod.inject)
  from set_ok [OF this] show ?thesis by blast
qed

end

sublocale redis_laws \<subseteq> tk: ticket_store "Store R" "ValidateAndConsume R" "pending_ticket ks"
proof unfold_locales
  fix c cl ip jti d r r'
  assume "Store R c cl ip jti d r = (None, r')"
  from Store_effect [OF this] show "pending_ticket ks r' cl ip = Some jti"
    by (auto simp: pending_ticket_def)
next
  fix c cl ip jti r b r'
  assume "ValidateAndConsume R c cl ip jti r = (Inr b, r')"
  from consume_effect [OF this] show "(b \<longleftrightarrow> pending_ticket ks r cl ip = Some jti)
      \<and> pending_ticket ks r' cl ip = (if b then None else pending_ticket ks r cl ip)"
    by (auto simp: pending_ticket_def)
qed

context redis_laws
begin

lemmas ticket_consume_once = tk.consume_once and ticket_store_replaces = tk.store_replaces
  and ticket_consume_spec = tk.consume_spec

text \<open>Once no ticket is pending every further attempt is refused.\<close>

lemma consume_all_none:
  "consume_all R c cl ip js r = Some (bs, r') \<Longrightarrow> pending_ticket ks r cl ip = None \<Longrightarrow>
     bs = replicate (length js) False"
proof (induction js arbitrary: r bs)
  case (Cons j js)
  then obtain b r1 bs' where 1: "ValidateAndConsume R c cl ip j r = (Inr b, r1)"
    and 2: "consume_all R c cl ip js r1 = Some (bs', r')" and bs: "bs = b # bs'"
    by (auto split: prod.splits sum.splits)
  from tk.consume_spec [OF 1] Cons.prems(2) have "\<not> b" "pending_ticket ks r1 cl ip = None" by auto
  with Cons.IH [OF 2] bs show ?case by simp
qed simp

lemma consume_all_first_hit:
  "consume_all R c cl ip js r = Some (bs, r') \<Longrightarrow> pending_ticket ks r cl ip = Some jti \<Longrightarrow>
     bs = first_hit jti js"
proof (induction js arbitrary: r bs)
  case (Cons j js)
  then obtain b r1 bs' where 1: "ValidateAndConsume R c cl ip j r = (Inr b, r1)"
    and 2: "consume_all R c cl ip js r1 = Some (bs', r')" and bs: "bs = b # bs'"
    by (auto split: prod.splits sum.splits)
  from tk.consume_spec [OF 1] Cons.prems(2)
  have b: "b \<longleftrightarrow> j = jti" "pending_ticket ks r1 cl ip = (if b then None else Some jti)" by auto
  show ?case
    using Cons.IH [OF 2] consume_all_none [OF 2] b bs by (cases "j = jti") auto
qed simp

end

lemma first_hit_once: "count_list (first_hit j js) True \<le> 1"
proof (induction js)
  case (Cons x js)
  have "count_list (replicate n False) True = 0" for n by (induction n) auto
  with Cons show ?case by simp
qed simp

section \<open>Properties\<close>

text \<open>
  C2: Single use. After a ticket has been stored, over any sequence of attempts to consume it (with
  any identifiers) exactly the first attempt that names the stored identifier is accepted, all
  others are refused: at most one attempt succeeds.
\<close>

theorem ticket_single_use:
  assumes "redis_laws R ks up" and "Store R c cl ip jti d r = (None, r1)"
    and "consume_all R c' cl ip js r1 = Some (bs, r2)"
  shows "bs = first_hit jti js \<and> count_list bs True \<le> 1"
proof -
  from redis_laws.Store_effect [OF assms(1,2)] have "pending_ticket ks r1 cl ip = Some jti"
    by (auto simp: pending_ticket_def)
  from redis_laws.consume_all_first_hit [OF assms(1,3) this] show ?thesis
    using first_hit_once by metis
qed

text \<open>A server with the ticket \<open>j1\<close> of client \<open>u1\<close> at \<open>1.2.3.4\<close> pending.\<close>

definition mem_ticket :: mem where
  "mem_ticket = mput (ticketKey ''u1'' ''1.2.3.4'') (RStr ''j1'', Some (300 * second)) mem0"

lemma Store_mem_ticket:
  "Store mem_redis ReqCtx ''u1'' ''1.2.3.4'' ''j1'' (300 * second) mem0 = (None, mem_ticket)"
  by (simp add: Store_def mem_ops key_defs mem_ticket_def second_def)

theorem ticket_single_use_witness:
  "\<exists>r. consume_all mem_redis ReqCtx ''u1'' ''1.2.3.4'' [''j0'', ''j1'', ''j1''] mem_ticket
     = Some ([False, True, False], r)"
proof -
  obtain bs r where c: "consume_all mem_redis ReqCtx ''u1'' ''1.2.3.4'' [''j0'', ''j1'', ''j1''] mem_ticket
     = Some (bs, r)"
    by (simp add: store_defs mem_ops key_defs mem_ticket_def)
  from ticket_single_use [OF mr.redis_laws_axioms Store_mem_ticket c] c show ?thesis by simp
qed

text \<open>
  A stored ticket lives exactly as long as its time to live: the attempt that names it is
  accepted before the time to live has run out and refused afterwards, on a Redis that answers.
\<close>

theorem ticket_expires:
  assumes "redis_time R ks up tick" and "Store R c cl ip jti d r = (None, r1)"
    and "0 < d" and "millisecond dvd d" and "0 \<le> e" and "up c' (tick e r1)"
  shows "fst (ValidateAndConsume R c' cl ip jti (tick e r1)) = Inr (e < d)"
proof -
  note laws = redis_time.axioms(1) [OF assms(1)]
  let ?k = "ticketKey cl ip"
  have k1: "ks r1 ?k = Some (RStr jti, Some d)"
    using redis_laws.Store_effect [OF laws assms(2)] assms(3,4) by auto
  then have k2: "ks (tick e r1) ?k = (if e < d then Some (RStr jti, Some (d - e)) else None)"
    using redis_time.tick_ks [OF assms(1,5)] by (simp add: expire_keys_def)
  then have "str_or_none (ks (tick e r1) ?k)" by simp
  from redis_laws.ValidateAndConsume_up [OF laws assms(6) this, of jti]
  obtain b r2 where v: "ValidateAndConsume R c' cl ip jti (tick e r1) = (Inr b, r2)" by blast
  from redis_laws.consume_effect [OF laws v] v k2 show ?thesis
    by (simp add: pending_ticket_def)
qed

theorem ticket_expires_witness:
  "fst (ValidateAndConsume mem_redis ReqCtx ''u1'' ''1.2.3.4'' ''j1'' (mtick (299 * second) mem_ticket)) = Inr True
   \<and> fst (ValidateAndConsume mem_redis ReqCtx ''u1'' ''1.2.3.4'' ''j1'' (mtick (300 * second) mem_ticket)) = Inr False"
proof -
  have u: "mup ReqCtx (mtick d mem_ticket)" for d by (simp add: mup_def mem_ticket_def mem0_def)
  from ticket_expires [OF mr.redis_time_axioms Store_mem_ticket _ _ _ u, of "299 * second"]
    ticket_expires [OF mr.redis_time_axioms Store_mem_ticket _ _ _ u, of "300 * second"]
  show ?thesis by (simp add: second_def millisecond_def)
qed

end
