(* ===== verification/Connection_Store.thy ===== *)
theory Connection_Store
  imports Redis_Mem Keys
begin

text \<open>
  The registry of active streams (\<open>internal/repository/connection.go\<close> and
  \<open>scripts/delete_if_owner.lua\<close>): one key per client and address that holds the identifier of the
  server instance serving the stream. The interface \<open>ConnectionStore\<close> is the locale
  \<open>connection_store\<close>. \<open>CleanupInstance\<close> is a loop over \<open>SCAN\<close> and is modelled by a partial function.
\<close>

section \<open>Operations\<close>

record connectionStore =
  instanceID :: string

definition NewConnectionStore :: "string \<Rightarrow> connectionStore" where
  "NewConnectionStore inst = \<lparr>instanceID = inst\<rparr>"

definition Conn_Register ::
  "'r redis \<Rightarrow> connectionStore \<Rightarrow> go_context \<Rightarrow> string \<Rightarrow> string \<Rightarrow> duration \<Rightarrow> ('r, bool) rcmd" where
  [store_defs]: "Conn_Register R s c clientID ip ttl r =
     (case rSetNX R c (connKey clientID ip) (instanceID s) ttl r of
        (Inl e, r') \<Rightarrow> if \<not> errors_Is_Nil e then (Inl (Wrap ''failed to register connection'' e), r')
                       else (Inr ([] = ''OK''), r')
      | (Inr result, r') \<Rightarrow> (Inr (result = ''OK''), r'))"

definition Refresh ::
  "'r redis \<Rightarrow> go_context \<Rightarrow> string \<Rightarrow> string \<Rightarrow> duration \<Rightarrow> 'r \<Rightarrow> go_error option \<times> 'r" where
  [store_defs]: "Refresh R c clientID ip ttl r = apfst cmd_err (rExpire R c (connKey clientID ip) ttl r)"

definition Delete ::
  "'r redis \<Rightarrow> go_context \<Rightarrow> string \<Rightarrow> string \<Rightarrow> 'r \<Rightarrow> go_error option \<times> 'r" where
  [store_defs]: "Delete R c clientID ip r = apfst cmd_err (rDel R c (connKey clientID ip) r)"

definition delete_if_owner :: "'r redis \<Rightarrow> go_context \<Rightarrow> string \<Rightarrow> string \<Rightarrow> ('r, int) rcmd" where
  [store_defs]: "delete_if_owner R c key owner r =
     (case rGet R c key r of
        (Inl e, r1) \<Rightarrow> if e = RedisNil then (Inr 0, r1) else (Inl e, r1)
      | (Inr v, r1) \<Rightarrow> if v = owner then rDel R c key r1 else (Inr 0, r1))"

definition DeleteWithValue ::
  "'r redis \<Rightarrow> connectionStore \<Rightarrow> go_context \<Rightarrow> string \<Rightarrow> string \<Rightarrow> 'r \<Rightarrow> go_error option \<times> 'r" where
  [store_defs]: "DeleteWithValue R s c clientID ip r =
     (case delete_if_owner R c (connKey clientID ip) (instanceID s) r of
        (Inl e, r') \<Rightarrow> if \<not> errors_Is_Nil e then (Some (Wrap ''delete_if_owner script error'' e), r')
                       else (None, r')
      | (Inr _, r') \<Rightarrow> (None, r'))"

text \<open>The body of the cleanup loop: a key that cannot be read is skipped, a failed delete is logged.\<close>

fun cleanup_keys :: "'r redis \<Rightarrow> connectionStore \<Rightarrow> go_context \<Rightarrow> string list \<Rightarrow> 'r \<Rightarrow> 'r" where
  "cleanup_keys R s c [] r = r"
| "cleanup_keys R s c (key # keys) r =
     (case rGet R c key r of
        (Inl _, r1) \<Rightarrow> cleanup_keys R s c keys r1
      | (Inr val, r1) \<Rightarrow>
          if val = instanceID s then cleanup_keys R s c keys (snd (rDel R c key r1))
          else cleanup_keys R s c keys r1)"

partial_function (option) cleanup_loop ::
  "'r redis \<Rightarrow> connectionStore \<Rightarrow> go_context \<Rightarrow> nat \<Rightarrow> 'r \<Rightarrow> 'r option" where
  "cleanup_loop R s c cursor r =
     (case rScan R c cursor ''scorpion:conn:*'' 100 r of
        (Inl _, r1) \<Rightarrow> Some r1
      | (Inr (keys, nextCursor), r1) \<Rightarrow>
          (let r2 = cleanup_keys R s c keys r1
           in if nextCursor = 0 then Some r2 else cleanup_loop R s c nextCursor r2))"

definition CleanupInstance :: "'r redis \<Rightarrow> connectionStore \<Rightarrow> go_context \<Rightarrow> 'r \<Rightarrow> 'r option" where
  "CleanupInstance R s c r = cleanup_loop R s c 0 r"

text \<open>Registrations of one slot by several instances, one after the other; who was admitted.\<close>

fun register_all ::
  "'r redis \<Rightarrow> go_context \<Rightarrow> string \<Rightarrow> string \<Rightarrow> duration \<Rightarrow> connectionStore list \<Rightarrow> 'r \<Rightarrow> (bool list \<times> 'r) option" where
  "register_all R c cl ip d [] r = Some ([], r)"
| "register_all R c cl ip d (s # ss) r =
     (case Conn_Register R s c cl ip d r of
        (Inl _, _) \<Rightarrow> None
      | (Inr b, r') \<Rightarrow> map_option (apfst ((#) b)) (register_all R c cl ip d ss r'))"

section \<open>The interface\<close>

text \<open>
  \<open>owner w cl ip\<close> is the instance that holds the slot. Registering succeeds exactly when the slot
  is free; a conditional delete frees the slot only for its owner, an unconditional one always.
\<close>

locale connection_store =
  fixes register :: "connectionStore \<Rightarrow> go_context \<Rightarrow> string \<Rightarrow> string \<Rightarrow> duration \<Rightarrow> 'w \<Rightarrow> (go_error + bool) \<times> 'w"
    and delete :: "go_context \<Rightarrow> string \<Rightarrow> string \<Rightarrow> 'w \<Rightarrow> go_error option \<times> 'w"
    and delete_owned :: "connectionStore \<Rightarrow> go_context \<Rightarrow> string \<Rightarrow> string \<Rightarrow> 'w \<Rightarrow> go_error option \<times> 'w"
    and taken :: "'w \<Rightarrow> string \<Rightarrow> string \<Rightarrow> bool"
    and owner :: "'w \<Rightarrow> string \<Rightarrow> string \<Rightarrow> string option"
  assumes owner_taken: "owner w cl ip = Some i \<Longrightarrow> taken w cl ip"
    and register_spec: "register s c cl ip d w = (Inr b, w') \<Longrightarrow> (b \<longleftrightarrow> \<not> taken w cl ip)
      \<and> owner w' cl ip = (if b then Some (instanceID s) else owner w cl ip) \<and> taken w' cl ip"
    and delete_spec: "delete c cl ip w = (None, w') \<Longrightarrow> \<not> taken w' cl ip"
    and delete_owned_spec: "delete_owned s c cl ip w = (None, w') \<Longrightarrow>
      owner w' cl ip = (if owner w cl ip = Some (instanceID s) then None else owner w cl ip)"
begin

lemma second_register_refused:
  assumes "register s c cl ip d w = (Inr b, w')" and "register s' c' cl ip d' w' = (Inr b', w'')"
  shows "\<not> b'"
  using register_spec [OF assms(1)] register_spec [OF assms(2)] by simp

lemma register_after_delete:
  assumes "delete c cl ip w = (None, w')" and "register s' c' cl ip d' w' = (Inr b, w'')"
  shows "b \<and> owner w'' cl ip = Some (instanceID s')"
  using delete_spec [OF assms(1)] register_spec [OF assms(2)] by simp

end

section \<open>The Redis-backed registry\<close>

definition conn_taken :: "('r \<Rightarrow> keyspace) \<Rightarrow> 'r \<Rightarrow> string \<Rightarrow> string \<Rightarrow> bool" where
  "conn_taken ks r clientID ip \<longleftrightarrow> ks r (connKey clientID ip) \<noteq> None"

definition conn_owner :: "('r \<Rightarrow> keyspace) \<Rightarrow> 'r \<Rightarrow> string \<Rightarrow> string \<Rightarrow> string option" where
  "conn_owner ks r clientID ip = str_at (ks r (connKey clientID ip))"

lemma apfst_cmd_err_None: "apfst cmd_err p = (None, r') \<longleftrightarrow> (\<exists>v. p = (Inr v, r'))"
  by (cases p) auto

context redis_laws
begin

lemma Conn_Register_effect:
  assumes "Conn_Register R s c cl ip d r = (Inr b, r')"
  shows "(b \<longleftrightarrow> ks r (connKey cl ip) = None) \<and> (if b then
      (\<exists>t. ks r' = (ks r)(connKey cl ip \<mapsto> (RStr (instanceID s), t))
         \<and> (0 < d \<longrightarrow> millisecond dvd d \<longrightarrow> t = Some d)) else ks r' = ks r)"
proof (cases "rSetNX R c (connKey cl ip) (instanceID s) d r")
  case (Pair x r1)
  show ?thesis
  proof (cases x)
    case (Inl e)
    with assms Pair have "errors_Is_Nil e" "\<not> b" "r' = r1"
      by (auto simp: Conn_Register_def split: if_splits)
    with setnx_nil [OF Pair [unfolded Inl]] show ?thesis by simp
  next
    case (Inr a)
    from setnx_ok [OF Pair [unfolded Inr]] assms Pair Inr show ?thesis
      by (auto simp: Conn_Register_def)
  qed
qed

lemma Conn_Register_up:
  assumes "up c r" and "0 \<le> d"
  shows "\<exists>b r'. Conn_Register R s c cl ip d r = (Inr b, r') \<and> up c r'"
proof -
  obtain x r1 where p: "rSetNX R c (connKey cl ip) (instanceID s) d r = (x, r1)" by force
  have "up c r1" using up_stable [OF assms(1)] p by (metis snd_conv)
  with p setnx_up [OF assms] show ?thesis by (cases x) (auto simp: Conn_Register_def)
qed

lemma Delete_effect: "Delete R c cl ip r = (None, r') \<Longrightarrow> ks r' = (ks r)(connKey cl ip := None)"
  using del_ok by (auto simp: Delete_def apfst_cmd_err_None)

lemma delete_if_owner_effect:
  assumes "delete_if_owner R c k i r = (Inr n, r')"
  shows "ks r' = (if str_at (ks r k) = Some i then (ks r)(k := None) else ks r)"
proof (cases "rGet R c k r")
  case (Pair x r1)
  show ?thesis
  proof (cases x)
    case (Inl e)
    with assms Pair have "e = RedisNil" "r' = r1" by (auto simp: delete_if_owner_def split: if_splits)
    with get_nil Pair Inl show ?thesis by fastforce
  next
    case (Inr v)
    note g = get_ok [OF Pair [unfolded Inr]]
    show ?thesis
    proof (cases "v = i")
      case True
      with assms Pair Inr have "rDel R c k r1 = (Inr n, r')" by (simp add: delete_if_owner_def)
      from del_ok [OF this] g True show ?thesis by simp
    next
      case False
      with assms Pair Inr g show ?thesis by (simp add: delete_if_owner_def)
    qed
  qed
qed

lemma DeleteWithValue_effect:
  assumes "DeleteWithValue R s c cl ip r = (None, r')"
  shows "ks r' = (if conn_owner ks r cl ip = Some (instanceID s)
                  then (ks r)(connKey cl ip := None) else ks r)"
proof -
  let ?k = "connKey cl ip"
  obtain x where x: "delete_if_owner R c ?k (instanceID s) r = (x, r')"
    and ok: "\<forall>e. x = Inl e \<longrightarrow> errors_Is_Nil e"
    using assms by (auto simp: DeleteWithValue_def split: prod.splits sum.splits if_splits)
  show ?thesis
  proof (cases x)
    case (Inl e)
    with x ok have False
      using never_nil get_plain_nil by (auto simp: delete_if_owner_def split: prod.splits sum.splits if_splits)
    then show ?thesis ..
  next
    case (Inr n)
    with x delete_if_owner_effect show ?thesis by (auto simp: conn_owner_def)
  qed
qed

lemma Refresh_effect:
  assumes "Refresh R c cl ip d r = (None, r')" and "0 < d"
  shows "\<exists>t. ks r' = (ks r)(connKey cl ip := map_option (\<lambda>(v, _). (v, Some t)) (ks r (connKey cl ip)))
    \<and> (second dvd d \<longrightarrow> t = d)"
  using assms expire_ok by (fastforce simp: Refresh_def apfst_cmd_err_None)

end

sublocale redis_laws \<subseteq> cs: connection_store "Conn_Register R" "Delete R" "DeleteWithValue R"
  "conn_taken ks" "conn_owner ks"
proof unfold_locales
  fix r cl ip i
  assume "conn_owner ks r cl ip = Some i"
  then show "conn_taken ks r cl ip" by (cases "ks r (connKey cl ip)") (auto simp: conn_owner_def conn_taken_def)
next
  fix s c cl ip d r b r'
  assume "Conn_Register R s c cl ip d r = (Inr b, r')"
  from Conn_Register_effect [OF this] show "(b \<longleftrightarrow> \<not> conn_taken ks r cl ip)
      \<and> conn_owner ks r' cl ip = (if b then Some (instanceID s) else conn_owner ks r cl ip)
      \<and> conn_taken ks r' cl ip"
    by (auto simp: conn_taken_def conn_owner_def split: if_splits)
next
  fix c cl ip r r'
  assume "Delete R c cl ip r = (None, r')"
  then show "\<not> conn_taken ks r' cl ip" by (simp add: Delete_effect conn_taken_def)
next
  fix s c cl ip r r'
  assume "DeleteWithValue R s c cl ip r = (None, r')"
  from DeleteWithValue_effect [OF this] show "conn_owner ks r' cl ip =
      (if conn_owner ks r cl ip = Some (instanceID s) then None else conn_owner ks r cl ip)"
    by (simp add: conn_owner_def)
qed

context redis_laws
begin

lemmas conn_register_spec = cs.register_spec and conn_second_refused = cs.second_register_refused
  and conn_register_after_delete = cs.register_after_delete

lemma register_all_taken:
  "register_all R c cl ip d ss r = Some (bs, r') \<Longrightarrow> conn_taken ks r cl ip \<Longrightarrow>
     bs = replicate (length ss) False \<and> conn_owner ks r' cl ip = conn_owner ks r cl ip"
proof (induction ss arbitrary: r bs)
  case (Cons s ss)
  then obtain b r1 bs' where 1: "Conn_Register R s c cl ip d r = (Inr b, r1)"
    and 2: "register_all R c cl ip d ss r1 = Some (bs', r')" and bs: "bs = b # bs'"
    by (auto split: prod.splits sum.splits)
  from cs.register_spec [OF 1] Cons.prems(2)
  have "\<not> b" "conn_owner ks r1 cl ip = conn_owner ks r cl ip" "conn_taken ks r1 cl ip" by auto
  with Cons.IH [OF 2] bs show ?case by simp
qed simp

end

section \<open>Cleaning up after an instance\<close>

text \<open>The key space after the keys in \<open>keys\<close> that hold the value \<open>i\<close> have been deleted.\<close>

definition without_owned :: "string \<Rightarrow> string set \<Rightarrow> keyspace \<Rightarrow> keyspace" where
  "without_owned i keys m k = (if k \<in> keys \<and> str_at (m k) = Some i then None else m k)"

lemma without_owned_again:
  "without_owned i B (without_owned i A m) = without_owned i (A \<union> B) m"
  by (auto simp: without_owned_def fun_eq_iff)

context redis_scan
begin

lemma cleanup_keys_effect:
  "up c r \<Longrightarrow> \<forall>k \<in> set keys. str_or_none (ks r k) \<Longrightarrow>
     ks (cleanup_keys R s c keys r) = without_owned (instanceID s) (set keys) (ks r)
     \<and> up c (cleanup_keys R s c keys r)"
proof (induction keys arbitrary: r)
  case Nil
  then show ?case by (simp add: without_owned_def fun_eq_iff)
next
  case (Cons k keys)
  obtain x r1 where g: "rGet R c k r = (x, r1)" by force
  from get_cases [OF Cons.prems(1) _ g] Cons.prems(2)
  have x: "x = (case str_at (ks r k) of None \<Rightarrow> Inl RedisNil | Some v \<Rightarrow> Inr v)"
    and r1: "ks r1 = ks r" "up c r1" by auto
  let ?r2 = "snd (rDel R c k r1)"
  have d: "ks ?r2 = (ks r)(k := None)" "up c ?r2"
    using del_up [OF r1(2)] del_ok r1 up_stable [OF r1(2), of c k]
    by (cases "rDel R c k r1"; cases "fst (rDel R c k r1)"; fastforce)+
  show ?case
    using Cons.IH [OF r1(2)] Cons.IH [OF d(2)] Cons.prems(2) d(1) r1(1) g x
    by (cases "str_at (ks r k)") (auto simp: without_owned_def fun_eq_iff)
qed

lemma cleanup_loop_effect:
  "up c r \<Longrightarrow> \<forall>k. glob ''scorpion:conn:*'' k \<longrightarrow> str_or_none (ks r k) \<Longrightarrow>
   \<exists>r' A. cleanup_loop R s c cur r = Some r' \<and> ks r' = without_owned (instanceID s) A (ks r)
     \<and> A \<subseteq> {k. glob ''scorpion:conn:*'' k}
     \<and> {k. ks r k \<noteq> None \<and> glob ''scorpion:conn:*'' k \<and> k \<in> todo cur} \<subseteq> A"
proof (induction "left cur" arbitrary: cur r rule: less_induct)
  case less
  obtain x r1 where sc: "rScan R c cur ''scorpion:conn:*'' 100 r = (x, r1)" by force
  with scan_up [OF less.prems(1)] obtain keys nxt where x: "x = Inr (keys, nxt)" by (cases x) auto
  note ok = scan_ok [OF sc [unfolded x]]
  have u1: "up c r1" using up_stable [OF less.prems(1)] sc by (metis snd_conv)
  let ?r2 = "cleanup_keys R s c keys r1"
  have "\<forall>k \<in> set keys. str_or_none (ks r1 k)" using ok less.prems(2) by auto
  note r2 = cleanup_keys_effect [OF u1 this, of s]
  show ?case
  proof (cases "nxt = 0")
    case True
    then have "cleanup_loop R s c cur r = Some ?r2"
      using sc x by (subst cleanup_loop.simps) simp
    with r2 ok True show ?thesis by (intro exI [of _ ?r2] exI [of _ "set keys"]) auto
  next
    case False
    have "\<forall>k. glob ''scorpion:conn:*'' k \<longrightarrow> str_or_none (ks ?r2 k)"
      using r2 ok less.prems(2) by (simp add: without_owned_def)
    from less.hyps [OF _ _ this, of nxt] ok r2 False obtain r' A
      where 1: "cleanup_loop R s c nxt ?r2 = Some r'"
        and 2: "ks r' = without_owned (instanceID s) A (ks ?r2)"
        and 3: "A \<subseteq> {k. glob ''scorpion:conn:*'' k}"
        and 4: "{k. ks ?r2 k \<noteq> None \<and> glob ''scorpion:conn:*'' k \<and> k \<in> todo nxt} \<subseteq> A" by blast
    have "cleanup_loop R s c cur r = Some r'"
      using sc x 1 False by (subst cleanup_loop.simps) simp
    moreover have "ks r' = without_owned (instanceID s)
        (set keys \<union> A \<union> {k. ks ?r2 k = None \<and> ks r k \<noteq> None \<and> glob ''scorpion:conn:*'' k}) (ks r)"
      using 2 r2 ok by (auto simp: without_owned_def fun_eq_iff split: if_splits)
    moreover have "{k. ks r k \<noteq> None \<and> glob ''scorpion:conn:*'' k \<and> k \<in> todo cur}
        \<subseteq> set keys \<union> A \<union> {k. ks ?r2 k = None \<and> ks r k \<noteq> None \<and> glob ''scorpion:conn:*'' k}"
      using 4 ok by blast
    moreover have "set keys \<union> A \<union> {k. ks ?r2 k = None \<and> ks r k \<noteq> None \<and> glob ''scorpion:conn:*'' k}
        \<subseteq> {k. glob ''scorpion:conn:*'' k}"
      using 3 ok by blast
    ultimately show ?thesis by blast
  qed
qed

lemma CleanupInstance_effect:
  assumes "up c r" and "\<forall>k. prefix ''scorpion:conn:'' k \<longrightarrow> str_or_none (ks r k)"
  shows "\<exists>r'. CleanupInstance R s c r = Some r'
    \<and> ks r' = without_owned (instanceID s) {k. prefix ''scorpion:conn:'' k} (ks r)"
proof -
  have g: "glob ''scorpion:conn:*'' k \<longleftrightarrow> prefix ''scorpion:conn:'' k" for k by (simp add: glob_def)
  from cleanup_loop_effect [OF assms(1), of s 0] assms(2) obtain r' A
    where "cleanup_loop R s c 0 r = Some r'" "ks r' = without_owned (instanceID s) A (ks r)"
      "A \<subseteq> {k. prefix ''scorpion:conn:'' k}" "{k. ks r k \<noteq> None \<and> prefix ''scorpion:conn:'' k} \<subseteq> A"
    by (auto simp: g todo_start)
  then show ?thesis
    by (intro exI [of _ r']) (force simp: CleanupInstance_def without_owned_def fun_eq_iff)
qed

end

section \<open>Properties\<close>

text \<open>
  One stream per client and address. Of any number of instances (or requests) that register
  the same free slot one after the other, exactly the first is admitted and becomes the owner; all
  later ones are refused and the owner does not change.
\<close>

theorem register_admits_one:
  assumes "redis_laws R ks up" and "\<not> conn_taken ks r cl ip"
    and "register_all R c cl ip d (s # ss) r = Some (bs, r')"
  shows "bs = True # replicate (length ss) False \<and> conn_owner ks r' cl ip = Some (instanceID s)"
proof -
  obtain b r1 bs' where 1: "Conn_Register R s c cl ip d r = (Inr b, r1)"
    and 2: "register_all R c cl ip d ss r1 = Some (bs', r')" and bs: "bs = b # bs'"
    using assms(3) by (auto split: prod.splits sum.splits)
  note spec = redis_laws.conn_register_spec [OF assms(1) 1]
  with redis_laws.register_all_taken [OF assms(1) 2] assms(2) bs show ?thesis by simp
qed

theorem register_admits_one_witness:
  "\<exists>r. register_all mem_redis ReqCtx ''u1'' ''1.2.3.4'' (60 * second)
         [NewConnectionStore ''A'', NewConnectionStore ''B'', NewConnectionStore ''A''] mem0
       = Some ([True, False, False], r) \<and> conn_owner mks r ''u1'' ''1.2.3.4'' = Some ''A''"
proof -
  have free: "\<not> conn_taken mks mem0 ''u1'' ''1.2.3.4''" by (simp add: conn_taken_def mks_def mem0_def)
  obtain bs r where c: "register_all mem_redis ReqCtx ''u1'' ''1.2.3.4'' (60 * second)
         [NewConnectionStore ''A'', NewConnectionStore ''B'', NewConnectionStore ''A''] mem0 = Some (bs, r)"
    by (simp add: store_defs mem_ops key_defs NewConnectionStore_def)
  from register_admits_one [OF mr.redis_laws_axioms free c] c show ?thesis
    by (simp add: NewConnectionStore_def)
qed

text \<open>
  \<open>DeleteWithValue\<close> never removes another instance's registration: it frees the slot only when
  this instance owns it, and leaves the key space unchanged otherwise.
\<close>

theorem conditional_delete_respects_owner:
  assumes "redis_laws R ks up" and "DeleteWithValue R s c cl ip r = (None, r')"
  shows "ks r' = (if conn_owner ks r cl ip = Some (instanceID s)
                  then (ks r)(connKey cl ip := None) else ks r)"
  by (rule redis_laws.DeleteWithValue_effect [OF assms])

definition mem_conn :: mem where
  "mem_conn = mput (connKey ''u1'' ''1.2.3.4'') (RStr ''B'', Some (60 * second)) mem0"

theorem conditional_delete_respects_owner_witness:
  "\<exists>r. DeleteWithValue mem_redis (NewConnectionStore ''A'') Background ''u1'' ''1.2.3.4'' mem_conn = (None, r)
     \<and> mks r = mks mem_conn"
proof -
  obtain r where d: "DeleteWithValue mem_redis (NewConnectionStore ''A'') Background ''u1'' ''1.2.3.4'' mem_conn
      = (None, r)"
    by (simp add: store_defs mem_redis_def mem_defs mup_def mem_conn_def mem0_def NewConnectionStore_def)
  from conditional_delete_respects_owner [OF mr.redis_laws_axioms d] d show ?thesis
    by (simp add: NewConnectionStore_def mem_conn_def conn_owner_def)
qed

text \<open>
  \<open>Delete\<close>, which the stream handler calls when a stream ends, removes the slot whoever owns it.
  After one instance's slot has expired and another has registered it, the first stream's close
  frees the second's slot, and a third registration is admitted while the second stream runs.
\<close>

theorem plain_delete_evicts_other_owner:
  assumes "redis_laws R ks up" and "Delete R c cl ip r = (None, r1)"
    and "Conn_Register R s c' cl ip d r1 = (Inr b, r2)"
  shows "b \<and> conn_owner ks r2 cl ip = Some (instanceID s)"
  by (rule redis_laws.conn_register_after_delete [OF assms])

theorem plain_delete_evicts_other_owner_witness:
  "\<exists>r1 r2. conn_owner mks mem_conn ''u1'' ''1.2.3.4'' = Some ''B''
     \<and> Delete mem_redis Background ''u1'' ''1.2.3.4'' mem_conn = (None, r1)
     \<and> Conn_Register mem_redis (NewConnectionStore ''C'') ReqCtx ''u1'' ''1.2.3.4'' (60 * second) r1 = (Inr True, r2)
     \<and> conn_owner mks r2 ''u1'' ''1.2.3.4'' = Some ''C''"
proof -
  obtain r1 where d: "Delete mem_redis Background ''u1'' ''1.2.3.4'' mem_conn = (None, r1)"
      and u: "mup ReqCtx r1"
    by (simp add: store_defs mem_redis_def mem_defs mup_def mem_conn_def mem0_def)
  obtain b r2 where g: "Conn_Register mem_redis (NewConnectionStore ''C'') ReqCtx ''u1'' ''1.2.3.4''
      (60 * second) r1 = (Inr b, r2)"
    using mr.Conn_Register_up [OF u, of "60 * second"] by (force simp: second_def)
  from plain_delete_evicts_other_owner [OF mr.redis_laws_axioms d g] d g show ?thesis
    by (intro exI [of _ r1] exI [of _ r2]) (simp add: conn_owner_def mem_conn_def NewConnectionStore_def)
qed

text \<open>
  The lease. Registered with a time to live of whole seconds, a slot stays with its owner as
  long as it is refreshed before it runs out: a refresh gives it the full time to live again and
  changes neither owner nor any other key, and without a refresh it is free once the time is up.
\<close>

theorem lease_refreshed_or_expires:
  assumes "redis_time R ks up tick" and "Conn_Register R s c cl ip d r = (Inr True, r1)"
    and "0 < d" and "second dvd d" and "0 \<le> e" and "0 \<le> e'"
    and "Refresh R c cl ip d (tick e r1) = (None, r2)"
  shows "(e < d \<longrightarrow> e' < d \<longrightarrow> conn_owner ks (tick e' r2) cl ip = Some (instanceID s))
    \<and> (d \<le> e \<longrightarrow> \<not> conn_taken ks (tick e r1) cl ip)"
proof -
  note laws = redis_time.axioms(1) [OF assms(1)]
  let ?k = "connKey cl ip"
  have "millisecond dvd d" using assms(4) by (auto simp: second_def millisecond_def dvd_def)
  then have 1: "ks r1 ?k = Some (RStr (instanceID s), Some d)"
    using redis_laws.Conn_Register_effect [OF laws assms(2)] assms(3) by auto
  then have 2: "ks (tick e r1) ?k = (if e < d then Some (RStr (instanceID s), Some (d - e)) else None)"
    using redis_time.tick_ks [OF assms(1,5)] by (simp add: expire_keys_def)
  from redis_laws.Refresh_effect [OF laws assms(7,3)] assms(4)
  have 3: "ks r2 ?k = map_option (\<lambda>(v, _). (v, Some d)) (ks (tick e r1) ?k)" by auto
  show ?thesis
    using 2 3 redis_time.tick_ks [OF assms(1,6), of r2]
    by (auto simp: conn_owner_def conn_taken_def expire_keys_def)
qed

theorem lease_refreshed_or_expires_witness:
  "\<exists>r1 r2. Conn_Register mem_redis (NewConnectionStore ''A'') ReqCtx ''u1'' ''1.2.3.4'' (60 * second) mem0 = (Inr True, r1)
     \<and> Refresh mem_redis ReqCtx ''u1'' ''1.2.3.4'' (60 * second) (mtick (59 * second) r1) = (None, r2)
     \<and> conn_owner mks (mtick (59 * second) r2) ''u1'' ''1.2.3.4'' = Some ''A''"
proof -
  obtain r1 where g: "Conn_Register mem_redis (NewConnectionStore ''A'') ReqCtx ''u1'' ''1.2.3.4''
      (60 * second) mem0 = (Inr True, r1)" and u: "mup ReqCtx (mtick (59 * second) r1)"
    by (simp add: store_defs mem_ops)
  obtain r2 where f: "Refresh mem_redis ReqCtx ''u1'' ''1.2.3.4'' (60 * second) (mtick (59 * second) r1) = (None, r2)"
    using mr.expire_up [OF u] by (cases "rExpire mem_redis ReqCtx (connKey ''u1'' ''1.2.3.4'') (60 * second) (mtick (59 * second) r1)";
      cases "fst (rExpire mem_redis ReqCtx (connKey ''u1'' ''1.2.3.4'') (60 * second) (mtick (59 * second) r1))")
      (auto simp: Refresh_def)
  from lease_refreshed_or_expires [OF mr.redis_time_axioms g _ _ _ _ f, of "59 * second"] g f show ?thesis
    by (simp add: second_def NewConnectionStore_def)
qed

text \<open>
  Shutdown cleanup terminates and is exact. On a Redis that answers, \<open>CleanupInstance\<close> returns
  after finitely many \<open>SCAN\<close> calls and has deleted exactly the connection keys that hold this
  instance's identifier; every other key, of this or any other store, is untouched.
\<close>

theorem cleanup_removes_exactly_own:
  assumes "redis_scan R ks up todo left" and "up c r"
    and "\<forall>k. prefix ''scorpion:conn:'' k \<longrightarrow> str_or_none (ks r k)"
  shows "\<exists>r'. CleanupInstance R s c r = Some r'
    \<and> ks r' = without_owned (instanceID s) {k. prefix ''scorpion:conn:'' k} (ks r)"
  by (rule redis_scan.CleanupInstance_effect [OF assms])

theorem cleanup_removes_exactly_own_witness:
  "\<exists>r'. CleanupInstance mem_redis (NewConnectionStore ''B'') Background mem_conn = Some r' \<and> mks r' = Map.empty"
proof -
  have "mup Background mem_conn" by (simp add: mup_def mem_conn_def mem0_def)
  moreover have "\<forall>k. prefix ''scorpion:conn:'' k \<longrightarrow> str_or_none (mks mem_conn k)"
    by (simp add: mem_conn_def mem0_def mks_def mput_def)
  ultimately obtain r' where r: "CleanupInstance mem_redis (NewConnectionStore ''B'') Background mem_conn = Some r'"
    "mks r' = without_owned (instanceID (NewConnectionStore ''B'')) {k. prefix ''scorpion:conn:'' k} (mks mem_conn)"
    using cleanup_removes_exactly_own [OF ms.redis_scan_axioms] by blast
  from r(2) have "mks r' = Map.empty"
    by (auto simp: fun_eq_iff without_owned_def mem_conn_def mem0_def mks_def mput_def NewConnectionStore_def key_defs)
  with r(1) show ?thesis by blast
qed

end
