(* ===== verification/Go_Time.thy ===== *)
theory Go_Time
  imports Prelude
begin

text \<open>
  What the program uses of the formatting of package \<open>time\<close>: \<open>Format(time.RFC3339Nano)\<close> of an instant in UTC. The calendar is the
  proleptic Gregorian one; \<open>read_RFC3339\<close> reads a text back, and every instant of the years 0 to 9999 is read back exactly.
\<close>

definition minute :: duration where "minute = 60 * second"

section \<open>The calendar\<close>

definition leap :: "int \<Rightarrow> bool" where
  "leap y \<longleftrightarrow> 4 dvd y \<and> (\<not> 100 dvd y \<or> 400 dvd y)"

definition year_length :: "int \<Rightarrow> int" where
  "year_length y = (if leap y then 366 else 365)"

text \<open>Days from 1 January of year 1 to 1 January of a year.\<close>

definition year_start :: "int \<Rightarrow> int" where
  "year_start y = 365 * (y - 1) + (y - 1) div 4 - (y - 1) div 100 + (y - 1) div 400"

definition month_lengths :: "int \<Rightarrow> int list" where
  "month_lengths y = [31, if leap y then 29 else 28, 31, 30, 31, 30, 31, 31, 30, 31, 30, 31]"

text \<open>The year of a day and the days before it in that year, by cycles of 400, 100, 4 and 1 years.\<close>

definition year_day :: "int \<Rightarrow> int \<times> int" where
  "year_day d =
     (let n400 = d div 146097; d1 = d mod 146097;
          n100 = min 3 (d1 div 36524); d2 = d1 - 36524 * n100;
          n4 = d2 div 1461; d3 = d2 mod 1461;
          n1 = min 3 (d3 div 365)
      in (400 * n400 + 100 * n100 + 4 * n4 + n1 + 1, d3 - 365 * n1))"

text \<open>The month and the day in it, counted from 0.\<close>

fun month_day :: "nat \<Rightarrow> int list \<Rightarrow> int \<Rightarrow> nat \<times> int" where
  "month_day m [] d = (m, d)"
| "month_day m (l # ls) d = (if d < l then (m, d) else month_day (Suc m) ls (d - l))"

lemma leap_parts:
  assumes "0 \<le> b" "b \<le> 3" "0 \<le> c" "c \<le> 24" "0 \<le> e" "e \<le> 3"
  shows "leap (400 * a + 100 * b + 4 * c + e + 1) \<longleftrightarrow> e = 3 \<and> (c < 24 \<or> b = 3)"
proof -
  let ?y = "400 * a + 100 * b + 4 * c + e + 1"
  have "?y = (100 * a + 25 * b + c) * 4 + (e + 1)" by simp
  then have 4: "4 dvd ?y \<longleftrightarrow> e = 3" using assms(5,6) by (simp only: dvd_add_right_iff [OF dvd_triv_right]) (auto dest: zdvd_imp_le)
  have "?y = (4 * a + b) * 100 + (4 * c + e + 1)" by simp
  then have 100: "100 dvd ?y \<longleftrightarrow> c = 24 \<and> e = 3" using assms(3-6) by (simp only: dvd_add_right_iff [OF dvd_triv_right]) (auto dest: zdvd_imp_le)
  have "?y = a * 400 + (100 * b + 4 * c + e + 1)" by simp
  then have 400: "400 dvd ?y \<longleftrightarrow> b = 3 \<and> c = 24 \<and> e = 3" using assms by (simp only: dvd_add_right_iff [OF dvd_triv_right]) (auto dest: zdvd_imp_le)
  show ?thesis using assms by (auto simp: leap_def 4 100 400)
qed

lemma year_start_parts:
  assumes "0 \<le> b" "b \<le> 3" "0 \<le> c" "c \<le> 24" "0 \<le> e" "e \<le> 3"
  shows "year_start (400 * a + 100 * b + 4 * c + e + 1) = 146097 * a + 36524 * b + 1461 * c + 365 * e"
proof -
  let ?y = "400 * a + 100 * b + 4 * c + e"
  have "?y div 4 = 100 * a + 25 * b + c" using assms by (intro int_div_pos_eq [where r = e]) simp_all
  moreover have "?y div 100 = 4 * a + b" using assms by (intro int_div_pos_eq [where r = "4 * c + e"]) simp_all
  moreover have "?y div 400 = a" using assms by (intro int_div_pos_eq [where r = "100 * b + 4 * c + e"]) simp_all
  ultimately show ?thesis by (simp add: year_start_def)
qed

lemma top_quotient:
  fixes d :: int
  assumes "0 \<le> d" and "0 < l" and "d \<le> (n + 1) * l" and "0 \<le> n"
  shows "0 \<le> min n (d div l)" and "min n (d div l) \<le> n" and "0 \<le> d - l * min n (d div l)"
    and "d - l * min n (d div l) \<le> l" and "min n (d div l) < n \<Longrightarrow> d - l * min n (d div l) < l"
    and "d < (n + 1) * l \<Longrightarrow> d - l * min n (d div l) < l"
proof -
  have d: "d = l * (d div l) + d mod l" "0 \<le> d mod l" "d mod l < l" "0 \<le> d div l" using assms(1,2) by (simp_all add: pos_imp_zdiv_nonneg_iff)
  show "0 \<le> min n (d div l)" "min n (d div l) \<le> n" using d(4) assms(4) by simp_all
  have "d - l * min n (d div l) = (if d div l \<le> n then d mod l else d - l * n)" by (simp add: min_def minus_mult_div_eq_mod)
  moreover have "l * n \<le> d" if "\<not> d div l \<le> n"
    using mult_left_mono [of n "d div l" l] that assms(2) d(1,2) by linarith
  moreover have "d - l * n \<le> l" "d < (n + 1) * l \<Longrightarrow> d - l * n < l" using assms(3) by (simp_all add: algebra_simps)
  ultimately show "0 \<le> d - l * min n (d div l)" "d - l * min n (d div l) \<le> l"
    "d < (n + 1) * l \<Longrightarrow> d - l * min n (d div l) < l" using d(2,3) by auto
  show "d - l * min n (d div l) < l" if "min n (d div l) < n" using d(3) that by (simp add: min_def minus_mult_div_eq_mod split: if_splits)
qed

lemma year_day_back:
  assumes "year_day d = (y, k)"
  shows "year_start y + k = d \<and> 0 \<le> k \<and> k < year_length y"
proof -
  define a where "a = d div 146097"
  define d1 where "d1 = d mod 146097"
  define b where "b = min 3 (d1 div 36524)"
  define d2 where "d2 = d1 - 36524 * b"
  define c where "c = d2 div 1461"
  define d3 where "d3 = d2 mod 1461"
  define e where "e = min 3 (d3 div 365)"
  have d: "d = 146097 * a + d1" "0 \<le> d1" "d1 < 146097" by (simp_all add: a_def d1_def)
  have b: "0 \<le> b" "b \<le> 3" "0 \<le> d2" "d2 \<le> 36524" "b < 3 \<Longrightarrow> d2 < 36524"
    using top_quotient [of d1 36524 3] d(2,3) by (simp_all add: b_def d2_def)
  have c: "d2 = 1461 * c + d3" "0 \<le> d3" "d3 < 1461" by (simp_all add: c_def d3_def)
  then have c: "d2 = 1461 * c + d3" "0 \<le> d3" "d3 < 1461" "0 \<le> c" "c \<le> 24" "b < 3 \<Longrightarrow> c = 24 \<Longrightarrow> d3 < 1460"
    using b(3-5) by linarith+
  have e: "0 \<le> e" "e \<le> 3" "0 \<le> d3 - 365 * e" "d3 - 365 * e \<le> 365" "e < 3 \<Longrightarrow> d3 - 365 * e < 365" "d3 < 1460 \<Longrightarrow> d3 - 365 * e < 365"
    using top_quotient [of d3 365 3] c(2,3) by (simp_all add: e_def)
  have y: "y = 400 * a + 100 * b + 4 * c + e + 1" "k = d3 - 365 * e"
    using assms [unfolded year_day_def Let_def, folded a_def d1_def, folded b_def, folded d2_def, folded c_def d3_def, folded e_def] by simp_all
  have "year_start y + k = d"
    using year_start_parts [OF b(1,2) c(4,5) e(1,2), of a] y d(1) c(1) by (simp add: d2_def)
  moreover have "k < 365" if "\<not> leap y"
  proof -
    have "\<not> (e = 3 \<and> (c < 24 \<or> b = 3))" using leap_parts [OF b(1,2) c(4,5) e(1,2), of a] y(1) that by simp
    then have "e < 3 \<or> b < 3 \<and> c = 24" using b(2) c(5) e(2) by linarith
    then have "e < 3 \<or> d3 < 1460" using c(6) by blast
    then show ?thesis using e(5,6) y(2) by blast
  qed
  then have "k < year_length y" using e(4) y(2) by (simp add: year_length_def)
  ultimately show ?thesis using y(2) e(3) by simp
qed

lemma month_day_back:
  assumes "month_day m ls d = (n, k)" and "0 \<le> d" and "d < sum_list ls"
  shows "m \<le> n \<and> n < m + length ls \<and> sum_list (take (n - m) ls) + k = d \<and> 0 \<le> k \<and> k < ls ! (n - m)"
  using assms
proof (induction m ls d rule: month_day.induct)
  case (2 m l ls d)
  show ?case
  proof (cases "d < l")
    case False
    with 2 have "Suc m \<le> n \<and> n < Suc m + length ls \<and> sum_list (take (n - Suc m) ls) + k = d - l \<and> 0 \<le> k \<and> k < ls ! (n - Suc m)"
      by simp
    moreover from this have "n - m = Suc (n - Suc m)" by linarith
    ultimately show ?thesis by auto
  qed (use 2 in simp)
qed simp

lemma sum_month_lengths: "sum_list (month_lengths y) = year_length y"
  by (simp add: month_lengths_def year_length_def)


section \<open>The text\<close>

text \<open>Days of the calendar before 1 January 1970.\<close>

definition epoch_day :: int where "epoch_day = 719162"

lemma epoch_day_start: "epoch_day = year_start 1970"
  by (simp add: epoch_day_def year_start_def)

definition pad :: "nat \<Rightarrow> nat \<Rightarrow> string" where
  "pad w n = (let s = nat_digits n in replicate (w - length s) (CHR ''0'') @ s)"

definition pad_int :: "nat \<Rightarrow> int \<Rightarrow> string" where
  "pad_int w i = (if i < 0 then CHR ''-'' # pad w (nat (- i)) else pad w (nat i))"

definition strip_zeros :: "string \<Rightarrow> string" where
  "strip_zeros s = rev (dropWhile (\<lambda>c. c = CHR ''0'') (rev s))"

definition fraction :: "nat \<Rightarrow> string" where
  "fraction n = (if n = 0 then [] else CHR ''.'' # strip_zeros (pad 9 n))"

definition RFC3339Nano :: "time \<Rightarrow> string" where
  "RFC3339Nano t =
     (let days = t div (24 * hour); ns = t mod (24 * hour);
          (y, k) = year_day (days + epoch_day); (m, d) = month_day 1 (month_lengths y) k
      in pad_int 4 y @ CHR ''-'' # pad 2 m @ CHR ''-'' # pad 2 (nat d + 1) @ CHR ''T'' #
         pad 2 (nat (ns div hour)) @ CHR '':'' # pad 2 (nat (ns div minute mod 60)) @ CHR '':'' #
         pad 2 (nat (ns div second mod 60)) @ fraction (nat (ns mod second)) @ ''Z'')"

text \<open>Reading the text back: fields of fixed width, then the fraction up to the zone.\<close>

definition read_fraction :: "string \<Rightarrow> nat" where
  "read_fraction s = (let ds = takeWhile is_digit (tl s) in digits_val (ds @ replicate (9 - length ds) (CHR ''0'')))"

definition read_RFC3339 :: "string \<Rightarrow> time" where
  "read_RFC3339 s =
     (let field = (\<lambda>i n. int (digits_val (take n (drop i s))));
          y = field 0 4; m = field 5 2; d = field 8 2
      in (year_start y + sum_list (take (nat m - 1) (month_lengths y)) + d - 1 - epoch_day) * (24 * hour)
         + field 11 2 * hour + field 14 2 * minute + field 17 2 * second + int (read_fraction (drop 19 s)))"

lemma digits_val_append: "digits_val (s @ t) = digits_val s * 10 ^ length t + digits_val t"
proof (induction t rule: rev_induct)
  case (snoc c t)
  have "digits_val ((s @ t) @ [c]) = 10 * digits_val (s @ t) + digit_val c" by (rule digits_val_snoc)
  with snoc show ?case by (simp add: digits_val_snoc algebra_simps)
qed (simp add: digits_val_def)

lemma digits_val_zeros [simp]: "digits_val (replicate n (CHR ''0'')) = 0"
  by (induction n) (simp_all add: digits_val_def digit_val_def)

lemma length_pad: "n < 10 ^ w \<Longrightarrow> 0 < w \<Longrightarrow> length (pad w n) = w"
  using nat_digits_length [of n w] by (simp add: pad_def Let_def)

lemma pad_value: "digits_val (pad w n) = n"
  using nat_digits_props [of n] by (simp add: pad_def Let_def digits_val_append)

lemma pad_digits: "list_all is_digit (pad w n)"
  using nat_digits_props [of n] by (auto simp: pad_def Let_def list_all_iff is_digit_def)

lemma strip_zeros_back: "\<exists>k. s = strip_zeros s @ replicate k (CHR ''0'')"
proof -
  let ?z = "\<lambda>c. c = CHR ''0''"
  have "takeWhile ?z (rev s) = replicate (length (takeWhile ?z (rev s))) (CHR ''0'')"
    by (rule replicate_eqI) (auto dest: set_takeWhileD)
  moreover have "s = strip_zeros s @ rev (takeWhile ?z (rev s))"
    by (simp add: strip_zeros_def flip: rev_append)
  ultimately show ?thesis by (metis rev_replicate)
qed

lemma read_fraction_back: "n < 10 ^ 9 \<Longrightarrow> read_fraction (fraction n @ ''Z'') = n"
proof -
  assume n: "n < 10 ^ 9"
  show ?thesis
  proof (cases "n = 0")
    case False
    obtain k where k: "pad 9 n = strip_zeros (pad 9 n) @ replicate k (CHR ''0'')" using strip_zeros_back by blast
    let ?s = "strip_zeros (pad 9 n)"
    have "list_all is_digit ?s" using pad_digits [of 9 n] k by (metis list_all_append)
    then have "takeWhile is_digit (?s @ ''Z'') = ?s"
      by (subst takeWhile_append2) (auto simp: list_all_iff is_digit_def)
    moreover have "9 - length ?s = k" using length_pad [OF n] arg_cong [OF k, of length] by simp
    ultimately show ?thesis using k pad_value [of 9 n] False
      by (simp add: read_fraction_def fraction_def Let_def)
  qed (simp add: read_fraction_def fraction_def)
qed

definition printable :: "time \<Rightarrow> bool" where
  "printable t \<longleftrightarrow> fst (year_day (t div (24 * hour) + epoch_day)) \<in> {0..9999}"

text \<open>The fields of a text with fields of these widths.\<close>

lemma read_fields:
  assumes "length ys = 4" "length ms = 2" "length ds = 2" "length hs = 2" "length ns = 2" "length ss = 2"
  shows "read_RFC3339 (ys @ CHR ''-'' # ms @ CHR ''-'' # ds @ CHR ''T'' # hs @ CHR '':'' # ns @ CHR '':'' # ss @ rest)
    = (year_start (int (digits_val ys)) + sum_list (take (digits_val ms - 1) (month_lengths (int (digits_val ys)))) + int (digits_val ds) - 1 - epoch_day) * (24 * hour)
      + int (digits_val hs) * hour + int (digits_val ns) * minute + int (digits_val ss) * second + int (read_fraction rest)"
  using assms by (simp add: read_RFC3339_def Let_def)

lemma clock_parts:
  assumes "0 \<le> ns" and "ns < 24 * hour"
  shows "ns div hour * hour + ns div minute mod 60 * minute + ns div second mod 60 * second + ns mod second = ns"
    and "0 \<le> ns div hour" "ns div hour < 100"
proof -
  have "ns div minute = ns div second div 60" "ns div hour = ns div second div 60 div 60"
    by (simp_all add: minute_def hour_def second_def zdiv_zmult2_eq [symmetric])
  moreover have "s div 60 div 60 * 3600 + s div 60 mod 60 * 60 + s mod 60 = s" for s :: int
    using div_mult_mod_eq [of "s div 60" 60] div_mult_mod_eq [of s 60] by linarith
  ultimately have "(ns div hour * 3600 + ns div minute mod 60 * 60 + ns div second mod 60) * second + ns mod second = ns"
    using div_mult_mod_eq [of ns second] by simp
  then show "ns div hour * hour + ns div minute mod 60 * minute + ns div second mod 60 * second + ns mod second = ns"
    by (simp add: hour_def minute_def algebra_simps)
  show "0 \<le> ns div hour" "ns div hour < 100" using assms by (simp_all add: hour_def second_def pos_imp_zdiv_nonneg_iff)
qed

theorem RFC3339_back:
  assumes "printable t"
  shows "read_RFC3339 (RFC3339Nano t) = t"
proof -
  let ?days = "t div (24 * hour)" and ?ns = "t mod (24 * hour)"
  obtain y k where y: "year_day (?days + epoch_day) = (y, k)" by force
  obtain m d where m: "month_day 1 (month_lengths y) k = (m, d)" by force
  note yd = year_day_back [OF y]
  then have md: "1 \<le> m" "m < 13" "sum_list (take (m - 1) (month_lengths y)) + d = k" "0 \<le> d" "d < month_lengths y ! (m - 1)"
    using month_day_back [OF m] by (simp_all add: sum_month_lengths, simp_all add: month_lengths_def)
  have "\<forall>l \<in> set (month_lengths y). l \<le> 31" by (simp add: month_lengths_def)
  then have d: "d < 31" using md(1,2,5) nth_mem [of "m - 1" "month_lengths y"] by (force simp: month_lengths_def)
  have h: "(0 :: int) < 24 * hour" by (simp add: hour_def second_def)
  note ns = pos_mod_sign [OF h, of t] pos_mod_bound [OF h, of t]
  note c = clock_parts [OF ns]
  have y4: "0 \<le> y" "y \<le> 9999" using assms y by (simp_all add: printable_def)
  have f: "read_fraction (fraction (nat (?ns mod second)) @ ''Z'') = nat (?ns mod second)"
    by (rule read_fraction_back) (simp add: second_def nat_less_iff)
  have s: "0 \<le> ?ns mod second" by (simp add: second_def)
  have "read_RFC3339 (RFC3339Nano t) = (year_start y + sum_list (take (m - 1) (month_lengths y)) + d - epoch_day) * (24 * hour)
      + (?ns div hour * hour + ?ns div minute mod 60 * minute + ?ns div second mod 60 * second + ?ns mod second)"
    using y4 md(1,2,4) d c(2,3) s unfolding RFC3339Nano_def Let_def y m prod.case
    by (subst read_fields) (simp_all add: length_pad pad_int_def pad_value f nat_less_iff)
  also have "\<dots> = (year_start y + k - epoch_day) * (24 * hour) + ?ns" using md(3) c(1) by simp
  also have "\<dots> = ?days * (24 * hour) + ?ns" using yd by simp
  finally show ?thesis by (simp only: div_mult_mod_eq)
qed

text \<open>Every instant a 64-bit count of nanoseconds can hold is printable.\<close>

lemma int64_printable:
  assumes "int64_range t"
  shows "printable t"
proof -
  obtain y k where y: "year_day (t div (24 * hour) + epoch_day) = (y, k)" by force
  have h: "(0 :: int) < 24 * hour" by (simp add: hour_def second_def)
  have "- 106752 \<le> t div (24 * hour)" "t div (24 * hour) \<le> 106751" using assms div_mult_mod_eq [of t "24 * hour"] h pos_mod_sign [OF h, of t] pos_mod_bound [OF h, of t]
    by (simp_all add: hour_def second_def, linarith+)
  then have d: "612410 \<le> year_start y + k" "year_start y + k \<le> 825913" "0 \<le> k" "k < 366"
    using year_day_back [OF y] by (auto simp: epoch_day_def year_length_def split: if_splits)
  define z p q r where z: "z = y - 1" and p: "p = z div 4" and q: "q = z div 100" and r: "r = z div 400"
  have s: "year_start y = 365 * z + p - q + r" by (simp add: year_start_def z p q r)
  have p: "4 * p \<le> z" "z < 4 * p + 4" and q: "100 * q \<le> z" "z < 100 * q + 100" and r: "400 * r \<le> z" "z < 400 * r + 400"
    by (simp_all add: p q r)
  have "- 1 \<le> z" using d(1,4) p(1) q(2) r(1) unfolding s by linarith
  moreover have "z \<le> 9998" using d(2,3) p(2) q(1) r(2) unfolding s by linarith
  ultimately have "0 \<le> y" "y \<le> 9999" by (simp_all add: z)
  then show ?thesis by (simp add: printable_def y)
qed

lemma RFC3339_example: "RFC3339Nano 1709210096050000000 = ''2024-02-29T12:34:56.05Z''"
proof -
  have "year_day 738944 = (2024, 59)" by (simp add: year_day_def)
  then show ?thesis
    by (simp add: RFC3339Nano_def hour_def minute_def second_def epoch_day_def)
      (simp add: month_lengths_def leap_def pad_def pad_int_def fraction_def strip_zeros_def nat_digits.simps digit_def char_of_eq_iff)
qed

end
