(* ===== verification/InFlight_Store.thy ===== *)
theory InFlight_Store
  imports Connection_Store Go_Time
begin

text \<open>
  The registry of delivered and acknowledged events (\<open>internal/repository/inflight.go\<close>). Per client
  and event it is a small state machine: unknown, delivered, acknowledged. The interface
  \<open>InFlightStore\<close> is the locale \<open>inflight_store\<close>; runs of the operations refine the state machine.
  A stored time stamp is the text of \<open>Go_Time\<close>, which names its instant exactly.
\<close>

section \<open>Operations\<close>

definition inFlightTTL :: duration where "inFlightTTL = 72 * hour"
definition ackedTTL :: duration where "ackedTTL = 72 * hour"

definition InFlight_Register ::
  "'r redis \<Rightarrow> go_context \<Rightarrow> string \<Rightarrow> string \<Rightarrow> time \<Rightarrow> 'r \<Rightarrow> go_error option \<times> 'r" where
  [store_defs]: "InFlight_Register R c clientID eventID deliveredAt r =
     apfst cmd_err (rSet R c (inFlightKey clientID eventID) (RFC3339Nano deliveredAt) inFlightTTL r)"

definition Validate :: "'r redis \<Rightarrow> go_context \<Rightarrow> string \<Rightarrow> string \<Rightarrow> ('r, bool \<times> bool) rcmd" where
  [store_defs]: "Validate R c clientID eventID r =
     (case rExists R c (ackedKey clientID eventID) r of
        (Inl e, r1) \<Rightarrow> (Inl (Wrap ''acked check error'' e), r1)
      | (Inr ackedExists, r1) \<Rightarrow>
          if 0 < ackedExists then (Inr (True, True), r1)
          else (case rExists R c (inFlightKey clientID eventID) r1 of
                  (Inl e, r2) \<Rightarrow> (Inl (Wrap ''inflight check error'' e), r2)
                | (Inr inFlightExists, r2) \<Rightarrow> (Inr (0 < inFlightExists, False), r2)))"

definition MarkAcked ::
  "'r redis \<Rightarrow> time \<Rightarrow> go_context \<Rightarrow> string \<Rightarrow> string \<Rightarrow> ('r, bool) rcmd" where
  [store_defs]: "MarkAcked R now c clientID eventID r =
     (let ifKey = inFlightKey clientID eventID;
          akKey = ackedKey clientID eventID;
          (x1, r1) = rSet R c akKey (RFC3339Nano now) ackedTTL r;
          (x2, r2) = rDel R c ifKey r1
      in case first_err [cmd_err x1, cmd_err x2] of
           Some e \<Rightarrow> (Inl (Wrap ''mark acked error'' e), r2)
         | None \<Rightarrow> (Inr True, r2))"

section \<open>The state machine\<close>

datatype phase = Unknown | Delivered | Acked

text \<open>The phases are ordered by how far an event has come.\<close>

fun rank :: "phase \<Rightarrow> nat" where
  "rank Unknown = 0" | "rank Delivered = 1" | "rank Acked = 2"

lemma rank_inject [simp]: "rank p = rank q \<longleftrightarrow> p = q"
  by (cases p; cases q) simp_all

instantiation phase :: linorder
begin

definition less_eq_phase :: "phase \<Rightarrow> phase \<Rightarrow> bool" where "p \<le> q \<longleftrightarrow> rank p \<le> rank q"

definition less_phase :: "phase \<Rightarrow> phase \<Rightarrow> bool" where "p < q \<longleftrightarrow> rank p < rank q"

instance
  by intro_classes (auto simp: less_eq_phase_def less_phase_def)

end

lemma phase_order [simp]: "Unknown \<le> p" "p \<le> Acked" "Acked \<le> p \<longleftrightarrow> p = Acked"
  by (cases p; simp add: less_eq_phase_def)+

datatype ack_op = OpRegister time | OpValidate | OpMark time

datatype ack_reply = RepRegistered | RepValid bool bool | RepMarked

fun phase_step :: "ack_op \<Rightarrow> phase \<Rightarrow> ack_reply \<times> phase" where
  "phase_step (OpRegister _) p = (RepRegistered, if p = Acked then Acked else Delivered)"
| "phase_step OpValidate p = (RepValid (p \<noteq> Unknown) (p = Acked), p)"
| "phase_step (OpMark _) p = (RepMarked, Acked)"

lemma phase_step_advances: "p \<le> snd (phase_step op p)"
  by (cases op; cases p) (simp_all add: less_eq_phase_def)

fun phase_run :: "ack_op list \<Rightarrow> phase \<Rightarrow> ack_reply list \<times> phase" where
  "phase_run [] p = ([], p)"
| "phase_run (op # ops) p =
     (let (x, p1) = phase_step op p; (xs, p2) = phase_run ops p1 in (x # xs, p2))"

text \<open>The same operations on the store; \<open>None\<close> once one of them has failed.\<close>

fun store_step ::
  "'r redis \<Rightarrow> go_context \<Rightarrow> string \<Rightarrow> string \<Rightarrow> ack_op \<Rightarrow> 'r \<Rightarrow> (ack_reply \<times> 'r) option" where
  "store_step R c cl ev (OpRegister t) r =
     (case InFlight_Register R c cl ev t r of (None, r') \<Rightarrow> Some (RepRegistered, r') | _ \<Rightarrow> None)"
| "store_step R c cl ev OpValidate r =
     (case Validate R c cl ev r of (Inr (f, a), r') \<Rightarrow> Some (RepValid f a, r') | _ \<Rightarrow> None)"
| "store_step R c cl ev (OpMark t) r =
     (case MarkAcked R t c cl ev r of (Inr True, r') \<Rightarrow> Some (RepMarked, r') | _ \<Rightarrow> None)"

fun store_run ::
  "'r redis \<Rightarrow> go_context \<Rightarrow> string \<Rightarrow> string \<Rightarrow> ack_op list \<Rightarrow> 'r \<Rightarrow> (ack_reply list \<times> 'r) option" where
  "store_run R c cl ev [] r = Some ([], r)"
| "store_run R c cl ev (op # ops) r =
     (case store_step R c cl ev op r of None \<Rightarrow> None
      | Some (x, r1) \<Rightarrow> map_option (apfst ((#) x)) (store_run R c cl ev ops r1))"

section \<open>The interface\<close>

locale inflight_store =
  fixes register :: "go_context \<Rightarrow> string \<Rightarrow> string \<Rightarrow> time \<Rightarrow> 'w \<Rightarrow> go_error option \<times> 'w"
    and validate :: "go_context \<Rightarrow> string \<Rightarrow> string \<Rightarrow> 'w \<Rightarrow> (go_error + bool \<times> bool) \<times> 'w"
    and mark :: "time \<Rightarrow> go_context \<Rightarrow> string \<Rightarrow> string \<Rightarrow> 'w \<Rightarrow> (go_error + bool) \<times> 'w"
    and phase :: "'w \<Rightarrow> string \<Rightarrow> string \<Rightarrow> phase"
  assumes register_spec: "register c cl ev t w = (None, w') \<Longrightarrow>
      phase w' cl ev = snd (phase_step (OpRegister t) (phase w cl ev))"
    and validate_spec: "validate c cl ev w = (Inr (f, a), w') \<Longrightarrow>
      RepValid f a = fst (phase_step OpValidate (phase w cl ev)) \<and> phase w' cl ev = phase w cl ev"
    and mark_spec: "mark t c cl ev w = (Inr b, w') \<Longrightarrow> b \<and> phase w' cl ev = Acked"
begin

lemma duplicate_detected:
  assumes "mark t c cl ev w = (Inr b, w1)" and "validate c' cl ev w1 = (Inr (f, a), w2)"
  shows "f \<and> a"
  using mark_spec [OF assms(1)] validate_spec [OF assms(2)] by simp

lemma delivered_is_found:
  assumes "register c cl ev t w = (None, w1)" and "phase w cl ev \<noteq> Acked"
    and "validate c' cl ev w1 = (Inr (f, a), w2)"
  shows "f \<and> \<not> a"
  using register_spec [OF assms(1)] assms(2) validate_spec [OF assms(3)] by simp

end

section \<open>The Redis-backed registry\<close>

definition phase_of :: "('r \<Rightarrow> keyspace) \<Rightarrow> 'r \<Rightarrow> string \<Rightarrow> string \<Rightarrow> phase" where
  "phase_of ks r clientID eventID =
     (if ks r (ackedKey clientID eventID) \<noteq> None then Acked
      else if ks r (inFlightKey clientID eventID) \<noteq> None then Delivered else Unknown)"

context redis_laws
begin

lemma InFlight_Register_effect:
  assumes "InFlight_Register R c cl ev t r = (None, r')"
  shows "\<exists>u. ks r' = (ks r)(inFlightKey cl ev \<mapsto> (RStr (RFC3339Nano t), u))"
  using assms set_ok by (fastforce simp: InFlight_Register_def apfst_cmd_err_None)

lemma Validate_effect:
  assumes "Validate R c cl ev r = (Inr (f, a), r')"
  shows "f = (phase_of ks r cl ev \<noteq> Unknown) \<and> a = (phase_of ks r cl ev = Acked) \<and> ks r' = ks r"
proof -
  obtain n r1 where 1: "rExists R c (ackedKey cl ev) r = (Inr n, r1)"
    using assms by (auto simp: Validate_def split: prod.splits sum.splits)
  show ?thesis
  proof (cases "0 < n")
    case True
    with assms 1 exists_ok [OF 1] show ?thesis by (auto simp: Validate_def phase_of_def split: if_splits)
  next
    case False
    with assms 1 obtain m where 2: "rExists R c (inFlightKey cl ev) r1 = (Inr m, r')"
      and "f = (0 < m)" "\<not> a"
      by (auto simp: Validate_def split: prod.splits sum.splits)
    with False exists_ok [OF 1] exists_ok [OF 2] show ?thesis
      by (auto simp: phase_of_def split: if_splits)
  qed
qed

lemma MarkAcked_effect:
  assumes "MarkAcked R t c cl ev r = (Inr b, r')"
  shows "b \<and> (\<exists>u. ks r' = (ks r)(ackedKey cl ev \<mapsto> (RStr (RFC3339Nano t), u), inFlightKey cl ev := None))"
proof -
  obtain x1 r1 x2 where 1: "rSet R c (ackedKey cl ev) (RFC3339Nano t) ackedTTL r = (x1, r1)"
    and 2: "rDel R c (inFlightKey cl ev) r1 = (x2, r')"
    and ok: "first_err [cmd_err x1, cmd_err x2] = None" and b
    using assms by (auto simp: MarkAcked_def Let_def split: prod.splits option.splits)
  from ok obtain v n where x: "x1 = Inr v" "x2 = Inr n" by (auto simp: first_err_None)
  from set_ok [OF 1 [unfolded x]] del_ok [OF 2 [unfolded x]] \<open>b\<close> show ?thesis by auto
qed

lemma phase_of_cong:
  "ks r' (ackedKey cl ev) = ks r (ackedKey cl ev) \<Longrightarrow> ks r' (inFlightKey cl ev) = ks r (inFlightKey cl ev) \<Longrightarrow>
     phase_of ks r' cl ev = phase_of ks r cl ev"
  by (simp add: phase_of_def)

end

sublocale redis_laws \<subseteq> fl: inflight_store "InFlight_Register R" "Validate R" "MarkAcked R" "phase_of ks"
proof unfold_locales
  fix c cl ev t r r'
  assume "InFlight_Register R c cl ev t r = (None, r')"
  from InFlight_Register_effect [OF this]
  show "phase_of ks r' cl ev = snd (phase_step (OpRegister t) (phase_of ks r cl ev))"
    by (auto simp: phase_of_def)
next
  fix c cl ev r f a r'
  assume "Validate R c cl ev r = (Inr (f, a), r')"
  from Validate_effect [OF this]
  show "RepValid f a = fst (phase_step OpValidate (phase_of ks r cl ev)) \<and> phase_of ks r' cl ev = phase_of ks r cl ev"
    by (simp add: phase_of_def)
next
  fix t c cl ev r b r'
  assume "MarkAcked R t c cl ev r = (Inr b, r')"
  from MarkAcked_effect [OF this] show "b \<and> phase_of ks r' cl ev = Acked" by (auto simp: phase_of_def)
qed

context redis_laws
begin

lemmas inflight_duplicate = fl.duplicate_detected and inflight_found = fl.delivered_is_found
  and inflight_mark_spec = fl.mark_spec

lemma store_step_refines:
  assumes "store_step R c cl ev op r = Some (x, r')"
  shows "phase_step op (phase_of ks r cl ev) = (x, phase_of ks r' cl ev)"
proof (cases op)
  case (OpRegister t)
  with assms fl.register_spec [of c cl ev t r r'] show ?thesis
    by (auto split: prod.splits option.splits)
next
  case OpValidate
  with assms fl.validate_spec [of c cl ev r] show ?thesis by (fastforce split: prod.splits sum.splits)
next
  case (OpMark t)
  with assms fl.mark_spec [of t c cl ev r] show ?thesis
    by (fastforce split: prod.splits sum.splits bool.splits)
qed

lemma store_run_refines:
  "store_run R c cl ev ops r = Some (xs, r') \<Longrightarrow>
     phase_run ops (phase_of ks r cl ev) = (xs, phase_of ks r' cl ev)"
proof (induction ops arbitrary: r xs)
  case (Cons op ops)
  then obtain x r1 xs' where 1: "store_step R c cl ev op r = Some (x, r1)"
    and 2: "store_run R c cl ev ops r1 = Some (xs', r')" and xs: "xs = x # xs'"
    by (auto split: option.splits)
  with store_step_refines [OF 1] Cons.IH [OF 2] show ?case by simp
qed simp

end

section \<open>Properties\<close>

text \<open>
  C15: Refinement. On any Redis that obeys the laws, every successful sequence of registering,
  validating and acknowledging an event returns exactly the answers of the abstract state machine
  unknown, delivered, acknowledged, and leaves the store in the corresponding phase.
\<close>

theorem inflight_refines_state_machine:
  assumes "redis_laws R ks up" and "store_run R c cl ev ops r = Some (xs, r')"
  shows "phase_run ops (phase_of ks r cl ev) = (xs, phase_of ks r' cl ev)"
  by (rule redis_laws.store_run_refines [OF assms])

theorem inflight_refines_state_machine_witness:
  "\<exists>r. store_run mem_redis ReqCtx ''u1'' ''e1'' [OpValidate, OpRegister 5, OpValidate, OpMark 6, OpValidate] mem0
     = Some ([RepValid False False, RepRegistered, RepValid True False, RepMarked, RepValid True True], r)"
proof -
  obtain xs r where s: "store_run mem_redis ReqCtx ''u1'' ''e1''
      [OpValidate, OpRegister 5, OpValidate, OpMark 6, OpValidate] mem0 = Some (xs, r)"
    by (simp add: store_defs mem_ops key_defs)
  from inflight_refines_state_machine [OF mr.redis_laws_axioms s] s show ?thesis
    by (auto simp: phase_of_def mem0_def mks_def)
qed

text \<open>
  \<open>MarkAcked\<close> answers true and records an acknowledgement even for an event that was never
  delivered or is already acknowledged; it never answers false without an error.
\<close>

theorem mark_acked_never_false:
  assumes "redis_laws R ks up" and "MarkAcked R t c cl ev r = (Inr b, r')"
  shows "b \<and> phase_of ks r' cl ev = Acked"
  by (rule redis_laws.inflight_mark_spec [OF assms])

theorem mark_acked_never_false_witness:
  "\<exists>r. phase_of mks mem0 ''u1'' ''nope'' = Unknown
     \<and> MarkAcked mem_redis 0 ReqCtx ''u1'' ''nope'' mem0 = (Inr True, r) \<and> phase_of mks r ''u1'' ''nope'' = Acked"
proof -
  obtain b r where m: "MarkAcked mem_redis 0 ReqCtx ''u1'' ''nope'' mem0 = (Inr b, r)"
    by (simp add: store_defs mem_ops)
  from mark_acked_never_false [OF mr.redis_laws_axioms m] m show ?thesis
    by (simp add: phase_of_def mem0_def mks_def)
qed

text \<open>
  A registration that succeeded keeps the instant of the delivery: its key holds a time stamp that is read back exactly, for
  every instant a 64-bit count of nanoseconds can hold.
\<close>

theorem delivery_time_kept:
  assumes "redis_laws R ks up" and "InFlight_Register R c cl ev t r = (None, r')" and "int64_range t"
  shows "\<exists>stamp u. ks r' (inFlightKey cl ev) = Some (RStr stamp, u) \<and> read_RFC3339 stamp = t"
  using redis_laws.InFlight_Register_effect [OF assms(1,2)] RFC3339_back [OF int64_printable [OF assms(3)]] by auto

theorem delivery_time_kept_witness:
  "\<exists>r stamp u. InFlight_Register mem_redis ReqCtx ''u1'' ''e1'' 1709210096050000000 mem0 = (None, r)
     \<and> mks r (inFlightKey ''u1'' ''e1'') = Some (RStr stamp, u) \<and> read_RFC3339 stamp = 1709210096050000000"
proof -
  obtain r where "InFlight_Register mem_redis ReqCtx ''u1'' ''e1'' 1709210096050000000 mem0 = (None, r)"
    by (simp add: store_defs mem_ops)
  with delivery_time_kept [OF mr.redis_laws_axioms this] show ?thesis by auto
qed

end
