(* ===== verification/Config.thy ===== *)
theory Config
  imports Prelude
begin

text \<open>
  The configuration structs (\<open>internal/config/config.go\<close>) and \<open>Load\<close>. Viper, the JSON encoder and
  the pretty printer are parameters of \<open>Load\<close>; the log line it prints is not modelled. The record
  \<open>default_config\<close> is \<open>config/config.yaml\<close> of the repository, used as a concrete instance.
\<close>

record server_cfg =
  Port :: int
  TLSCert :: string
  TLSKey :: string
  ShutdownTimeout :: duration
  ReadTimeout :: duration
  IdleTimeout :: duration

record sse_cfg =
  PollInterval :: duration
  BatchSize :: int
  HeartbeatInterval :: duration
  ConnTTL :: duration
  MaxQueueDepth :: int
  MaxEventBytes :: int

record auth_cfg =
  TokenSecret :: string
  TicketSecret :: string
  TicketTTL :: duration

record ip_cfg =
  Strategy :: string
  Header :: string
  TrustedCount :: int
  TrustedRanges :: "string list"

record ratelimit_cfg =
  TicketRPM :: int
  TicketBurst :: int

record redis_cfg =
  Address :: string
  Password :: string
  DB :: int
  RedisMaxRetries :: int
  PoolSize :: int
  MinIdleConns :: int

record observability_cfg =
  MetricsPort :: int
  LogLevel :: string
  LogFormat :: string
  TracingEnabled :: bool
  OTLPEndpoint :: string

record nats_cfg =
  NatsURL :: string
  StreamName :: string
  SubjectPrefix :: string
  PublishTimeoutMs :: int
  NatsMaxRetries :: int
  CredentialsFile :: string
  DuplicateWindow :: duration
  Enabled :: bool

record config =
  CfgServer :: server_cfg
  CfgSSE :: sse_cfg
  CfgAuth :: auth_cfg
  CfgIP :: ip_cfg
  CfgRateLimit :: ratelimit_cfg
  CfgRedis :: redis_cfg
  CfgNATS :: nats_cfg
  CfgObservability :: observability_cfg

text \<open>
  \<open>Load\<close> returns a config together with an error when only the display of the configuration failed.
\<close>

definition Load ::
  "(string \<Rightarrow> go_error + 'v) \<Rightarrow> ('v \<Rightarrow> go_error + config) \<Rightarrow> (config \<Rightarrow> go_error + string)
    \<Rightarrow> string \<Rightarrow> config option \<times> go_error option" where
  "Load ReadInConfig Unmarshal MarshalIndent configPath =
     (case ReadInConfig configPath of
        Inl e \<Rightarrow> (None, Some (Wrap ''failed to read config file'' e))
      | Inr v \<Rightarrow>
          (case Unmarshal v of
             Inl e \<Rightarrow> (None, Some (Wrap ''failed to unmarshal config'' e))
           | Inr C \<Rightarrow>
               (case MarshalIndent C of
                  Inl e \<Rightarrow> (Some C, Some (Wrap ''error marshalling config for display'' e))
                | Inr indent \<Rightarrow> (Some C, None))))"

definition default_config :: config where
  "default_config = \<lparr>
     CfgServer = \<lparr>Port = 8443, TLSCert = ''certs/server.crt'', TLSKey = ''certs/server.key'',
       ShutdownTimeout = 30 * second, ReadTimeout = 10 * second, IdleTimeout = 60 * second\<rparr>,
     CfgSSE = \<lparr>PollInterval = second, BatchSize = 100, HeartbeatInterval = 15 * second,
       ConnTTL = 60 * second, MaxQueueDepth = 10000, MaxEventBytes = 65536\<rparr>,
     CfgAuth = \<lparr>TokenSecret = ''change-me-real-token-secret'', TicketSecret = ''change-me-ticket-secret'',
       TicketTTL = 300 * second\<rparr>,
     CfgIP = \<lparr>Strategy = ''remote_addr'', Header = ''X-Forwarded-For'', TrustedCount = 1, TrustedRanges = []\<rparr>,
     CfgRateLimit = \<lparr>TicketRPM = 10, TicketBurst = 3\<rparr>,
     CfgRedis = \<lparr>Address = ''localhost:6379'', Password = '''', DB = 0, RedisMaxRetries = 3,
       PoolSize = 0, MinIdleConns = 0\<rparr>,
     CfgNATS = \<lparr>NatsURL = ''nats://localhost:4222'', StreamName = ''ACK_STREAM'', SubjectPrefix = ''sse.acks'',
       PublishTimeoutMs = 3000, NatsMaxRetries = 3, CredentialsFile = '''', DuplicateWindow = 120 * second,
       Enabled = False\<rparr>,
     CfgObservability = \<lparr>MetricsPort = 9090, LogLevel = ''info'', LogFormat = ''json'',
       TracingEnabled = False, OTLPEndpoint = ''''\<rparr>\<rparr>"

end
