(* ===== verification/Rate_Limiter.thy ===== *)
theory Rate_Limiter
  imports Redis_Mem Keys Config
begin

text \<open>
  The per-address rate limiter (\<open>internal/ratelimit/limiter.go\<close> and \<open>scripts/atomic_ratelimit.lua\<close>):
  a counter that starts a 60 second window with its first hit. Runs of the limiter refine, for each address, an
  abstract fixed-window counter; the window does not slide.
\<close>

section \<open>Operations\<close>

record rl_result =
  Allowed :: bool
  Count :: int
  Limit :: int
  Remaining :: int
  ResetAt :: time

text \<open>Go's zero value \<open>Result{}\<close>.\<close>

definition zero_result :: rl_result where
  "zero_result = \<lparr>Allowed = False, Count = 0, Limit = 0, Remaining = 0, ResetAt = zero_time\<rparr>"

definition windowSeconds :: int where "windowSeconds = 60"

definition atomic_ratelimit :: "'r redis \<Rightarrow> go_context \<Rightarrow> string \<Rightarrow> int \<Rightarrow> ('r, int) rcmd" where
  "atomic_ratelimit R c key window r =
     (case rIncr R c key r of
        (Inl e, r1) \<Rightarrow> (Inl e, r1)
      | (Inr count, r1) \<Rightarrow>
          if count = 1 then
            (case rExpire R c key (window * second) r1 of
               (Inl e, r2) \<Rightarrow> (Inl e, r2) | (Inr _, r2) \<Rightarrow> (Inr count, r2))
          else (Inr count, r1))"

definition Allow ::
  "'r redis \<Rightarrow> ratelimit_cfg \<Rightarrow> time \<Rightarrow> go_context \<Rightarrow> string \<Rightarrow> ('r, rl_result) rcmd" where
  "Allow R cfg now c ip r =
     (let key = ratelimitKey ip;
          limit = wrap64 (TicketRPM cfg + TicketBurst cfg)
      in case atomic_ratelimit R c key windowSeconds r of
           (Inl e, r') \<Rightarrow> (Inl (Wrap ''rate limit script error'' e), r')
         | (Inr val, r') \<Rightarrow>
             (let count = val;
                  rem0 = wrap64 (limit - count);
                  remaining = (if rem0 < 0 then 0 else rem0);
                  resetAt = now + windowSeconds * second
              in (Inr \<lparr>Allowed = (count \<le> limit), Count = count, Limit = TicketRPM cfg,
                       Remaining = remaining, ResetAt = resetAt\<rparr>, r')))"

section \<open>The abstract limiter\<close>

text \<open>A fixed window: the hits counted so far and the time until the window closes.\<close>

type_synonym window_state = "(int \<times> duration) option"

definition window_hit :: "window_state \<Rightarrow> window_state" where
  "window_hit w = (case w of None \<Rightarrow> Some (1, windowSeconds * second) | Some (n, t) \<Rightarrow> Some (n + 1, t))"

definition window_wait :: "duration \<Rightarrow> window_state \<Rightarrow> window_state" where
  "window_wait d w = (case w of None \<Rightarrow> None
     | Some (n, t) \<Rightarrow> if t \<le> d then None else Some (n, t - d))"

fun window_run :: "duration list \<Rightarrow> window_state \<Rightarrow> int list \<times> window_state" where
  "window_run [] w = ([], w)"
| "window_run (d # ds) w =
     (let w1 = window_hit (window_wait d w)
      in (fst (the w1) # fst (window_run ds w1), snd (window_run ds w1)))"

text \<open>
  Requests of any addresses, each some time after the one before it; what the calls of \<open>Allow\<close> answer, in order, or
  \<open>None\<close> once one of them has failed.
\<close>

fun allow_run ::
  "'r redis \<Rightarrow> (duration \<Rightarrow> 'r \<Rightarrow> 'r) \<Rightarrow> ratelimit_cfg \<Rightarrow> time \<Rightarrow> go_context \<Rightarrow> (duration \<times> string) list \<Rightarrow> 'r
    \<Rightarrow> (rl_result list \<times> 'r) option" where
  "allow_run R tick cfg now c [] r = Some ([], r)"
| "allow_run R tick cfg now c ((d, ip) # qs) r =
     (case Allow R cfg (now + d) c ip (tick d r) of
        (Inl _, _) \<Rightarrow> None
      | (Inr x, r1) \<Rightarrow> map_option (apfst ((#) x)) (allow_run R tick cfg (now + d) c qs r1))"

text \<open>The part of one address: its answers, the waits between its requests when \<open>a\<close> has passed since the last one, and the rest.\<close>

definition own :: "string \<Rightarrow> (duration \<times> string) list \<Rightarrow> 'a list \<Rightarrow> 'a list" where
  "own ip qs xs = map snd (filter (\<lambda>(q, x). snd q = ip) (zip qs xs))"

fun own_waits :: "string \<Rightarrow> duration \<Rightarrow> (duration \<times> string) list \<Rightarrow> duration list \<times> duration" where
  "own_waits ip a [] = ([], a)"
| "own_waits ip a ((d, ip') # qs) =
     (if ip' = ip then apfst (Cons (a + d)) (own_waits ip 0 qs) else own_waits ip (a + d) qs)"

lemma own_Cons [simp]: "own ip ((d, ip') # qs) (x # xs) = (if ip' = ip then x # own ip qs xs else own ip qs xs)"
  by (simp add: own_def)

lemma own_Nil [simp]: "own ip [] xs = []"
  by (simp add: own_def)

lemma own_waits_sum: "sum_list (fst (own_waits ip a qs)) + snd (own_waits ip a qs) = a + sum_list (map fst qs)"
  by (induction ip a qs rule: own_waits.induct) auto

lemma own_waits_nonneg:
  "list_all ((\<le>) 0) (map fst qs) \<Longrightarrow> 0 \<le> a \<Longrightarrow> list_all ((\<le>) 0) (fst (own_waits ip a qs)) \<and> 0 \<le> snd (own_waits ip a qs)"
  by (induction ip a qs rule: own_waits.induct) auto

lemma own_waits_filter: "length (fst (own_waits ip a qs)) = length (filter (\<lambda>q. snd q = ip) qs)"
  by (induction ip a qs rule: own_waits.induct) auto

lemma window_wait_add: "0 \<le> a \<Longrightarrow> 0 \<le> d \<Longrightarrow> window_wait d (window_wait a w) = window_wait (a + d) w"
  by (auto simp: window_wait_def split: option.split)

text \<open>What an answer says in terms of the count and the limit.\<close>

definition answer_ok :: "ratelimit_cfg \<Rightarrow> rl_result \<Rightarrow> bool" where
  "answer_ok cfg x \<longleftrightarrow> Allowed x = (Count x \<le> wrap64 (TicketRPM cfg + TicketBurst cfg))
     \<and> Remaining x = max 0 (wrap64 (wrap64 (TicketRPM cfg + TicketBurst cfg) - Count x))"

lemma Allow_answer: "Allow R cfg now c ip r = (Inr x, r') \<Longrightarrow> answer_ok cfg x"
  by (auto simp: Allow_def answer_ok_def Let_def split: prod.splits sum.splits)

text \<open>The window a key represents; a counter always carries a time to live.\<close>

definition window_of :: "keyspace \<Rightarrow> string \<Rightarrow> window_state \<Rightarrow> bool" where
  "window_of m ip w \<longleftrightarrow> (case w of
       None \<Rightarrow> m (ratelimitKey ip) = None
     | Some (n, t) \<Rightarrow> m (ratelimitKey ip) = Some (RStr (Itoa n), Some t) \<and> 0 < n)"

lemma nat_digits_inject: "nat_digits m = nat_digits n \<Longrightarrow> m = n"
  using nat_digits_props by metis

lemma Itoa_inject: "Itoa m = Itoa n \<longleftrightarrow> m = n"
proof
  assume e: "Itoa m = Itoa n"
  have "hd (nat_digits (nat i)) \<noteq> CHR ''-''" "nat_digits (nat i) \<noteq> []" for i
    using nat_digits_props by blast+
  then have s: "hd (Itoa i) = CHR ''-'' \<longleftrightarrow> i < 0" for i by (simp add: Itoa_def)
  then have sg: "m < 0 \<longleftrightarrow> n < 0" using e by metis
  show "m = n"
  proof (cases "m < 0")
    case True
    with e sg have "nat_digits (nat (- m)) = nat_digits (nat (- n))" by (simp add: Itoa_def)
    then have "nat (- m) = nat (- n)" by (rule nat_digits_inject)
    with True sg show ?thesis by simp
  next
    case False
    with e sg have "nat_digits (nat m) = nat_digits (nat n)" by (simp add: Itoa_def)
    then have "nat m = nat n" by (rule nat_digits_inject)
    with False sg show ?thesis by simp
  qed
qed simp

context redis_laws
begin

lemma ratelimit_script_effect:
  assumes "atomic_ratelimit R c (ratelimitKey ip) windowSeconds r = (Inr n, r')" and "window_of (ks r) ip w"
  shows "window_of (ks r') ip (window_hit w) \<and> n = fst (the (window_hit w))"
proof -
  let ?k = "ratelimitKey ip"
  obtain r1 where 1: "rIncr R c ?k r = (Inr n, r1)"
    and 2: "if n = 1 then \<exists>b. rExpire R c ?k (60 * second) r1 = (Inr b, r') else r' = r1"
    using assms(1) by (auto simp: atomic_ratelimit_def windowSeconds_def split: prod.splits sum.splits if_splits)
  note i = incr_ok [OF 1]
  show ?thesis
  proof (cases w)
    case None
    with assms(2) i have n: "n = 1" "ks r1 = (ks r)(?k \<mapsto> (RStr (Itoa 1), None))"
      by (auto simp: window_of_def)
    with 2 obtain b where "rExpire R c ?k (60 * second) r1 = (Inr b, r')" by auto
    from expire_ok [OF this] n show ?thesis
      by (auto simp: None window_of_def window_hit_def windowSeconds_def second_def)
  next
    case (Some p)
    then obtain m t where w: "w = Some (m, t)" by (cases p) auto
    with assms(2) i have "n = m + 1" "0 < m" "ks r1 = (ks r)(?k \<mapsto> (RStr (Itoa n), Some t))"
      by (auto simp: window_of_def Itoa_inject)
    with 2 w show ?thesis by (auto simp: window_of_def window_hit_def)
  qed
qed

lemma ratelimit_script_others:
  assumes "atomic_ratelimit R c key window r = (Inr n, r')" and "0 < window" and "k \<noteq> key"
  shows "ks r' k = ks r k"
proof -
  obtain r1 where 1: "rIncr R c key r = (Inr n, r1)"
    and 2: "if n = 1 then \<exists>b. rExpire R c key (window * second) r1 = (Inr b, r') else r' = r1"
    using assms(1) by (auto simp: atomic_ratelimit_def split: prod.splits sum.splits if_splits)
  have "0 < window * second" using assms(2) by (simp add: second_def)
  with 2 expire_ok [of c key "window * second" r1 _ r'] assms(3) have "ks r' k = ks r1 k"
    by (cases "n = 1") fastforce+
  also have "ks r1 k = ks r k" using incr_ok [OF 1] assms(3) by auto
  finally show ?thesis .
qed

lemma Allow_others:
  assumes "Allow R cfg now c ip' r = (Inr x, r')" and "ip \<noteq> ip'" and "window_of (ks r) ip w"
  shows "window_of (ks r') ip w"
proof -
  obtain n where "atomic_ratelimit R c (ratelimitKey ip') windowSeconds r = (Inr n, r')"
    using assms(1) by (auto simp: Allow_def Let_def split: prod.splits sum.splits)
  from ratelimit_script_others [OF this, of "ratelimitKey ip"] assms(2,3) show ?thesis
    by (simp add: window_of_def windowSeconds_def split: option.splits prod.splits)
qed

lemma Allow_effect:
  assumes "Allow R cfg now c ip r = (Inr x, r')" and "window_of (ks r) ip w"
  shows "window_of (ks r') ip (window_hit w) \<and> Count x = fst (the (window_hit w))
    \<and> answer_ok cfg x \<and> Limit x = TicketRPM cfg"
proof -
  obtain n where "atomic_ratelimit R c (ratelimitKey ip) windowSeconds r = (Inr n, r')"
    "Count x = n" "Allowed x = (n \<le> wrap64 (TicketRPM cfg + TicketBurst cfg))" "Limit x = TicketRPM cfg"
    "Remaining x = max 0 (wrap64 (wrap64 (TicketRPM cfg + TicketBurst cfg) - n))"
    using assms(1) by (auto simp: Allow_def Let_def split: prod.splits sum.splits)
  with ratelimit_script_effect [OF _ assms(2)] show ?thesis by (auto simp: answer_ok_def)
qed

end

text \<open>A server that stays in step with the abstract window of an address while time passes.\<close>

definition in_step ::
  "('r \<Rightarrow> keyspace) \<Rightarrow> (duration \<Rightarrow> 'r \<Rightarrow> 'r) \<Rightarrow> 'r \<Rightarrow> string \<Rightarrow> duration \<Rightarrow> window_state \<Rightarrow> bool" where
  "in_step ks tick r ip a w \<longleftrightarrow> (\<forall>d \<ge> 0. window_of (ks (tick d r)) ip (window_wait (a + d) w))"

context redis_time
begin

lemma window_of_tick:
  "0 \<le> d \<Longrightarrow> window_of (ks r) ip w \<Longrightarrow> window_of (ks (tick d r)) ip (window_wait d w)"
  by (auto simp: window_of_def window_wait_def tick_ks expire_keys_def split: option.splits prod.splits)

lemma in_step_now: "window_of (ks r) ip w \<Longrightarrow> in_step ks tick r ip 0 w"
  by (simp add: in_step_def window_of_tick)

lemma in_step_other:
  assumes "in_step ks tick r ip a w" and "0 \<le> a" and "0 \<le> d" and "Allow R cfg now c ip' (tick d r) = (Inr x, r')" and "ip \<noteq> ip'"
  shows "in_step ks tick r' ip (a + d) w"
proof -
  have "window_of (ks r') ip (window_wait (a + d) w)"
    using assms(1,3) Allow_others [OF assms(4,5)] by (simp add: in_step_def)
  from window_of_tick [OF _ this] assms(2,3) show ?thesis
    by (simp add: in_step_def window_wait_add)
qed

lemma allow_run_refines:
  "allow_run R tick cfg now c qs r = Some (xs, r') \<Longrightarrow> in_step ks tick r ip a w \<Longrightarrow> 0 \<le> a \<Longrightarrow> list_all ((\<le>) 0) (map fst qs) \<Longrightarrow>
     map Count (own ip qs xs) = fst (window_run (fst (own_waits ip a qs)) w) \<and> length xs = length qs \<and> list_all (answer_ok cfg) xs
     \<and> in_step ks tick r' ip (snd (own_waits ip a qs)) (snd (window_run (fst (own_waits ip a qs)) w))"
proof (induction qs arbitrary: now r xs a w)
  case (Cons q qs)
  obtain d ip' where q: "q = (d, ip')" by force
  with Cons.prems obtain x r1 xs' where 1: "Allow R cfg (now + d) c ip' (tick d r) = (Inr x, r1)"
    and 2: "allow_run R tick cfg (now + d) c qs r1 = Some (xs', r')" and xs: "xs = x # xs'"
    by (auto split: prod.splits sum.splits)
  from Cons.prems(4) q have d: "0 \<le> d" "list_all ((\<le>) 0) (map fst qs)" by simp_all
  note x = Allow_answer [OF 1]
  show ?case
  proof (cases "ip' = ip")
    case True
    have "window_of (ks (tick d r)) ip (window_wait (a + d) w)" using Cons.prems(2) d(1) by (simp add: in_step_def)
    note e = Allow_effect [OF 1 [unfolded True] this]
    from Cons.IH [OF 2 in_step_now _ d(2), of "window_hit (window_wait (a + d) w)"] e x q xs True show ?thesis by (simp add: Let_def)
  next
    case False
    from Cons.IH [OF 2 in_step_other [OF Cons.prems(2,3) d(1) 1] _ d(2)] False Cons.prems(3) d(1) x q xs show ?thesis by simp
  qed
qed simp

end

text \<open>Within one window the counter counts up.\<close>

lemma window_run_counts:
  "list_all ((\<le>) 0) ds \<Longrightarrow> sum_list ds < t \<Longrightarrow>
     fst (window_run ds (Some (n, t))) = map (\<lambda>i. n + 1 + int i) [0..<length ds]"
proof (induction ds arbitrary: n t)
  case (Cons d ds)
  have "0 \<le> sum_list ds" using Cons.prems(1) by (simp add: list_all_iff sum_list_nonneg)
  with Cons.prems have "d < t" by simp
  then have w: "window_hit (window_wait d (Some (n, t))) = Some (n + 1, t - d)"
    by (simp add: window_hit_def window_wait_def)
  have "fst (window_run ds (Some (n + 1, t - d))) = map (\<lambda>i. n + 1 + 1 + int i) [0..<length ds]"
    using Cons.prems by (intro Cons.IH) simp_all
  also have "\<dots> = map (\<lambda>i. n + 1 + int i) (map Suc [0..<length ds])" by simp
  finally have "fst (window_run ds (Some (n + 1, t - d))) = map (\<lambda>i. n + 1 + int i) [1..<Suc (length ds)]"
    by (simp add: map_Suc_upt del: map_map)
  with w show ?case by (simp add: upt_conv_Cons del: upt_Suc)
qed simp

section \<open>Properties\<close>

text \<open>
  C17: Refinement. Calls of \<open>Allow\<close> for any addresses, with any amounts of time in between: those of each address count exactly
  as an abstract fixed-window counter of its own does, whatever the other addresses send, and the server stays in step with it.
  Each request is allowed precisely when its count is within \<open>ticket_rpm + ticket_burst\<close>; \<open>Remaining\<close> is what is left of that limit, never negative.
\<close>

theorem limiter_refines_fixed_window:
  assumes "redis_time R ks up tick" and "allow_run R tick cfg now c qs r = Some (xs, r')"
    and "window_of (ks r) ip w" and "list_all ((\<le>) 0) (map fst qs)" and "own_waits ip 0 qs = (ds, rest)"
  shows "map Count (own ip qs xs) = fst (window_run ds w) \<and> in_step ks tick r' ip rest (snd (window_run ds w))
    \<and> list_all (answer_ok cfg) xs"
  using redis_time.allow_run_refines [OF assms(1,2) redis_time.in_step_now [OF assms(1,3)] _ assms(4)] assms(5) by simp

lemmas limiter_eval = Allow_def atomic_ratelimit_def windowSeconds_def mem_ops key_defs second_def
  mtick_def expire_keys_def List.map_filter_simps Atoi_Itoa

lemma mem0_no_window: "window_of (mks mem0) ip None"
  by (simp add: window_of_def mks_def mem0_def)

text \<open>Two requests a minute and a burst of one.\<close>

definition small_limit :: ratelimit_cfg where "small_limit = \<lparr>TicketRPM = 2, TicketBurst = 1\<rparr>"

text \<open>Four requests of one address, with one of another in between.\<close>

definition small_requests :: "(duration \<times> string) list" where
  "small_requests = [(0, ''1.2.3.4''), (second, ''1.2.3.4''), (0, ''5.6.7.8''), (second, ''1.2.3.4''), (second, ''1.2.3.4'')]"

lemma small_run: "\<exists>xs r. allow_run mem_redis mtick small_limit 0 ReqCtx small_requests mem0 = Some (xs, r)"
  by (simp add: limiter_eval small_requests_def)

theorem limiter_refines_fixed_window_witness:
  "\<exists>xs r. allow_run mem_redis mtick small_limit 0 ReqCtx small_requests mem0 = Some (xs, r)
     \<and> map Count (own ''1.2.3.4'' small_requests xs) = [1, 2, 3, 4]"
proof -
  obtain xs r where a: "allow_run mem_redis mtick small_limit 0 ReqCtx small_requests mem0 = Some (xs, r)" using small_run by blast
  have "own_waits ''1.2.3.4'' 0 small_requests = ([0, second, second, second], 0)" by (simp add: small_requests_def)
  from limiter_refines_fixed_window [OF mr.redis_time_axioms a mem0_no_window _ this] a show ?thesis
    by (simp add: small_requests_def second_def window_hit_def window_wait_def windowSeconds_def)
qed

text \<open>
  C16: In a fresh window, of any number of requests from one address that arrive less than 60 seconds
  after the first, exactly the first \<open>ticket_rpm + ticket_burst\<close> are allowed and all others denied, whatever requests of other addresses
  come in between.
\<close>

theorem limiter_admits_exactly_limit:
  assumes "redis_time R ks up tick" and "allow_run R tick cfg now c ((d, ip) # qs) r = Some (xs, r')"
    and "ks r (ratelimitKey ip) = None" and "0 \<le> d" and "list_all ((\<le>) 0) (map fst qs)" and "sum_list (map fst qs) < 60 * second"
    and "int64_range (TicketRPM cfg + TicketBurst cfg)"
  shows "map Allowed (own ip ((d, ip) # qs) xs)
    = map (\<lambda>i. int i < TicketRPM cfg + TicketBurst cfg) [0..<Suc (length (filter (\<lambda>q. snd q = ip) qs))]"
proof -
  let ?L = "TicketRPM cfg + TicketBurst cfg" and ?ds = "fst (own_waits ip 0 qs)" and ?xs = "own ip ((d, ip) # qs) xs"
  have "window_of (ks r) ip None" using assms(3) by (simp add: window_of_def)
  note ref = redis_time.allow_run_refines [OF assms(1,2) redis_time.in_step_now [OF assms(1) this], simplified, OF conjI [OF assms(4,5)]]
  have ds: "list_all ((\<le>) 0) ?ds" "sum_list ?ds < 60 * second"
    using own_waits_nonneg [OF assms(5), of 0 ip] own_waits_sum [of ip 0 qs] assms(6) by auto
  have n: "length (filter (\<lambda>q. snd q = ip) qs) = length ?ds" using own_waits_filter [of ip 0 qs] by simp
  have "fst (window_run ?ds (Some (1, 60 * second))) = map (\<lambda>i. 1 + 1 + int i) [0..<length ?ds]"
    by (rule window_run_counts [OF ds])
  then have c: "map Count ?xs = map (\<lambda>i. 1 + int i) [0..<Suc (length ?ds)]"
    using ref by (simp add: window_hit_def window_wait_def windowSeconds_def upt_conv_Cons map_Suc_upt [symmetric] del: upt_Suc)
  have "\<forall>x \<in> set ?xs. Allowed x \<longleftrightarrow> Count x \<le> ?L"
    using ref assms(7) by (auto simp: list_all_iff answer_ok_def own_def dest!: set_zip_rightD)
  then have "map Allowed ?xs = map (\<lambda>n. n \<le> ?L) (map Count ?xs)" by simp
  moreover have "1 + int i \<le> ?L \<longleftrightarrow> int i < ?L" for i by linarith
  ultimately show ?thesis by (simp add: c n o_def del: upt_Suc)
qed

theorem limiter_admits_exactly_limit_witness:
  "\<exists>xs r. allow_run mem_redis mtick small_limit 0 ReqCtx small_requests mem0 = Some (xs, r)
     \<and> map Allowed (own ''1.2.3.4'' small_requests xs) = [True, True, True, False]"
proof -
  obtain xs r where a: "allow_run mem_redis mtick small_limit 0 ReqCtx small_requests mem0 = Some (xs, r)" using small_run by blast
  from limiter_admits_exactly_limit [OF mr.redis_time_axioms a [unfolded small_requests_def]] a show ?thesis
    by (simp add: second_def small_limit_def small_requests_def mks_def mem0_def upt_conv_Cons)
qed

text \<open>
  The window does not slide: it opens with the first hit and closes 60 seconds later, whatever
  hits came in between, so a hit 59 seconds into a window is forgotten one second later.
\<close>

theorem limiter_window_is_fixed:
  assumes "redis_time R ks up tick"
    and "allow_run R tick cfg now c [(0, ip), (59 * second, ip), (second, ip)] r = Some (xs, r')"
    and "ks r (ratelimitKey ip) = None"
  shows "map Count (own ip [(0, ip), (59 * second, ip), (second, ip)] xs) = [1, 2, 1]"
proof -
  have w: "window_of (ks r) ip None" using assms(3) by (simp add: window_of_def)
  from redis_time.allow_run_refines [OF assms(1,2) redis_time.in_step_now [OF assms(1) w]] show ?thesis
    by (simp add: window_hit_def window_wait_def windowSeconds_def second_def)
qed

theorem limiter_window_is_fixed_witness:
  "\<exists>xs r. allow_run mem_redis mtick small_limit 0 ReqCtx [(0, ''1.2.3.4''), (59 * second, ''1.2.3.4''), (second, ''1.2.3.4'')] mem0 = Some (xs, r)
     \<and> map Count (own ''1.2.3.4'' [(0, ''1.2.3.4''), (59 * second, ''1.2.3.4''), (second, ''1.2.3.4'')] xs) = [1, 2, 1]"
proof -
  obtain xs r where a: "allow_run mem_redis mtick small_limit 0 ReqCtx [(0, ''1.2.3.4''), (59 * second, ''1.2.3.4''), (second, ''1.2.3.4'')] mem0 = Some (xs, r)"
    by (simp add: limiter_eval)
  from limiter_window_is_fixed [OF mr.redis_time_axioms a] a show ?thesis by (simp add: mks_def mem0_def)
qed

text \<open>
  C18: The bounds of the answer. With a limit that is not negative and does not overflow, the count is positive, the
  remaining hits are what is left of \<open>ticket_rpm + ticket_burst\<close> and never negative, a hit is allowed precisely while the
  two add up to that sum. \<open>Limit\<close> (the \<open>X-RateLimit-Limit\<close> header) is \<open>ticket_rpm\<close> alone, so \<open>Remaining\<close>
  exceeds it precisely while fewer hits than the burst have come.
\<close>

theorem limiter_remaining_bounds:
  assumes "redis_laws R ks up" and "Allow R cfg now c ip r = (Inr x, r')" and "window_of (ks r) ip w" and "Count x < 2 ^ 63"
    and "0 \<le> TicketRPM cfg" and "0 \<le> TicketBurst cfg" and "TicketRPM cfg + TicketBurst cfg < 2 ^ 63"
  shows "0 < Count x \<and> 0 \<le> Remaining x \<and> Count x + Remaining x = max (Count x) (TicketRPM cfg + TicketBurst cfg)
    \<and> (Allowed x \<longleftrightarrow> Count x + Remaining x = TicketRPM cfg + TicketBurst cfg) \<and> (Limit x < Remaining x \<longleftrightarrow> Count x < TicketBurst cfg)"
proof -
  note a = redis_laws.Allow_effect [OF assms(1-3)]
  have "0 < Count x" using a assms(3) by (auto simp: window_hit_def window_of_def split: option.splits prod.splits)
  with a assms(4-7) show ?thesis by (auto simp: max_def answer_ok_def)
qed

theorem limiter_remaining_bounds_witness:
  "\<exists>x r. Allow mem_redis (CfgRateLimit default_config) 0 ReqCtx ''1.2.3.4'' mem0 = (Inr x, r) \<and> Count x = 1 \<and> Count x + Remaining x = 13 \<and> Limit x < Remaining x"
proof -
  obtain x r where a: "Allow mem_redis (CfgRateLimit default_config) 0 ReqCtx ''1.2.3.4'' mem0 = (Inr x, r)" "Count x = 1"
    by (simp add: limiter_eval)
  from limiter_remaining_bounds [OF mr.redis_laws_axioms a(1) mem0_no_window] a show ?thesis
    by (simp add: default_config_def)
qed

end
