(* ===== verification/Json.thy ===== *)
theory Json
  imports Prelude
begin

text \<open>
  The part of Go's \<open>encoding/json\<close> and \<open>unicode/utf8\<close> the program relies on, on strings of bytes: the scanner that
  decides whether a text is valid JSON, with its limit on nesting; the decoding of string literals with escapes,
  surrogate pairs and the replacement of invalid UTF-8; the members of an object with the text of their values, which is what
  \<open>json.RawMessage\<close> keeps; and the encoder's string literals. An encoded literal is read back as the string, with
  invalid UTF-8 replaced.
\<close>

section \<open>UTF-8\<close>

abbreviation byte_val :: "char \<Rightarrow> nat" where "byte_val \<equiv> of_char"

definition within :: "nat \<Rightarrow> nat \<Rightarrow> char \<Rightarrow> bool" where
  "within lo hi c \<longleftrightarrow> lo \<le> byte_val c \<and> byte_val c \<le> hi"

text \<open>The width of the encoded rune a string starts with; zero when \<open>utf8.DecodeRune\<close> reports an error.\<close>

definition rune_width :: "string \<Rightarrow> nat" where
  "rune_width s = (case s of [] \<Rightarrow> 0 | b # bs \<Rightarrow>
     if byte_val b < 0x80 then 1
     else if within 0xC2 0xDF b then (case bs of c # _ \<Rightarrow> if within 0x80 0xBF c then 2 else 0 | _ \<Rightarrow> 0)
     else if within 0xE0 0xEF b then
       (case bs of c # d # _ \<Rightarrow>
          if within (if byte_val b = 0xE0 then 0xA0 else 0x80) (if byte_val b = 0xED then 0x9F else 0xBF) c \<and> within 0x80 0xBF d then 3 else 0
        | _ \<Rightarrow> 0)
     else if within 0xF0 0xF4 b then
       (case bs of c # d # e # _ \<Rightarrow>
          if within (if byte_val b = 0xF0 then 0x90 else 0x80) (if byte_val b = 0xF4 then 0x8F else 0xBF) c
             \<and> within 0x80 0xBF d \<and> within 0x80 0xBF e then 4 else 0
        | _ \<Rightarrow> 0)
     else 0)"

definition rune_error :: string where "rune_error = [CHR 0xEF, CHR 0xBF, CHR 0xBD]"

text \<open>\<open>utf8.EncodeRune\<close> of a code point below \<open>0x110000\<close>.\<close>

definition encode_rune :: "nat \<Rightarrow> string" where
  "encode_rune n = map char_of
     (if n < 0x80 then [n]
      else if n < 0x800 then [0xC0 + n div 64, 0x80 + n mod 64]
      else if n < 0x10000 then [0xE0 + n div 4096, 0x80 + n div 64 mod 64, 0x80 + n mod 64]
      else [0xF0 + n div 262144, 0x80 + n div 4096 mod 64, 0x80 + n div 64 mod 64, 0x80 + n mod 64])"

lemma rune_width_le: "rune_width s \<le> length s"
  by (auto simp: rune_width_def split: list.split)

text \<open>Every byte that does not start a valid rune is replaced.\<close>

function fix_utf8 :: "string \<Rightarrow> string" where
  "fix_utf8 [] = []"
| "fix_utf8 (c # s) =
     (let k = rune_width (c # s)
      in if k = 0 then rune_error @ fix_utf8 s else take k (c # s) @ fix_utf8 (drop k (c # s)))"
  by pat_completeness auto
termination by (relation "measure length") (use rune_width_le in auto)

function valid_utf8 :: "string \<Rightarrow> bool" where
  "valid_utf8 [] = True"
| "valid_utf8 (c # s) = (if rune_width (c # s) = 0 then False else valid_utf8 (drop (rune_width (c # s)) (c # s)))"
  by pat_completeness auto
termination by (relation "measure length") (use rune_width_le in auto)

lemma fix_utf8_valid: "valid_utf8 s \<Longrightarrow> fix_utf8 s = s"
  by (induction s rule: fix_utf8.induct) (auto simp: Let_def split: if_splits)

declare fix_utf8.simps(2) [simp del] valid_utf8.simps(2) [simp del]

section \<open>The scanner\<close>

abbreviation dquote :: char where "dquote \<equiv> CHR 0x22"
abbreviation backslash :: char where "backslash \<equiv> CHR 0x5C"

definition json_space :: "char \<Rightarrow> bool" where
  "json_space c \<longleftrightarrow> c \<in> {CHR '' '', CHR 0x09, CHR 0x0A, CHR 0x0D}"

definition skip_space :: "string \<Rightarrow> string" where
  "skip_space s = dropWhile json_space s"

text \<open>A string literal in parts: bytes, simple escapes already read, and the codes of \<open>\u\<close> escapes.\<close>

datatype strunit = Byte (the_byte: char) | Code nat

definition hex_val :: "char \<Rightarrow> nat option" where
  "hex_val c = (if within 0x30 0x39 c then Some (byte_val c - 0x30) else if within 0x61 0x66 c then Some (byte_val c - 0x57)
     else if within 0x41 0x46 c then Some (byte_val c - 0x37) else None)"

fun hex4 :: "string \<Rightarrow> nat option" where
  "hex4 [a, b, c, d] = (case map hex_val [a, b, c, d] of
     [Some p, Some q, Some r, Some s] \<Rightarrow> Some (((p * 16 + q) * 16 + r) * 16 + s) | _ \<Rightarrow> None)"
| "hex4 _ = None"

definition simple_escape :: "char \<Rightarrow> char option" where
  "simple_escape c = map_of [(dquote, dquote), (backslash, backslash), (CHR ''/'', CHR ''/''), (CHR ''b'', CHR 0x08),
     (CHR ''f'', CHR 0x0C), (CHR ''n'', CHR 0x0A), (CHR ''r'', CHR 0x0D), (CHR ''t'', CHR 0x09)] c"

text \<open>The text after an opening quote: the literal and what follows it.\<close>

function scan_string :: "string \<Rightarrow> (strunit list \<times> string) option" where
  "scan_string [] = None"
| "scan_string (c # s) =
     (if c = dquote then Some ([], s)
      else if c = backslash then
        (case s of [] \<Rightarrow> None
         | e # s' \<Rightarrow>
           if e = CHR ''u'' then
             (case hex4 (take 4 s') of None \<Rightarrow> None
              | Some n \<Rightarrow> map_option (apfst (Cons (Code n))) (scan_string (drop 4 s')))
           else (case simple_escape e of None \<Rightarrow> None | Some b \<Rightarrow> map_option (apfst (Cons (Byte b))) (scan_string s')))
      else if byte_val c < 0x20 then None
      else map_option (apfst (Cons (Byte c))) (scan_string s))"
  by pat_completeness auto
termination by (relation "measure length") auto

text \<open>The string of a literal: surrogates are paired, a lone one and invalid bytes become the replacement character.\<close>

abbreviation is_byte :: "strunit \<Rightarrow> bool" where "is_byte u \<equiv> (case u of Byte _ \<Rightarrow> True | Code _ \<Rightarrow> False)"

function unquote :: "strunit list \<Rightarrow> string" where
  "unquote [] = []"
| "unquote (Byte c # us) = fix_utf8 (c # map the_byte (takeWhile is_byte us)) @ unquote (dropWhile is_byte us)"
| "unquote (Code n # us) =
     (if n < 0xD800 \<or> 0xE000 \<le> n then encode_rune n @ unquote us
      else (case us of
          Code m # us' \<Rightarrow>
            if n < 0xDC00 \<and> 0xDC00 \<le> m \<and> m < 0xE000
            then encode_rune (0x10000 + (n - 0xD800) * 0x400 + (m - 0xDC00)) @ unquote us'
            else rune_error @ unquote us
        | _ \<Rightarrow> rune_error @ unquote us))"
  by pat_completeness auto
termination by (relation "measure length") (auto simp: le_imp_less_Suc length_dropWhile_le)

text \<open>The numbers of JSON, literals, and values within a number of further levels of nesting.\<close>

definition skip_one :: "char set \<Rightarrow> string \<Rightarrow> string" where
  "skip_one cs s = (if s \<noteq> [] \<and> hd s \<in> cs then tl s else s)"

definition scan_digits :: "string \<Rightarrow> string option" where
  "scan_digits s = (if s \<noteq> [] \<and> is_digit (hd s) then Some (dropWhile is_digit s) else None)"

definition scan_exponent :: "string \<Rightarrow> string option" where
  "scan_exponent s = (if s \<noteq> [] \<and> hd s \<in> {CHR ''e'', CHR ''E''} then scan_digits (skip_one {CHR ''+'', CHR ''-''} (tl s)) else Some s)"

definition scan_fraction :: "string \<Rightarrow> string option" where
  "scan_fraction s = (if s \<noteq> [] \<and> hd s = CHR ''.'' then Option.bind (scan_digits (tl s)) scan_exponent else scan_exponent s)"

definition scan_number :: "string \<Rightarrow> string option" where
  "scan_number s =
     (let s1 = skip_one {CHR ''-''} s
      in if s1 \<noteq> [] \<and> hd s1 = CHR ''0'' then scan_fraction (tl s1) else Option.bind (scan_digits s1) scan_fraction)"

definition scan_word :: "string \<Rightarrow> string \<Rightarrow> string option" where
  "scan_word word s = (if take (length word) s = word then Some (drop (length word) s) else None)"

definition scan_scalar :: "string \<Rightarrow> string option" where
  "scan_scalar s = (case s of [] \<Rightarrow> None | c # s1 \<Rightarrow>
     if c = dquote then map_option snd (scan_string s1)
     else if c = CHR ''t'' then scan_word ''true'' s
     else if c = CHR ''f'' then scan_word ''false'' s
     else if c = CHR ''n'' then scan_word ''null'' s
     else scan_number s)"

text \<open>Items with commas between them up to a closing bracket. An item always takes up text, so the guard is never false.\<close>

function scan_items :: "(string \<Rightarrow> ('a \<times> string) option) \<Rightarrow> char \<Rightarrow> string \<Rightarrow> ('a list \<times> string) option" where
  "scan_items item close s =
     (case item s of None \<Rightarrow> None
      | Some (x, s1) \<Rightarrow>
          (case skip_space s1 of [] \<Rightarrow> None
           | c # s2 \<Rightarrow>
               if c = close then Some ([x], s2)
               else if c = CHR '','' \<and> length s2 < length s then map_option (apfst (Cons x)) (scan_items item close s2)
               else None))"
  by pat_completeness auto
termination by (relation "measure (\<lambda>(_, _, s). length s)") auto

declare scan_items.simps [simp del]

definition scan_container :: "(string \<Rightarrow> ('a \<times> string) option) \<Rightarrow> char \<Rightarrow> string \<Rightarrow> ('a list \<times> string) option" where
  "scan_container item close s =
     (case skip_space s of [] \<Rightarrow> None | c # s1 \<Rightarrow> if c = close then Some ([], s1) else scan_items item close s)"

text \<open>A member of an object: its key and the text of its value.\<close>

definition scan_member :: "(string \<Rightarrow> string option) \<Rightarrow> string \<Rightarrow> ((string \<times> string) \<times> string) option" where
  "scan_member val s =
     (case skip_space s of [] \<Rightarrow> None | c # s1 \<Rightarrow>
        if c \<noteq> dquote then None
        else case scan_string s1 of None \<Rightarrow> None
          | Some (key, s2) \<Rightarrow>
              (case skip_space s2 of [] \<Rightarrow> None | c2 # s3 \<Rightarrow>
                 if c2 \<noteq> CHR '':'' then None
                 else let s4 = skip_space s3
                      in case val s4 of None \<Rightarrow> None
                         | Some s5 \<Rightarrow> Some ((unquote key, take (length s4 - length s5) s4), s5)))"

definition scan_element :: "(string \<Rightarrow> string option) \<Rightarrow> string \<Rightarrow> (unit \<times> string) option" where
  "scan_element val s = map_option (Pair ()) (val (skip_space s))"

primrec scan_value :: "nat \<Rightarrow> string \<Rightarrow> string option" where
  "scan_value 0 s = (case s of [] \<Rightarrow> None | c # s1 \<Rightarrow> if c = CHR ''{'' \<or> c = CHR ''['' then None else scan_scalar s)"
| "scan_value (Suc n) s = (case s of [] \<Rightarrow> None | c # s1 \<Rightarrow>
     if c = CHR ''{'' then map_option snd (scan_container (scan_member (scan_value n)) (CHR ''}'') s1)
     else if c = CHR ''['' then map_option snd (scan_container (scan_element (scan_value n)) (CHR '']'') s1)
     else scan_scalar s)"

lemma scan_value_numeral: "scan_value (numeral k) s = (case s of [] \<Rightarrow> None | c # s1 \<Rightarrow>
     if c = CHR ''{'' then map_option snd (scan_container (scan_member (scan_value (pred_numeral k))) (CHR ''}'') s1)
     else if c = CHR ''['' then map_option snd (scan_container (scan_element (scan_value (pred_numeral k))) (CHR '']'') s1)
     else scan_scalar s)"
  by (simp add: numeral_eq_Suc)

text \<open>\<open>maxNestingDepth\<close> of the scanner, and \<open>json.Valid\<close>.\<close>

definition max_nesting :: nat where "max_nesting = 10000"

definition json_valid :: "string \<Rightarrow> bool" where
  "json_valid s = (case scan_value max_nesting (skip_space s) of None \<Rightarrow> False | Some r \<Rightarrow> skip_space r = [])"

section \<open>Decoding\<close>

text \<open>Keys match the names of fields without regard to the case of letters.\<close>

definition upper :: "char \<Rightarrow> char" where
  "upper c = (if within 0x61 0x7A c then char_of (byte_val c - 32) else c)"

definition same_key :: "string \<Rightarrow> string \<Rightarrow> bool" where
  "same_key k name \<longleftrightarrow> map upper k = map upper name"

text \<open>
  What a value does to a field, from its text: a string literal sets a \<open>string\<close>, \<open>null\<close> leaves it, anything else is an error,
  which does not stop the decoding but is returned at its end.
\<close>

definition string_field :: "string \<Rightarrow> string \<Rightarrow> string option" where
  "string_field raw old = (case raw of [] \<Rightarrow> None | c # s \<Rightarrow>
     if c = dquote then map_option (unquote \<circ> fst) (scan_string s) else if c = CHR ''n'' then Some old else None)"

text \<open>\<open>json.Unmarshal\<close> into a struct whose fields \<open>store\<close> writes.\<close>

definition unmarshal_struct :: "(string \<Rightarrow> string \<Rightarrow> 'a \<Rightarrow> 'a option) \<Rightarrow> 'a \<Rightarrow> string \<Rightarrow> 'a option" where
  "unmarshal_struct store zero s =
     (if \<not> json_valid s then None
      else case skip_space s of [] \<Rightarrow> None | c # s1 \<Rightarrow>
        if c = CHR ''n'' then Some zero
        else if c \<noteq> CHR ''{'' then None
        else case scan_container (scan_member (scan_value (max_nesting - 1))) (CHR ''}'') s1 of None \<Rightarrow> None
          | Some (ms, _) \<Rightarrow> foldl (\<lambda>acc (k, raw). Option.bind acc (store k raw)) (Some zero) ms)"

section \<open>Encoding\<close>

definition hex_digit :: "nat \<Rightarrow> char" where
  "hex_digit d = char_of (if d < 10 then 0x30 + d else 0x57 + d)"

definition u_escape :: "nat \<Rightarrow> string" where
  "u_escape n = [backslash, CHR ''u''] @ map hex_digit [n div 4096 mod 16, n div 256 mod 16, n div 16 mod 16, n mod 16]"

definition escape_byte :: "char \<Rightarrow> string" where
  "escape_byte c =
     (if c = dquote \<or> c = backslash then [backslash, c]
      else if c = CHR 0x08 then [backslash, CHR ''b''] else if c = CHR 0x0C then [backslash, CHR ''f'']
      else if c = CHR 0x0A then [backslash, CHR ''n''] else if c = CHR 0x0D then [backslash, CHR ''r'']
      else if c = CHR 0x09 then [backslash, CHR ''t'']
      else if byte_val c < 0x20 \<or> c \<in> {CHR ''<'', CHR ''>'', CHR ''&''} then u_escape (byte_val c)
      else [c])"

text \<open>The inside of a string literal, with the escapes for HTML that \<open>json.Marshal\<close> makes.\<close>

function quote_string :: "string \<Rightarrow> string" where
  "quote_string [] = []"
| "quote_string (c # s) =
     (if byte_val c < 0x80 then escape_byte c @ quote_string s
      else let k = rune_width (c # s); r = take k (c # s)
        in if k = 0 then u_escape 0xFFFD @ quote_string s
           else (if r = encode_rune 0x2028 \<or> r = encode_rune 0x2029 then u_escape (if r = encode_rune 0x2028 then 0x2028 else 0x2029) else r)
             @ quote_string (drop k (c # s)))"
  by pat_completeness auto
termination by (relation "measure length") (use rune_width_le in \<open>auto simp: less_Suc_eq_le Suc_diff_le\<close>)

definition json_string :: "string \<Rightarrow> string" where
  "json_string s = dquote # quote_string s @ [dquote]"

fun json_members :: "(string \<times> string) list \<Rightarrow> string" where
  "json_members [] = []"
| "json_members [(k, raw)] = json_string k @ CHR '':'' # raw"
| "json_members ((k, raw) # m # ms) = json_string k @ CHR '':'' # raw @ CHR '','' # json_members (m # ms)"

text \<open>An object with the given texts as values.\<close>

definition json_object :: "(string \<times> string) list \<Rightarrow> string" where
  "json_object ms = CHR ''{'' # json_members ms @ [CHR ''}'']"

text \<open>
  What \<open>json.Marshal\<close> does to the text of a \<open>json.RawMessage\<close>: white space outside literals goes, and the characters that
  could end a script element are escaped.
\<close>

function compact :: "bool \<Rightarrow> string \<Rightarrow> string" where
  "compact lit [] = []"
| "compact False (c # s) = (if json_space c then compact False s else c # compact (c = dquote) s)"
| "compact True (c # s) =
     (if c = dquote then c # compact False s
      else if c = backslash then c # take 1 s @ compact True (drop 1 s)
      else if c \<in> {CHR ''<'', CHR ''>'', CHR ''&''} then u_escape (byte_val c) @ compact True s
      else if take 3 (c # s) = encode_rune 0x2028 then u_escape 0x2028 @ compact True (drop 2 s)
      else if take 3 (c # s) = encode_rune 0x2029 then u_escape 0x2029 @ compact True (drop 2 s)
      else c # compact True s)"
  by pat_completeness auto
termination by (relation "measure (\<lambda>(_, s). length s)") auto

definition marshal_raw :: "string \<Rightarrow> string option" where
  "marshal_raw s = (if s = [] then Some ''null'' else if json_valid s then Some (compact False s) else None)"

declare compact.simps(3) [simp del]

end
