(* ===== verification/Json_Facts.thy ===== *)
theory Json_Facts
  imports Json
begin

text \<open>
  What the JSON scanner and decoder of \<open>Json\<close> guarantee: a scan consumes text and reads the same whatever follows
  (\<open>open_ended\<close>); literals and objects the encoder writes are read back.
\<close>

section \<open>What a scan consumes\<close>

lemma dropWhile_ext: "dropWhile P s \<noteq> [] \<or> t = [] \<or> \<not> P (hd t) \<Longrightarrow> dropWhile P (s @ t) = dropWhile P s @ t"
  by (induction s) (cases t, auto)

lemma skip_space_ext: "skip_space s = c # r \<Longrightarrow> skip_space (s @ t) = c # r @ t"
  by (simp add: skip_space_def dropWhile_ext)

lemma skip_space_le: "length (skip_space s) \<le> length s"
  by (simp add: skip_space_def length_dropWhile_le)

lemma suffix_dropWhile: "suffix (dropWhile P s) s"
  by (metis suffixI takeWhile_dropWhile_id)

lemma skip_space_shorter: "skip_space s = c # r \<Longrightarrow> length r < length s"
  using skip_space_le [of s] by simp

lemma scan_string_shorter: "scan_string s = Some (us, r) \<Longrightarrow> length r < length s"
  by (induction s arbitrary: us r rule: scan_string.induct)
    (force split: if_splits option.splits list.splits)+

lemma hex4_length: "hex4 (take 4 s) = Some n \<Longrightarrow> 4 \<le> length s"
proof (rule ccontr)
  assume h: "hex4 (take 4 s) = Some n" and "\<not> 4 \<le> length s"
  then have "length (take 4 s) < 4" by simp
  with h show False by (cases "take 4 s" rule: hex4.cases) auto
qed

lemma scan_string_ext: "scan_string s = Some (us, r) \<Longrightarrow> scan_string (s @ t) = Some (us, r @ t)"
proof (induction s arbitrary: us r rule: scan_string.induct)
  case (2 c s)
  show ?case
  proof (cases "c = backslash")
    case True
    then obtain e s' where s: "s = e # s'" using 2(4) by (cases s) (auto split: if_splits)
    show ?thesis
    proof (cases "e = CHR ''u''")
      case u: True
      with True s 2(4) obtain n where n: "hex4 (take 4 s') = Some n" by (auto split: option.splits)
      then have "4 \<le> length s'" by (rule hex4_length)
      with u True s n 2 show ?thesis by fastforce
    next
      case False
      with True s 2 show ?thesis by (force split: option.splits)
    qed
  next
    case False
    with 2 show ?thesis by (auto split: if_splits)
  qed
qed simp

text \<open>What can follow a number without becoming a part of it.\<close>

definition ends_number :: "string \<Rightarrow> bool" where
  "ends_number t \<longleftrightarrow> t = [] \<or> \<not> is_digit (hd t) \<and> hd t \<notin> {CHR ''.'', CHR ''e'', CHR ''E''}"

lemma ends_number_simps [simp]:
  "ends_number []" "ends_number (CHR '','' # t)" "ends_number (CHR ''}'' # t)" "ends_number (CHR '']'' # t)"
  by (simp_all add: ends_number_def is_digit_def)

lemma digits_ext: "dropWhile is_digit s \<noteq> [] \<or> ends_number t \<Longrightarrow> dropWhile is_digit (s @ t) = dropWhile is_digit s @ t"
  by (intro dropWhile_ext) (auto simp: ends_number_def)

lemma skip_one_ext: "s \<noteq> [] \<Longrightarrow> skip_one cs (s @ t) = skip_one cs s @ t"
  by (simp add: skip_one_def)

lemma skip_one_le: "length (skip_one cs s) \<le> length s"
  by (simp add: skip_one_def)

lemma scan_digits_shorter: "scan_digits s = Some r \<Longrightarrow> length r < length s"
  using length_dropWhile_le [of is_digit "tl s"] by (cases s) (auto simp: scan_digits_def split: if_splits)

lemma scan_digits_ext: "scan_digits s = Some r \<Longrightarrow> r \<noteq> [] \<or> ends_number t \<Longrightarrow> scan_digits (s @ t) = Some (r @ t)"
  by (auto simp: scan_digits_def digits_ext split: if_splits)

lemma scan_digits_skip_ext:
  assumes "scan_digits (skip_one cs s) = Some r" and "r \<noteq> [] \<or> ends_number t"
  shows "scan_digits (skip_one cs (s @ t)) = Some (r @ t)"
proof -
  have "s \<noteq> []" using assms(1) by (auto simp: skip_one_def scan_digits_def)
  with assms show ?thesis by (simp add: skip_one_ext scan_digits_ext)
qed

lemma scan_exponent_shorter: "scan_exponent s = Some r \<Longrightarrow> length r \<le> length s"
  using skip_one_le [of "{CHR ''+'', CHR ''-''}" "tl s"] by (auto simp: scan_exponent_def split: if_splits dest: scan_digits_shorter)

lemma scan_fraction_shorter: "scan_fraction s = Some r \<Longrightarrow> length r \<le> length s"
  by (fastforce simp: scan_fraction_def bind_eq_Some_conv split: if_splits dest: scan_digits_shorter scan_exponent_shorter)

lemma scan_number_shorter: "scan_number s = Some r \<Longrightarrow> length r < length s"
  using skip_one_le [of "{CHR ''-''}" s]
  by (fastforce simp: scan_number_def Let_def bind_eq_Some_conv neq_Nil_conv split: if_splits dest: scan_digits_shorter scan_fraction_shorter)

lemma scan_exponent_ext: "scan_exponent s = Some r \<Longrightarrow> r \<noteq> [] \<or> ends_number t \<Longrightarrow> scan_exponent (s @ t) = Some (r @ t)"
  by (cases s) (auto simp: scan_exponent_def scan_digits_skip_ext ends_number_def split: if_splits)

lemma scan_fraction_ext: "scan_fraction s = Some r \<Longrightarrow> r \<noteq> [] \<or> ends_number t \<Longrightarrow> scan_fraction (s @ t) = Some (r @ t)"
proof (cases "s \<noteq> [] \<and> hd s = CHR ''.''")
  case True
  moreover assume f: "scan_fraction s = Some r" and t: "r \<noteq> [] \<or> ends_number t"
  ultimately obtain r1 where r1: "scan_digits (tl s) = Some r1" "scan_exponent r1 = Some r" by (auto simp: scan_fraction_def bind_eq_Some_conv)
  then have "r1 \<noteq> [] \<or> ends_number t" using t scan_exponent_shorter [OF r1(2)] by fastforce
  with True r1 t show ?thesis by (simp add: scan_fraction_def scan_digits_ext scan_exponent_ext)
next
  case False
  assume f: "scan_fraction s = Some r" and t: "r \<noteq> [] \<or> ends_number t"
  from False f have e: "scan_exponent s = Some r" by (auto simp: scan_fraction_def)
  with t have "s = [] \<Longrightarrow> ends_number t" by (simp add: scan_exponent_def)
  with False have "\<not> (s @ t \<noteq> [] \<and> hd (s @ t) = CHR ''.'')" by (cases s) (auto simp: ends_number_def)
  with scan_exponent_ext [OF e t] show ?thesis by (auto simp: scan_fraction_def)
qed

lemma scan_number_ext:
  assumes "scan_number s = Some r" and "r \<noteq> [] \<or> ends_number t"
  shows "scan_number (s @ t) = Some (r @ t)"
proof -
  let ?s = "skip_one {CHR ''-''} s"
  have s: "?s \<noteq> []" using assms(1) by (auto simp: scan_number_def scan_digits_def Let_def bind_eq_Some_conv)
  then have e: "skip_one {CHR ''-''} (s @ t) = ?s @ t" by (cases s) (auto simp: skip_one_def)
  show ?thesis
  proof (cases "hd ?s = CHR ''0''")
    case True
    with assms s e show ?thesis by (simp add: scan_number_def scan_fraction_ext)
  next
    case False
    with assms(1) s obtain r1 where r1: "scan_digits ?s = Some r1" "scan_fraction r1 = Some r"
      by (auto simp: scan_number_def Let_def bind_eq_Some_conv)
    then have "r1 \<noteq> [] \<or> ends_number t" using assms(2) scan_fraction_shorter [OF r1(2)] by fastforce
    with False r1 assms(2) s e show ?thesis by (simp add: scan_number_def scan_digits_ext scan_fraction_ext)
  qed
qed

text \<open>A parser that consumes text, and reads the same when text follows that cannot belong to it.\<close>

definition consumes :: "(string \<Rightarrow> ('a \<times> string) option) \<Rightarrow> bool" where
  "consumes f \<longleftrightarrow> (\<forall>s x r. f s = Some (x, r) \<longrightarrow> length r < length s)"

definition open_ended :: "(string \<Rightarrow> ('a \<times> string) option) \<Rightarrow> bool" where
  "open_ended f \<longleftrightarrow> (\<forall>s x r t. f s = Some (x, r) \<longrightarrow> r \<noteq> [] \<or> ends_number t \<longrightarrow> f (s @ t) = Some (x, r @ t))"

abbreviation scan_only :: "(string \<Rightarrow> string option) \<Rightarrow> string \<Rightarrow> (unit \<times> string) option" where
  "scan_only val s \<equiv> map_option (Pair ()) (val s)"

lemma scan_scalar_shorter: "scan_scalar s = Some r \<Longrightarrow> length r < length s"
  by (auto simp: scan_scalar_def scan_word_def less_Suc_eq_le split: list.splits if_splits dest: scan_string_shorter scan_number_shorter)

lemma scan_word_ext: "scan_word word s = Some r \<Longrightarrow> scan_word word (s @ t) = Some (r @ t)"
proof -
  assume "scan_word word s = Some r"
  then have w: "take (length word) s = word" and r: "r = drop (length word) s" by (auto simp: scan_word_def split: if_splits)
  from w have "length word \<le> length s" by (metis length_take min.cobounded1)
  with w r show ?thesis by (simp add: scan_word_def)
qed

lemma scan_scalar_ext: "scan_scalar s = Some r \<Longrightarrow> r \<noteq> [] \<or> ends_number t \<Longrightarrow> scan_scalar (s @ t) = Some (r @ t)"
  using scan_number_ext [of s r t]
  by (auto simp: scan_scalar_def split: list.splits if_splits dest: scan_string_ext [where t = t] scan_word_ext [where t = t])

lemma scan_items_shorter: "scan_items item close s = Some (xs, r) \<Longrightarrow> consumes item \<Longrightarrow> length r < length s"
proof (induction item close s arbitrary: xs r rule: scan_items.induct)
  case (1 item close s)
  obtain x s1 c s2 where i: "item s = Some (x, s1)" "skip_space s1 = c # s2"
    using 1(2) by (subst (asm) scan_items.simps) (auto split: option.splits list.splits)
  then have l: "length s2 < length s" using 1(3) skip_space_shorter [OF i(2)] by (fastforce simp: consumes_def)
  show ?case
  proof (cases "c = close")
    case True
    with 1(2) i l show ?thesis by (subst (asm) scan_items.simps) simp
  next
    case False
    with 1(2) i obtain ys where "c = CHR '',''" "scan_items item close s2 = Some (ys, r)"
      by (subst (asm) scan_items.simps) (auto split: if_splits)
    with 1(1) [OF i(1) refl i(2) False] 1(3) l show ?thesis by fastforce
  qed
qed

lemma scan_items_ext:
  "scan_items item close s = Some (xs, r) \<Longrightarrow> open_ended item \<Longrightarrow> scan_items item close (s @ t) = Some (xs, r @ t)"
proof (induction item close s arbitrary: xs r rule: scan_items.induct)
  case (1 item close s)
  obtain x s1 c s2 where i: "item s = Some (x, s1)" "skip_space s1 = c # s2"
    using 1(2) by (subst (asm) scan_items.simps) (auto split: option.splits list.splits)
  have "s1 \<noteq> []" using i(2) by (auto simp: skip_space_def)
  with 1(3) i have e: "item (s @ t) = Some (x, s1 @ t)" "skip_space (s1 @ t) = c # s2 @ t"
    by (simp_all add: open_ended_def skip_space_ext)
  show ?case
  proof (cases "c = close")
    case True
    with 1(2) i e show ?thesis by (subst (asm) scan_items.simps, subst scan_items.simps) simp
  next
    case False
    with 1(2) i obtain ys where y: "c = CHR '',''" "length s2 < length s" "scan_items item close s2 = Some (ys, r)" "xs = x # ys"
      by (subst (asm) scan_items.simps) (auto split: if_splits)
    with 1(1) [OF i(1) refl i(2) False _ y(3) 1(3)] i e False show ?thesis by (subst scan_items.simps) simp
  qed
qed

lemma scan_container_shorter: "scan_container item close s = Some (xs, r) \<Longrightarrow> consumes item \<Longrightarrow> length r < length s"
  using scan_items_shorter [of item close s xs r] skip_space_shorter [of s]
  by (auto simp: scan_container_def split: list.splits if_splits)

lemma scan_container_ext:
  "scan_container item close s = Some (xs, r) \<Longrightarrow> open_ended item \<Longrightarrow> scan_container item close (s @ t) = Some (xs, r @ t)"
  using scan_items_ext [of item close s xs r t] skip_space_ext [of s]
  by (auto simp: scan_container_def split: list.splits if_splits)

lemma consumes_element: "consumes (scan_only val) \<Longrightarrow> consumes (scan_element val)"
  by (auto simp: consumes_def scan_element_def) (meson less_le_trans skip_space_le)

lemma open_ended_element: "open_ended (scan_only val) \<Longrightarrow> val [] = None \<Longrightarrow> open_ended (scan_element val)"
  unfolding open_ended_def scan_element_def
proof (intro allI impI)
  fix s r t and x :: unit
  assume e: "\<forall>s x r t. scan_only val s = Some (x, r) \<longrightarrow> r \<noteq> [] \<or> ends_number t \<longrightarrow> scan_only val (s @ t) = Some (x, r @ t)"
    and n: "val [] = None" and v: "scan_only val (skip_space s) = Some (x, r)" and t: "r \<noteq> [] \<or> ends_number t"
  from v n have "skip_space s \<noteq> []" by auto
  then have "skip_space (s @ t) = skip_space s @ t" by (simp add: skip_space_def dropWhile_ext)
  with e v t show "scan_only val (skip_space (s @ t)) = Some (x, r @ t)" by metis
qed

lemma scan_member_Some:
  assumes "scan_member val s = Some ((k, raw), r)"
  obtains s1 us s2 s3 where "skip_space s = dquote # s1" "scan_string s1 = Some (us, s2)" "skip_space s2 = CHR '':'' # s3"
    "val (skip_space s3) = Some r" "k = unquote us" "raw = take (length (skip_space s3) - length r) (skip_space s3)"
  using assms by (auto simp: scan_member_def Let_def split: list.splits option.splits if_splits intro: that)

lemma consumes_member: "consumes (scan_only val) \<Longrightarrow> consumes (scan_member val)"
  unfolding consumes_def
proof (intro allI impI)
  fix s r and x :: "string \<times> string"
  assume v: "\<forall>s x r. scan_only val s = Some (x, r) \<longrightarrow> length r < length s" and m: "scan_member val s = Some (x, r)"
  obtain k raw where "x = (k, raw)" by force
  from m [unfolded this] show "length r < length s"
  proof (cases rule: scan_member_Some)
    case (1 s1 us s2 s3)
    have "length r < length (skip_space s3)" using v 1(4) by auto
    with scan_string_shorter [OF 1(2)] skip_space_shorter [OF 1(1)] skip_space_shorter [OF 1(3)] skip_space_le [of s3]
    show ?thesis by simp
  qed
qed

lemma open_ended_member: "open_ended (scan_only val) \<Longrightarrow> consumes (scan_only val) \<Longrightarrow> val [] = None \<Longrightarrow> open_ended (scan_member val)"
proof -
  assume e: "open_ended (scan_only val)" and sh: "consumes (scan_only val)" and n: "val [] = None"
  have "scan_member val (s @ t) = Some ((k, raw), r @ t)" if m: "scan_member val s = Some ((k, raw), r)" and t: "r \<noteq> [] \<or> ends_number t" for s k raw r t
    using m
  proof (cases rule: scan_member_Some)
    case (1 s1 us s2 s3)
    have "skip_space s3 \<noteq> []" using 1(4) n by auto
    then have s3: "skip_space (s3 @ t) = skip_space s3 @ t" by (simp add: skip_space_def dropWhile_ext)
    have "val (skip_space s3 @ t) = Some (r @ t)" "length r < length (skip_space s3)" using e sh t 1(4) by (auto simp: open_ended_def consumes_def)
    with 1 s3 show ?thesis
      by (simp add: scan_member_def skip_space_ext [OF 1(1)] skip_space_ext [OF 1(3)] scan_string_ext [OF 1(2)] Let_def)
  qed
  then show ?thesis by (auto simp: open_ended_def)
qed

lemma scan_value_Nil [simp]: "scan_value n [] = None"
  by (cases n) simp_all

lemma scan_value_facts: "consumes (scan_only (scan_value n)) \<and> open_ended (scan_only (scan_value n))"
proof (induction n)
  case 0
  have "length r < length s" if "scan_value 0 s = Some r" for s r
    using that by (cases s) (auto split: if_splits dest: scan_scalar_shorter)
  moreover have "scan_value 0 (s @ t) = Some (r @ t)" if "scan_value 0 s = Some r" "r \<noteq> [] \<or> ends_number t" for s r t
    using that scan_scalar_ext [of s r t] by (cases s) (auto split: if_splits)
  ultimately show ?case by (auto simp: consumes_def open_ended_def)
next
  case (Suc n)
  note items = consumes_element [of "scan_value n"] consumes_member [of "scan_value n"] open_ended_element [of "scan_value n"] open_ended_member [of "scan_value n"]
  with Suc have i: "consumes (scan_element (scan_value n))" "consumes (scan_member (scan_value n))"
    "open_ended (scan_element (scan_value n))" "open_ended (scan_member (scan_value n))" by auto
  have "length r < length s" if "scan_value (Suc n) s = Some r" for s r
    using that i scan_scalar_shorter by (fastforce split: list.splits if_splits dest: scan_container_shorter)
  moreover have "scan_value (Suc n) (s @ t) = Some (r @ t)" if "scan_value (Suc n) s = Some r" "r \<noteq> [] \<or> ends_number t" for s r t
    using that i scan_scalar_ext [of s r t] by (cases s) (auto split: if_splits simp: scan_container_ext)
  ultimately show ?case by (auto simp: consumes_def open_ended_def)
qed

lemma scan_value_shorter: "scan_value n s = Some r \<Longrightarrow> length r < length s"
  using scan_value_facts [of n] by (auto simp: consumes_def)

lemma scan_value_ext: "scan_value n s = Some r \<Longrightarrow> r \<noteq> [] \<or> ends_number t \<Longrightarrow> scan_value n (s @ t) = Some (r @ t)"
  using scan_value_facts [of n] by (auto simp: open_ended_def)

section \<open>Literals are read back\<close>

lemma encode_error: "encode_rune 0xFFFD = rune_error"
  by (simp add: encode_rune_def rune_error_def char_of_eq_iff)

lemma rune_width_ascii: "byte_val c < 0x80 \<Longrightarrow> rune_width (c # s) = 1"
  by (simp add: rune_width_def)

lemma rune_width_cases:
  assumes "rune_width s = k" and "0 < k"
  obtains b bs where "k = 1" "s = b # bs" "byte_val b < 0x80"
  | b c bs where "k = 2" "s = b # c # bs" "\<not> byte_val b < 0x80" "within 0xC2 0xDF b" "within 0x80 0xBF c"
  | b c d bs where "k = 3" "s = b # c # d # bs" "\<not> byte_val b < 0x80" "\<not> within 0xC2 0xDF b" "within 0xE0 0xEF b"
      "within (if byte_val b = 0xE0 then 0xA0 else 0x80) (if byte_val b = 0xED then 0x9F else 0xBF) c" "within 0x80 0xBF c" "within 0x80 0xBF d"
  | b c d e bs where "k = 4" "s = b # c # d # e # bs" "\<not> byte_val b < 0x80" "\<not> within 0xC2 0xDF b" "\<not> within 0xE0 0xEF b" "within 0xF0 0xF4 b"
      "within (if byte_val b = 0xF0 then 0x90 else 0x80) (if byte_val b = 0xF4 then 0x8F else 0xBF) c"
      "within 0x80 0xBF c" "within 0x80 0xBF d" "within 0x80 0xBF e"
proof -
  obtain b bs where s: "s = b # bs" using assms by (cases s) (auto simp: rune_width_def)
  note that = that [of b, unfolded s]
  consider "byte_val b < 0x80" | "\<not> byte_val b < 0x80" "within 0xC2 0xDF b" | "\<not> byte_val b < 0x80" "\<not> within 0xC2 0xDF b" "within 0xE0 0xEF b"
    | "\<not> byte_val b < 0x80" "\<not> within 0xC2 0xDF b" "\<not> within 0xE0 0xEF b" "within 0xF0 0xF4 b"
    using assms s by (auto simp: rune_width_def split: if_splits)
  then show thesis
  proof cases
    case 1
    with assms s show ?thesis by (intro that(1)) (simp_all add: rune_width_def)
  next
    case 2
    with assms s obtain c cs where "bs = c # cs" "within 0x80 0xBF c" "k = 2" by (auto simp: rune_width_def split: list.splits if_splits)
    with 2 show ?thesis by (intro that(2)) simp_all
  next
    case 3
    with assms s obtain c d cs where x: "bs = c # d # cs" "within 0x80 0xBF d" "k = 3"
      "within (if byte_val b = 0xE0 then 0xA0 else 0x80) (if byte_val b = 0xED then 0x9F else 0xBF) c"
      by (simp add: rune_width_def split: list.splits if_split_asm)
    then have "within 0x80 0xBF c" by (simp add: within_def split: if_splits)
    with 3 x show ?thesis by (intro that(3) [of c d cs]) simp_all
  next
    case 4
    with assms s obtain c d e cs where x: "bs = c # d # e # cs" "within 0x80 0xBF d" "within 0x80 0xBF e" "k = 4"
      "within (if byte_val b = 0xF0 then 0x90 else 0x80) (if byte_val b = 0xF4 then 0x8F else 0xBF) c"
      by (simp add: rune_width_def split: list.splits if_split_asm)
    then have "within 0x80 0xBF c" by (simp add: within_def split: if_splits)
    with 4 x show ?thesis by (intro that(4) [of c d e cs]) simp_all
  qed
qed

lemma ascii_utf8 [simp]: "\<forall>c \<in> set s. byte_val c < 0x80 \<Longrightarrow> valid_utf8 s"
  by (induction s) (simp_all add: valid_utf8.simps(2) rune_width_ascii)

lemma rune_width_take: "rune_width s = k \<Longrightarrow> 0 < k \<Longrightarrow> rune_width (take k s @ t) = k"
  by (elim rune_width_cases; simp) (simp_all add: rune_width_def)

lemma rune_bytes_high:
  assumes "rune_width (c # s) = k" and "0x80 \<le> byte_val c" and "d \<in> set (take k (c # s))"
  shows "0x80 \<le> byte_val d"
proof -
  have "0 < k" using assms(3) by (cases k) simp_all
  with assms(1) show ?thesis by (rule rune_width_cases) (use assms(2,3) in \<open>auto simp: within_def\<close>)
qed

lemma unquote_run: "unquote us = fix_utf8 (map the_byte (takeWhile is_byte us)) @ unquote (dropWhile is_byte us)"
proof (cases us)
  case (Cons u us')
  then show ?thesis by (cases u) (simp_all)
qed simp

lemma unquote_bytes: "unquote (map Byte bs @ us) = fix_utf8 (bs @ map the_byte (takeWhile is_byte us)) @ unquote (dropWhile is_byte us)"
proof (cases bs)
  case (Cons c cs)
  then show ?thesis by (simp add: takeWhile_append dropWhile_append comp_def)
qed (simp add: unquote_run [of us])

lemma fix_utf8_Nil: "fix_utf8 s = [] \<longleftrightarrow> s = []"
  by (cases s) (simp_all add: fix_utf8.simps(2) rune_error_def Let_def)

lemma fix_utf8_rune: "rune_width r = length r \<Longrightarrow> r \<noteq> [] \<Longrightarrow> fix_utf8 (r @ s) = r @ fix_utf8 s"
proof -
  assume r: "rune_width r = length r" "r \<noteq> []"
  then have "rune_width (r @ s) = length r" using rune_width_take [of r "length r" s] by simp
  with r show ?thesis by (cases r) (simp_all add: fix_utf8.simps(2) Let_def)
qed

lemma unquote_rune: "rune_width r = length r \<Longrightarrow> r \<noteq> [] \<Longrightarrow> unquote (map Byte r @ us) = r @ unquote us"
  by (simp add: unquote_bytes fix_utf8_rune unquote_run [of us])

lemma unquote_ascii: "byte_val c < 0x80 \<Longrightarrow> unquote (Byte c # us) = c # unquote us"
  using unquote_rune [of "[c]" us] by (simp add: rune_width_ascii)

lemma hex_val_digit: "d < 16 \<Longrightarrow> hex_val (hex_digit d) = Some d"
  by (auto simp: hex_val_def hex_digit_def within_def)

lemma scan_hex:
  assumes "a < 16" and "b < 16" and "c < 16" and "d < 16"
  shows "scan_string (([backslash, CHR ''u''] @ map hex_digit [a, b, c, d]) @ s)
    = map_option (apfst (Cons (Code (((a * 16 + b) * 16 + c) * 16 + d)))) (scan_string s)"
  using assms by (simp add: hex_val_digit)

lemma scan_u_escape:
  assumes "n < 65536"
  shows "scan_string (u_escape n @ s) = map_option (apfst (Cons (Code n))) (scan_string s)"
proof -
  have "((n div 4096 mod 16 * 16 + n div 256 mod 16) * 16 + n div 16 mod 16) * 16 + n mod 16 = n"
    using assms div_mult_mod_eq [of n 16] div_mult_mod_eq [of "n div 16" 16] div_mult_mod_eq [of "n div 256" 16]
    by (simp add: div_mult2_eq [of n 16 16, simplified] div_mult2_eq [of n 256 16, simplified])
  with scan_hex [of "n div 4096 mod 16" "n div 256 mod 16" "n div 16 mod 16" "n mod 16" s] show ?thesis by (simp only: u_escape_def pos_mod_bound)
qed

lemma scan_plain: "\<lbrakk>c \<noteq> dquote; c \<noteq> backslash; 0x20 \<le> byte_val c\<rbrakk> \<Longrightarrow> scan_string (c # s) = map_option (apfst (Cons (Byte c))) (scan_string s)"
  by simp

lemma scan_high: "\<forall>c \<in> set bs. 0x80 \<le> byte_val c \<Longrightarrow> scan_string (bs @ s) = map_option (apfst (append (map Byte bs))) (scan_string s)"
proof (induction bs)
  case (Cons c bs)
  then have "c \<noteq> dquote" "c \<noteq> backslash" by auto
  with Cons show ?case by (cases "scan_string s") (simp_all add: scan_plain apfst_def map_prod_def split_beta del: scan_string.simps)
qed (cases "scan_string s"; simp add: apfst_def map_prod_def)

lemma scan_escape_byte:
  assumes "byte_val c < 0x80"
  obtains u where "\<And>s. scan_string (escape_byte c @ s) = map_option (apfst (Cons u)) (scan_string s)" "\<And>us. unquote (u # us) = c # unquote us"
proof -
  let ?simple = "c \<in> {dquote, backslash, CHR 0x08, CHR 0x0C, CHR 0x0A, CHR 0x0D, CHR 0x09}"
  consider ?simple | "escape_byte c = u_escape (byte_val c)" | "escape_byte c = [c]" "c \<noteq> dquote" "c \<noteq> backslash" "0x20 \<le> byte_val c"
  proof (cases "?simple \<or> byte_val c < 0x20 \<or> c \<in> {CHR ''<'', CHR ''>'', CHR ''&''}")
    case True
    show thesis
    proof (cases ?simple)
      case False
      with True have "escape_byte c = u_escape (byte_val c)" by (auto simp: escape_byte_def)
      with that(2) show thesis .
    qed (rule that(1))
  next
    case False
    then have "escape_byte c = [c]" "c \<noteq> dquote" "c \<noteq> backslash" "0x20 \<le> byte_val c" by (simp_all add: escape_byte_def)
    with that(3) show thesis .
  qed
  then show thesis
  proof cases
    case 1
    then show ?thesis by (intro that [of "Byte c"] unquote_ascii assms) (auto simp: escape_byte_def simple_escape_def)
  next
    case 2
    show ?thesis
      by (rule that [of "Code (byte_val c)"]) (use assms in \<open>simp_all add: 2 scan_u_escape encode_rune_def\<close>)
  next
    case 3
    show ?thesis by (rule that [of "Byte c"]) (use 3 assms in \<open>simp_all add: unquote_ascii del: unquote.simps(2)\<close>)
  qed
qed

lemma quote_string_back: "\<exists>us. scan_string (quote_string s @ dquote # t) = Some (us, t) \<and> unquote us = fix_utf8 s"
proof (induction s rule: quote_string.induct)
  case (2 c s)
  show ?case
  proof (cases "byte_val c < 0x80")
    case True
    with 2(1) obtain us where "scan_string (quote_string s @ dquote # t) = Some (us, t)" "unquote us = fix_utf8 s" by blast
    moreover obtain u where "\<And>s. scan_string (escape_byte c @ s) = map_option (apfst (Cons u)) (scan_string s)" "\<And>us. unquote (u # us) = c # unquote us"
      by (rule scan_escape_byte [OF True]) (rule that)
    ultimately show ?thesis using True by (simp add: fix_utf8.simps(2) rune_width_ascii)
  next
    case False
    let ?k = "rune_width (c # s)" and ?r = "take (rune_width (c # s)) (c # s)"
    show ?thesis
    proof (cases "?k = 0")
      case True
      with False 2(2) obtain us where "scan_string (quote_string s @ dquote # t) = Some (us, t)" "unquote us = fix_utf8 s" by auto
      with False True show ?thesis by (simp add: fix_utf8.simps(2) scan_u_escape encode_error)
    next
      case k: False
      with False 2(3) obtain us where us: "scan_string (quote_string (drop ?k (c # s)) @ dquote # t) = Some (us, t)"
        "unquote us = fix_utf8 (drop ?k (c # s))" by auto
      have fx: "fix_utf8 (c # s) = ?r @ fix_utf8 (drop ?k (c # s))" using k by (simp add: fix_utf8.simps(2) Let_def)
      have r: "rune_width ?r = length ?r" "?r \<noteq> []"
        using k rune_width_take [of "c # s" ?k "[]"] rune_width_le [of "c # s"] by simp_all
      show ?thesis
      proof (cases "?r = encode_rune 0x2028 \<or> ?r = encode_rune 0x2029")
        case True
        with False k us fx show ?thesis by (auto simp: Let_def scan_u_escape)
      next
        case ordinary: False
        have "scan_string (?r @ x) = map_option (apfst (append (map Byte ?r))) (scan_string x)" for x
          by (rule scan_high) (use False rune_bytes_high [of c s "rune_width (c # s)"] in auto)
        with False k us fx ordinary unquote_rune [OF r] show ?thesis by (simp add: Let_def)
      qed
    qed
  qed
qed simp

section \<open>Objects are read back\<close>

text \<open>A value, and nothing else, in a text: within the given levels of nesting.\<close>

definition json_value :: "nat \<Rightarrow> string \<Rightarrow> bool" where
  "json_value n s \<longleftrightarrow> scan_value n s = Some []"

lemma json_value_start:
  assumes "json_value n s"
  shows "skip_space (s @ t) = s @ t"
proof -
  obtain c s1 where s: "s = c # s1" using assms by (cases s) (auto simp: json_value_def)
  have "\<not> json_space c"
  proof
    assume "json_space c"
    then have "scan_scalar s = None \<and> c \<noteq> CHR ''{'' \<and> c \<noteq> CHR ''[''" unfolding json_space_def
      by (elim insertE emptyE) (simp_all add: s scan_scalar_def scan_number_def scan_digits_def skip_one_def is_digit_def)
    with assms show False by (cases n) (simp_all add: json_value_def s)
  qed
  with s show ?thesis by (simp add: skip_space_def)
qed

lemma scan_json_string: "\<exists>us. scan_string (quote_string s @ dquote # t) = Some (us, t) \<and> unquote us = fix_utf8 s"
  by (rule quote_string_back)

lemma scan_member_written:
  assumes "json_value n raw" and "ends_number t"
  shows "scan_member (scan_value n) (json_string k @ CHR '':'' # raw @ t) = Some ((fix_utf8 k, raw), t)"
proof -
  obtain us where us: "scan_string (quote_string k @ dquote # CHR '':'' # raw @ t) = Some (us, CHR '':'' # raw @ t)" "unquote us = fix_utf8 k"
    using scan_json_string by blast
  have "scan_value n (raw @ t) = Some t" using scan_value_ext [of n raw "[]" t] assms by (simp add: json_value_def)
  with us json_value_start [OF assms(1), of t] show ?thesis
    by (simp add: scan_member_def json_string_def skip_space_def json_space_def Let_def)
qed

lemma scan_items_written:
  assumes "ms \<noteq> []" and "\<forall>(k, raw) \<in> set ms. json_value n raw"
  shows "scan_items (scan_member (scan_value n)) (CHR ''}'') (json_members ms @ CHR ''}'' # t) = Some (map (apfst fix_utf8) ms, t)"
  using assms
proof (induction ms rule: json_members.induct)
  case (2 k raw)
  then show ?case using scan_member_written [of n raw "CHR ''}'' # t" k]
    by (subst scan_items.simps) (simp add: skip_space_def json_space_def)
next
  case (3 k raw m ms)
  then show ?case using scan_member_written [of n raw "CHR '','' # json_members (m # ms) @ CHR ''}'' # t" k]
    by (subst scan_items.simps) (simp add: skip_space_def json_space_def)
qed simp

lemma json_members_start: "ms \<noteq> [] \<Longrightarrow> \<exists>s. json_members ms = dquote # s"
  by (cases ms rule: json_members.cases) (simp_all add: json_string_def)

lemma scan_object_written:
  assumes "\<forall>(k, raw) \<in> set ms. json_value n raw"
  shows "scan_container (scan_member (scan_value n)) (CHR ''}'') (json_members ms @ CHR ''}'' # t) = Some (map (apfst fix_utf8) ms, t)"
proof (cases "ms = []")
  case False
  with json_members_start obtain s where s: "json_members ms = dquote # s" by blast
  with scan_items_written [OF False assms, of t] show ?thesis
    by (simp add: scan_container_def skip_space_def json_space_def)
qed (simp add: scan_container_def skip_space_def json_space_def)

lemma json_object_value: "\<forall>(k, raw) \<in> set ms. json_value n raw \<Longrightarrow> json_value (Suc n) (json_object ms)"
  using scan_object_written [of ms n "[]"] by (simp add: json_value_def json_object_def)

lemma json_value_valid: "json_value max_nesting s \<Longrightarrow> json_valid s"
  using json_value_start [of max_nesting s "[]"] by (simp add: json_valid_def json_value_def skip_space_def)

theorem unmarshal_written:
  assumes "\<forall>(k, raw) \<in> set ms. json_value (max_nesting - 1) raw"
  shows "unmarshal_struct store zero (json_object ms) =
     foldl (\<lambda>acc (k, raw). Option.bind acc (store k raw)) (Some zero) (map (apfst fix_utf8) ms)"
proof -
  have "Suc (max_nesting - 1) = max_nesting" by (simp add: max_nesting_def)
  then have "json_valid (json_object ms)"
    using json_value_valid json_object_value [OF assms] by metis
  with scan_object_written [OF assms, of "[]"] show ?thesis
    by (simp add: unmarshal_struct_def json_object_def skip_space_def json_space_def)
qed

text \<open>Scalars are values at every level.\<close>

lemma json_value_scalar: "scan_scalar s = Some [] \<Longrightarrow> s \<noteq> [] \<Longrightarrow> hd s \<notin> {CHR ''{'', CHR ''[''} \<Longrightarrow> json_value n s"
  by (cases n; cases s) (simp_all add: json_value_def)

lemma json_value_string: "json_value n (json_string s)"
proof (rule json_value_scalar)
  show "scan_scalar (json_string s) = Some []"
    using scan_json_string [of s "[]"] by (auto simp: scan_scalar_def json_string_def)
qed (simp_all add: json_string_def)

lemma string_field_written [simp]: "string_field (json_string s) old = Some (fix_utf8 s)"
  using scan_json_string [of s "[]"] by (auto simp: string_field_def json_string_def)

end
