(* ===== verification/Json_Content.thy ===== *)
theory Json_Content
  imports Json_Facts
begin

text \<open>
  What is in decoded and encoded JSON. A scan depends on nothing but the text it consumed (\<open>self_contained\<close>), so the texts of
  decoded values are values themselves; decoded strings are valid UTF-8; what the encoder writes is compact and not much longer than
  what it encodes.
\<close>

section \<open>What decoding keeps\<close>

text \<open>A parser whose result depends only on the text it consumes.\<close>

definition self_contained :: "(string \<Rightarrow> ('a \<times> string) option) \<Rightarrow> bool" where
  "self_contained f \<longleftrightarrow> (\<forall>s x r. f s = Some (x, r) \<longrightarrow> (\<exists>p. s = p @ r \<and> f p = Some (x, [])))"

lemma self_containedD: "self_contained f \<Longrightarrow> f s = Some (x, r) \<Longrightarrow> \<exists>p. s = p @ r \<and> f p = Some (x, [])"
  by (simp add: self_contained_def)

lemma self_contained_string: "scan_string s = Some (us, r) \<Longrightarrow> \<exists>p. s = p @ r \<and> scan_string p = Some (us, [])"
proof (induction s arbitrary: us r rule: scan_string.induct)
  case (2 c s)
  consider "c = dquote" | e s' where "c \<noteq> dquote" "c = backslash" "s = e # s'" | "c \<noteq> dquote" "c \<noteq> backslash" "\<not> byte_val c < 0x20"
    using 2(4) by (cases s) (auto split: if_splits)
  then show ?case
  proof cases
    case 1
    with 2(4) show ?thesis by (intro exI [of _ "[dquote]"]) simp
  next
    case 2
    show ?thesis
    proof (cases "e = CHR ''u''")
      case True
      with 2 "2.prems" obtain n us' where n: "hex4 (take 4 s') = Some n" "scan_string (drop 4 s') = Some (us', r)" "us = Code n # us'"
        by (auto split: option.splits)
      with "2.IH"(1) 2 True obtain p where p: "drop 4 s' = p @ r" "scan_string p = Some (us', [])" by blast
      have "s' = take 4 s' @ p @ r" using p(1) by (metis append_take_drop_id)
      moreover have "length (take 4 s') = 4" using hex4_length [OF n(1)] by simp
      ultimately show ?thesis using 2 True n p
        by (intro exI [of _ "backslash # CHR ''u'' # take 4 s' @ p"]) simp
    next
      case False
      with 2 "2.prems" obtain b us' where b: "simple_escape e = Some b" "scan_string s' = Some (us', r)" "us = Byte b # us'"
        by (auto split: option.splits)
      with "2.IH"(2) 2 False obtain p where "s' = p @ r" "scan_string p = Some (us', [])" by blast
      with 2 False b show ?thesis by (intro exI [of _ "backslash # e # p"]) simp
    qed
  next
    case 3
    with "2.prems" obtain us' where us: "scan_string s = Some (us', r)" "us = Byte c # us'" by auto
    with "2.IH"(3) 3 obtain p where "s = p @ r" "scan_string p = Some (us', [])" by blast
    with 3 us show ?thesis by (intro exI [of _ "c # p"]) simp
  qed
qed simp

lemma skip_one_cut: "skip_one cs s = p @ r \<Longrightarrow> p \<noteq> [] \<Longrightarrow> \<exists>q. s = q @ r \<and> skip_one cs q = p"
proof (cases "s \<noteq> [] \<and> hd s \<in> cs")
  case True
  moreover assume "skip_one cs s = p @ r"
  ultimately show ?thesis by (intro exI [of _ "hd s # p"]) (simp add: skip_one_def, metis list.collapse)
next
  case False
  moreover assume "skip_one cs s = p @ r" "p \<noteq> []"
  ultimately show ?thesis by (intro exI [of _ p]) (auto simp: skip_one_def hd_append)
qed

lemma cut_digits:
  assumes "scan_digits s = Some r"
  shows "\<exists>p. s = p @ r \<and> p \<noteq> [] \<and> (\<forall>t. t = [] \<or> \<not> is_digit (hd t) \<longrightarrow> scan_digits (p @ t) = Some t) \<and> (r = [] \<or> \<not> is_digit (hd r))"
proof -
  from assms obtain c s1 where s: "s = c # s1" "is_digit c" "r = dropWhile is_digit s1"
    by (cases s) (auto simp: scan_digits_def split: if_splits)
  have "dropWhile is_digit ((c # takeWhile is_digit s1) @ t) = t" if "t = [] \<or> \<not> is_digit (hd t)" for t
    using that s(2) by (cases t) (auto simp: dropWhile_append dest: set_takeWhileD)
  moreover have "r = [] \<or> \<not> is_digit (hd r)" using s(3) hd_dropWhile by blast
  ultimately show ?thesis using s
    by (intro exI [of _ "c # takeWhile is_digit s1"]) (auto simp: scan_digits_def)
qed

lemma cut_exponent: "scan_exponent s = Some r \<Longrightarrow> \<exists>p. s = p @ r \<and> scan_exponent p = Some []"
proof (cases "s \<noteq> [] \<and> hd s \<in> {CHR ''e'', CHR ''E''}")
  case True
  moreover assume "scan_exponent s = Some r"
  ultimately have "scan_digits (skip_one {CHR ''+'', CHR ''-''} (tl s)) = Some r" by (simp add: scan_exponent_def)
  from cut_digits [OF this] obtain p where p: "skip_one {CHR ''+'', CHR ''-''} (tl s) = p @ r" "p \<noteq> []" "scan_digits p = Some []" by auto
  from skip_one_cut [OF p(1,2)] obtain q where "tl s = q @ r" "skip_one {CHR ''+'', CHR ''-''} q = p" by blast
  with True p(3) show ?thesis by (intro exI [of _ "hd s # q"]) (auto simp: scan_exponent_def; metis list.collapse)
next
  case False
  moreover assume "scan_exponent s = Some r"
  ultimately show ?thesis by (intro exI [of _ "[]"]) (auto simp: scan_exponent_def)
qed

lemma exponent_start: "scan_exponent p = Some [] \<Longrightarrow> p = [] \<or> \<not> is_digit (hd p) \<and> hd p \<noteq> CHR ''.''"
  by (auto simp: scan_exponent_def is_digit_def split: if_splits)

lemma cut_fraction: "scan_fraction s = Some r \<Longrightarrow> \<exists>p. s = p @ r \<and> scan_fraction p = Some [] \<and> (p = [] \<or> \<not> is_digit (hd p))"
proof (cases "s \<noteq> [] \<and> hd s = CHR ''.''")
  case True
  moreover assume "scan_fraction s = Some r"
  ultimately obtain r1 where r1: "scan_digits (tl s) = Some r1" "scan_exponent r1 = Some r" by (auto simp: scan_fraction_def bind_eq_Some_conv)
  obtain p2 where p2: "r1 = p2 @ r" "scan_exponent p2 = Some []" using cut_exponent [OF r1(2)] by blast
  obtain p1 where p1: "tl s = p1 @ r1" "scan_digits (p1 @ p2) = Some p2" using cut_digits [OF r1(1)] exponent_start [OF p2(2)] by blast
  have "s = (CHR ''.'' # p1 @ p2) @ r" using True p1(1) p2(1) by (metis append.assoc append_Cons list.collapse)
  with p1(2) p2(2) show ?thesis by (intro exI [of _ "CHR ''.'' # p1 @ p2"]) (simp add: scan_fraction_def is_digit_def)
next
  case False
  moreover assume "scan_fraction s = Some r"
  ultimately have "scan_exponent s = Some r" by (auto simp: scan_fraction_def)
  with cut_exponent obtain p where "s = p @ r" "scan_exponent p = Some []" by blast
  with exponent_start [OF this(2)] show ?thesis by (intro exI [of _ p]) (auto simp: scan_fraction_def)
qed

lemma cut_number: "scan_number s = Some r \<Longrightarrow> \<exists>p. s = p @ r \<and> scan_number p = Some []"
proof -
  assume n: "scan_number s = Some r"
  let ?s = "skip_one {CHR ''-''} s"
  have "\<exists>p. ?s = p @ r \<and> p \<noteq> [] \<and> (if hd p = CHR ''0'' then scan_fraction (tl p) else Option.bind (scan_digits p) scan_fraction) = Some []"
  proof (cases "?s \<noteq> [] \<and> hd ?s = CHR ''0''")
    case True
    with n have "scan_fraction (tl ?s) = Some r" by (simp add: scan_number_def)
    with cut_fraction obtain p where "tl ?s = p @ r" "scan_fraction p = Some []" by blast
    with True show ?thesis by (intro exI [of _ "CHR ''0'' # p"]) (simp, metis list.collapse)
  next
    case False
    with n obtain r1 where r1: "scan_digits ?s = Some r1" "scan_fraction r1 = Some r" by (auto simp: scan_number_def Let_def bind_eq_Some_conv)
    obtain p2 where p2: "r1 = p2 @ r" "scan_fraction p2 = Some []" "p2 = [] \<or> \<not> is_digit (hd p2)" using cut_fraction [OF r1(2)] by blast
    obtain p1 where p1: "?s = p1 @ r1" "p1 \<noteq> []" "scan_digits (p1 @ p2) = Some p2" using cut_digits [OF r1(1)] p2(3) by blast
    moreover have "hd (p1 @ p2) \<noteq> CHR ''0''" using False p1 p2(1) by auto
    ultimately show ?thesis using p2 by (intro exI [of _ "p1 @ p2"]) simp
  qed
  then obtain p where p: "?s = p @ r" "p \<noteq> []"
    "(if hd p = CHR ''0'' then scan_fraction (tl p) else Option.bind (scan_digits p) scan_fraction) = Some []" by blast
  from skip_one_cut [OF p(1,2)] obtain q where "s = q @ r" "skip_one {CHR ''-''} q = p" by blast
  with p(2,3) show ?thesis by (intro exI [of _ q]) (auto simp: scan_number_def Let_def split: if_splits)
qed

lemma cut_word: "scan_word word s = Some r \<Longrightarrow> s = word @ r \<and> scan_word word word = Some []"
  by (auto simp: scan_word_def split: if_splits) (metis append_take_drop_id)

lemma cut_scalar: "scan_scalar s = Some r \<Longrightarrow> \<exists>p. s = p @ r \<and> p \<noteq> [] \<and> scan_scalar p = Some []"
proof -
  assume sc: "scan_scalar s = Some r"
  then obtain c s1 where s: "s = c # s1" by (cases s) (simp_all add: scan_scalar_def)
  show ?thesis
  proof (cases "c = dquote")
    case True
    with sc s obtain us where "scan_string s1 = Some (us, r)" by (auto simp: scan_scalar_def)
    from self_contained_string [OF this] obtain p where "s1 = p @ r" "scan_string p = Some (us, [])" by blast
    with True s show ?thesis by (intro exI [of _ "dquote # p"]) (simp add: scan_scalar_def)
  next
    case False
    let ?words = "[(CHR ''t'', ''true''), (CHR ''f'', ''false''), (CHR ''n'', ''null'')]"
    show ?thesis
    proof (cases "map_of ?words c")
      case (Some word)
      with sc s have "scan_word word s = Some r" by (auto simp: scan_scalar_def split: if_splits)
      from cut_word [OF this] Some show ?thesis by (intro exI [of _ word]) (auto simp: scan_scalar_def split: if_splits)
    next
      case None
      with False sc s have "scan_number s = Some r" by (simp add: scan_scalar_def split: if_splits)
      with cut_number obtain p where p: "s = p @ r" "scan_number p = Some []" by blast
      then have "p \<noteq> []" by (auto simp: scan_number_def skip_one_def scan_digits_def)
      with p s have "\<exists>p1. p = c # p1" by (cases p) auto
      with p False None show ?thesis by (intro exI [of _ p]) (auto simp: scan_scalar_def split: if_splits)
    qed
  qed
qed

lemma skip_space_cut: "skip_space s = c # r \<Longrightarrow> \<exists>w. s = w @ c # r \<and> skip_space w = []"
  by (intro exI [of _ "takeWhile json_space s"])
    (metis dropWhile_eq_Nil_conv set_takeWhileD skip_space_def takeWhile_dropWhile_id)

lemma skip_space_front: "skip_space w = [] \<Longrightarrow> skip_space (w @ t) = skip_space t"
  by (simp add: skip_space_def dropWhile_append)

lemma skip_space_nonspace: "\<not> json_space c \<Longrightarrow> skip_space (c # t) = c # t"
  by (simp add: skip_space_def)

lemma skip_space_hd: "skip_space s = c # r \<Longrightarrow> \<not> json_space c"
  using hd_dropWhile [of json_space s] by (auto simp: skip_space_def)

lemma skipped: "skip_space w = [] \<Longrightarrow> skip_space s = c # r \<Longrightarrow> skip_space (w @ c # t) = c # t"
  by (simp add: skip_space_front skip_space_nonspace skip_space_hd)

lemma ends_number_space: "skip_space w = [] \<Longrightarrow> c \<in> {CHR '','', CHR ''}'', CHR '']''} \<Longrightarrow> ends_number (w @ c # t)"
proof (cases w)
  case (Cons d v)
  moreover assume "skip_space w = []"
  ultimately have "json_space d" by (simp add: skip_space_def split: if_splits)
  then have "\<not> is_digit d" "d \<notin> {CHR ''.'', CHR ''e'', CHR ''E''}" by (auto simp: json_space_def is_digit_def)
  with Cons show ?thesis by (simp add: ends_number_def)
qed auto

lemma scan_items_cut:
  assumes "scan_items item close s = Some (xs, r)" and "self_contained item" and "open_ended item" and "consumes item" and "close \<in> {CHR ''}'', CHR '']''}"
  shows "\<exists>p. s = p @ r \<and> scan_items item close p = Some (xs, [])"
  using assms
proof (induction item close s arbitrary: xs r rule: scan_items.induct)
  case (1 item close s)
  obtain x s1 c s2 where i: "item s = Some (x, s1)" "skip_space s1 = c # s2" "c = close \<or> c = CHR '',''"
    using 1(2) by (subst (asm) scan_items.simps) (auto split: option.splits list.splits if_splits)
  obtain p1 where p1: "s = p1 @ s1" "item p1 = Some (x, [])" using self_containedD [OF 1(3) i(1)] by blast
  obtain w where w: "s1 = w @ c # s2" "skip_space w = []" using skip_space_cut [OF i(2)] by blast
  have item: "item (p1 @ w @ c # t) = Some (x, w @ c # t)" for t
  proof -
    have "ends_number (w @ c # t)" using w(2) i(3) 1(6) by (intro ends_number_space) auto
    with 1(4) p1(2) show ?thesis by (force simp: open_ended_def)
  qed
  have skip: "skip_space (w @ c # t) = c # t" for t by (rule skipped [OF w(2) i(2)])
  show ?case
  proof (cases "c = close")
    case True
    with 1(2) i have "xs = [x]" "r = s2" by (subst (asm) scan_items.simps, simp)+
    with p1 w True item [of "[]"] skip [of "[]"] show ?thesis
      by (intro exI [of _ "p1 @ w @ [c]"]) (simp, subst scan_items.simps, simp)
  next
    case False
    with 1(2) i obtain ys where y: "length s2 < length s" "scan_items item close s2 = Some (ys, r)" "xs = x # ys"
      by (subst (asm) scan_items.simps) (auto split: if_splits)
    have c: "c = CHR '',''" using i(3) False by simp
    with 1(1) [OF i(1) refl i(2) False _ y(2) 1(3-6)] y(1) obtain p2 where p2: "s2 = p2 @ r" "scan_items item close p2 = Some (ys, [])" by blast
    have "length p2 < length (p1 @ w @ c # p2)" by simp
    with p1 w p2 c False item [of p2] skip [of p2] y(3) show ?thesis
      by (intro exI [of _ "p1 @ w @ c # p2"]) (simp, subst scan_items.simps, simp)
  qed
qed

lemma scan_container_cut:
  assumes "scan_container item close s = Some (xs, r)" and "self_contained item" and "open_ended item" and "consumes item" and "close \<in> {CHR ''}'', CHR '']''}"
    and "\<And>s. skip_space s = [] \<Longrightarrow> item s = None"
  shows "\<exists>p. s = p @ r \<and> scan_container item close p = Some (xs, [])"
proof -
  obtain c s1 where s: "skip_space s = c # s1" using assms(1) by (auto simp: scan_container_def split: list.splits)
  show ?thesis
  proof (cases "c = close")
    case True
    obtain w where w: "s = w @ c # s1" "skip_space w = []" using skip_space_cut [OF s] by blast
    with assms(1) True s skipped [OF w(2) s, of "[]"] show ?thesis
      by (intro exI [of _ "w @ [c]"]) (auto simp: scan_container_def)
  next
    case False
    with assms(1) s have "scan_items item close s = Some (xs, r)" by (simp add: scan_container_def)
    from scan_items_cut [OF this assms(2-5)] obtain p where p: "s = p @ r" "scan_items item close p = Some (xs, [])" by blast
    have "skip_space p \<noteq> []"
    proof
      assume "skip_space p = []"
      then have "item p = None" by (rule assms(6))
      with p(2) show False by (subst (asm) scan_items.simps) simp
    qed
    then obtain d q where "skip_space p = d # q" by (cases "skip_space p") auto
    moreover from this skip_space_ext [of p d q r] s p(1) have "d = c" by simp
    ultimately show ?thesis using p False by (intro exI [of _ p]) (simp add: scan_container_def)
  qed
qed

lemma self_contained_element: "self_contained (scan_only val) \<Longrightarrow> val [] = None \<Longrightarrow> self_contained (scan_element val)"
  unfolding self_contained_def
proof (intro allI impI)
  fix s r and x :: unit
  assume c: "\<forall>s x r. scan_only val s = Some (x, r) \<longrightarrow> (\<exists>p. s = p @ r \<and> scan_only val p = Some (x, []))" and n: "val [] = None"
    and e: "scan_element val s = Some (x, r)"
  from e have v: "scan_only val (skip_space s) = Some (x, r)" by (simp add: scan_element_def)
  with c obtain p where p: "skip_space s = p @ r" "scan_only val p = Some (x, [])" by blast
  with n obtain ch q where q: "p = ch # q" by (cases p) auto
  obtain w where w: "s = w @ ch # q @ r" "skip_space w = []" using skip_space_cut [of s ch "q @ r"] p(1) q by auto
  have "skip_space (w @ p) = p" using skipped [OF w(2), of s ch "q @ r" q] p(1) q by simp
  with w p(2) q show "\<exists>p. s = p @ r \<and> scan_element val p = Some (x, [])"
    by (intro exI [of _ "w @ p"]) (simp add: scan_element_def)
qed

lemma member_cut:
  assumes "scan_member val s = Some ((k, raw), r)" and "self_contained (scan_only val)" and "open_ended (scan_only val)" and "consumes (scan_only val)" and "val [] = None"
  shows "val raw = Some [] \<and> (\<exists>p. s = p @ raw @ r \<and> scan_member val (p @ raw) = Some ((k, raw), []))"
  using assms(1)
proof (cases rule: scan_member_Some)
  case (1 s1 us s2 s3)
  let ?s4 = "skip_space s3"
  from 1(4) have "scan_only val ?s4 = Some ((), r)" by simp
  from self_containedD [OF assms(2) this] obtain p where p: "?s4 = p @ r" "val p = Some []" by auto
  then have raw: "raw = p" using 1(6) by simp
  obtain p1 where p1: "s1 = p1 @ s2" "scan_string p1 = Some (us, [])" using self_contained_string [OF 1(2)] by blast
  obtain w1 where w1: "s = w1 @ dquote # s1" "skip_space w1 = []" using skip_space_cut [OF 1(1)] by blast
  obtain w2 where w2: "s2 = w2 @ CHR '':'' # s3" "skip_space w2 = []" using skip_space_cut [OF 1(3)] by blast
  obtain ch q where q: "p = ch # q" using p(2) assms(5) by (cases p) auto
  obtain w3 where w3: "s3 = w3 @ ch # q @ r" "skip_space w3 = []" using skip_space_cut [of s3 ch "q @ r"] p(1) q by auto
  have sk: "skip_space (w1 @ dquote # t) = dquote # t" "skip_space (w2 @ CHR '':'' # t) = CHR '':'' # t" "skip_space (w3 @ p) = p" for t
    using skipped [OF w1(2) 1(1)] skipped [OF w2(2) 1(3)] skipped [OF w3(2), of s3 ch "q @ r" q] p(1) q by simp_all
  let ?p = "w1 @ dquote # p1 @ w2 @ CHR '':'' # w3"
  have "scan_string (p1 @ w2 @ CHR '':'' # w3 @ p) = Some (us, w2 @ CHR '':'' # w3 @ p)" using scan_string_ext [OF p1(2)] by simp
  with sk 1(5) p(2) have "scan_member val (?p @ p) = Some ((k, p), [])" by (simp add: scan_member_def)
  moreover have "s = ?p @ p @ r" using w1 p1 w2 w3 q by simp
  ultimately show ?thesis using p(2) raw by blast
qed

lemma self_contained_member: "self_contained (scan_only val) \<Longrightarrow> open_ended (scan_only val) \<Longrightarrow> consumes (scan_only val) \<Longrightarrow> val [] = None \<Longrightarrow> self_contained (scan_member val)"
  unfolding self_contained_def [of "scan_member val"] using member_cut by (metis append.assoc prod.exhaust)

lemma blank_items: "skip_space s = [] \<Longrightarrow> scan_member val s = None" "skip_space s = [] \<Longrightarrow> val [] = None \<Longrightarrow> scan_element val s = None"
  by (simp_all add: scan_member_def scan_element_def)

lemma self_contained_value: "self_contained (scan_only (scan_value n))"
proof (induction n)
  case 0
  have "\<exists>p. s = p @ r \<and> scan_value 0 p = Some []" if v: "scan_value 0 s = Some r" for s r
  proof -
    from v have "scan_scalar s = Some r" by (cases s) (simp_all split: if_splits)
    from cut_scalar [OF this] obtain p where p: "s = p @ r" "p \<noteq> []" "scan_scalar p = Some []" by blast
    with v show ?thesis by (intro exI [of _ p]) (cases p, simp_all split: if_splits)
  qed
  then show ?case by (force simp: self_contained_def)
next
  case (Suc n)
  note f = scan_value_facts [of n]
  let ?e = "scan_element (scan_value n)" and ?m = "scan_member (scan_value n)"
  have e: "self_contained ?e" "open_ended ?e" "consumes ?e" and m: "self_contained ?m" "open_ended ?m" "consumes ?m"
    using f Suc by (simp_all add: self_contained_element open_ended_element consumes_element self_contained_member open_ended_member consumes_member)
  have "\<exists>p. s = p @ r \<and> scan_value (Suc n) p = Some []" if v: "scan_value (Suc n) s = Some r" for s r
  proof -
    from v obtain c s1 where s: "s = c # s1" by (cases s) simp_all
    consider xs where "c = CHR ''{''" "scan_container ?m (CHR ''}'') s1 = Some (xs, r)"
      | xs where "c = CHR ''[''" "scan_container ?e (CHR '']'') s1 = Some (xs, r)"
      | "c \<noteq> CHR ''{''" "c \<noteq> CHR ''[''" "scan_scalar s = Some r"
      using v s by (auto split: if_splits)
    then show ?thesis
    proof cases
      case 1
      from scan_container_cut [OF 1(2) m] blank_items(1) obtain p where "s1 = p @ r" "scan_container ?m (CHR ''}'') p = Some (xs, [])" by auto
      with 1 s show ?thesis by (intro exI [of _ "c # p"]) simp
    next
      case 2
      from scan_container_cut [OF 2(2) e] blank_items(2) obtain p where "s1 = p @ r" "scan_container ?e (CHR '']'') p = Some (xs, [])" by auto
      with 2 s show ?thesis by (intro exI [of _ "c # p"]) simp
    next
      case 3
      from cut_scalar [OF 3(3)] obtain p where p: "s = p @ r" "p \<noteq> []" "scan_scalar p = Some []" by blast
      then obtain p1 where "p = c # p1" using s by (cases p) auto
      with p 3 show ?thesis by (intro exI [of _ p]) simp
    qed
  qed
  then show ?case by (force simp: self_contained_def)
qed

text \<open>The texts of the values of a decoded object are values, and parts of what was decoded.\<close>

lemma scan_member_value:
  assumes "scan_member (scan_value n) s = Some ((k, raw), r)"
  shows "json_value n raw \<and> length raw \<le> length s"
proof -
  have "\<exists>p. s = p @ raw @ r" "json_value n raw"
    using member_cut [OF assms self_contained_value] scan_value_facts [of n] by (auto simp: json_value_def)
  then show ?thesis by auto
qed


lemma scan_items_set: "scan_items item close s = Some (xs, r) \<Longrightarrow> consumes item \<Longrightarrow> x \<in> set xs \<Longrightarrow> \<exists>s' r'. item s' = Some (x, r') \<and> length s' \<le> length s"
proof (induction item close s arbitrary: xs r rule: scan_items.induct)
  case (1 item close s)
  obtain y s1 c s2 where i: "item s = Some (y, s1)" "skip_space s1 = c # s2"
    using 1(2) by (subst (asm) scan_items.simps) (auto split: option.splits list.splits)
  show ?case
  proof (cases "c = close")
    case True
    with 1(2) i have "xs = [y]" by (subst (asm) scan_items.simps) simp
    with 1(4) i show ?thesis by auto
  next
    case False
    with 1(2) i obtain ys where y: "c = CHR '',''" "length s2 < length s" "scan_items item close s2 = Some (ys, r)" "xs = y # ys"
      by (subst (asm) scan_items.simps) (auto split: if_splits)
    with 1(1) [OF i(1) refl i(2) False _ y(3) 1(3)] i(1) 1(4) show ?thesis by fastforce
  qed
qed

lemma scan_object_values:
  assumes "scan_container (scan_member (scan_value n)) close s = Some (ms, r)" and "(k, raw) \<in> set ms"
  shows "json_value n raw \<and> length raw \<le> length s"
proof -
  have sh: "consumes (scan_member (scan_value n))" using scan_value_facts [of n] by (simp add: consumes_member)
  have "scan_items (scan_member (scan_value n)) close s = Some (ms, r)"
    using assms by (auto simp: scan_container_def split: list.splits if_splits)
  from scan_items_set [OF this sh assms(2)] obtain s' r' where "scan_member (scan_value n) s' = Some ((k, raw), r')" "length s' \<le> length s" by blast
  with scan_member_value show ?thesis by fastforce
qed

text \<open>An invariant of the fields, kept by every value of the object, holds for what is decoded.\<close>

lemma unmarshal_struct_invariant:
  assumes "unmarshal_struct store zero s = Some x" and "I zero"
    and "\<And>k raw y z. json_value (max_nesting - 1) raw \<Longrightarrow> length raw \<le> length s \<Longrightarrow> I y \<Longrightarrow> store k raw y = Some z \<Longrightarrow> I z"
  shows "I x"
proof (cases "hd (skip_space s) = CHR ''n''")
  case True
  with assms(1,2) show ?thesis by (auto simp: unmarshal_struct_def split: if_splits list.splits)
next
  case False
  with assms(1) obtain s1 ms r where s: "skip_space s = CHR ''{'' # s1"
    "scan_container (scan_member (scan_value (max_nesting - 1))) (CHR ''}'') s1 = Some (ms, r)"
    and x: "foldl (\<lambda>acc (k, raw). Option.bind acc (store k raw)) (Some zero) ms = Some x"
    by (auto simp: unmarshal_struct_def split: if_splits list.splits option.splits)
  have m: "\<forall>(k, raw) \<in> set ms. json_value (max_nesting - 1) raw \<and> length raw \<le> length s"
    using scan_object_values [OF s(2)] skip_space_shorter [OF s(1)] by fastforce
  have none: "foldl (\<lambda>acc (k, raw). Option.bind acc (store k raw)) None ms = None" for ms by (induction ms) auto
  have "I x" if "foldl (\<lambda>acc (k, raw). Option.bind acc (store k raw)) (Some y) ms = Some x" "I y"
    "\<forall>(k, raw) \<in> set ms. json_value (max_nesting - 1) raw \<and> length raw \<le> length s" for y ms
    using that
  proof (induction ms arbitrary: y)
    case (Cons m ms)
    obtain k raw where k: "m = (k, raw)" by force
    with Cons.prems none obtain z where z: "store k raw y = Some z" by (cases "store k raw y") auto
    with Cons.prems k have "I z" using assms(3) by auto
    with Cons.IH [of z] Cons.prems k z show ?case by simp
  qed simp
  with x m assms(2) show ?thesis by blast
qed

section \<open>The length of encoded text\<close>

lemma escape_byte_length: "length (escape_byte c) \<le> 6"
  by (simp add: escape_byte_def u_escape_def)

lemma quote_string_length: "length (quote_string s) \<le> 6 * length s"
proof (induction s rule: quote_string.induct)
  case (2 c s)
  show ?case
  proof (cases "byte_val c < 0x80")
    case True
    with 2(1) escape_byte_length [of c] show ?thesis by simp
  next
    case False
    let ?k = "rune_width (c # s)"
    show ?thesis
    proof (cases "?k = 0")
      case True
      with False 2(2) show ?thesis by (simp add: u_escape_def)
    next
      case k: False
      have "length (quote_string (drop ?k (c # s))) \<le> 6 * (Suc (length s) - ?k)" using 2(3) [OF False refl refl k] by simp
      moreover have "?k \<le> Suc (length s)" using rune_width_le [of "c # s"] by simp
      ultimately have "6 * ?k + length (quote_string (drop ?k (c # s))) \<le> 6 * Suc (length s)" by (simp add: diff_mult_distrib2)
      then show ?thesis using False k by (simp add: Let_def u_escape_def)
    qed
  qed
qed simp

section \<open>The encoder's text is compact\<close>

lemma separators: "encode_rune 0x2028 = [CHR 0xE2, CHR 0x80, CHR 0xA8]" "encode_rune 0x2029 = [CHR 0xE2, CHR 0x80, CHR 0xA9]"
  by (simp_all add: encode_rune_def char_of_eq_iff)

lemma compact_plain:
  assumes "\<forall>c \<in> set s. c \<notin> {dquote, backslash, CHR ''<'', CHR ''>'', CHR ''&'', CHR 0xE2}"
  shows "compact True (s @ t) = s @ compact True t"
  using assms by (induction s) (simp_all add: compact.simps(3) separators)

lemma hex_digit_plain: "d < 16 \<Longrightarrow> hex_digit d \<notin> {dquote, backslash, CHR ''<'', CHR ''>'', CHR ''&'', CHR 0xE2}"
proof -
  assume "d < 16"
  then have "byte_val (hex_digit d) = (if d < 10 then 0x30 + d else 0x57 + d)" by (simp add: hex_digit_def)
  with \<open>d < 16\<close> show ?thesis by (auto split: if_splits)
qed

lemma compact_u_escape: "compact True (u_escape n @ t) = u_escape n @ compact True t"
proof -
  have "compact True (map hex_digit [n div 4096 mod 16, n div 256 mod 16, n div 16 mod 16, n mod 16] @ t)
      = map hex_digit [n div 4096 mod 16, n div 256 mod 16, n div 16 mod 16, n mod 16] @ compact True t"
    by (rule compact_plain) (use hex_digit_plain in simp)
  then show ?thesis by (simp add: u_escape_def compact.simps(3))
qed

lemma compact_escape_byte: "compact True (escape_byte c @ t) = escape_byte c @ compact True t" if "byte_val c < 0x80"
proof -
  have "c \<noteq> CHR 0xE2" using that by auto
  then show ?thesis
    by (simp add: escape_byte_def compact_u_escape) (simp add: compact.simps(3) separators)
qed

lemma compact_rune:
  assumes "rune_width (c # s) = k" and "\<not> byte_val c < 0x80" and "r = take k (c # s)" and "0 < k"
    and "r \<noteq> encode_rune 0x2028" and "r \<noteq> encode_rune 0x2029"
  shows "compact True (r @ t) = r @ compact True t"
proof -
  define plain where "plain d \<longleftrightarrow> d \<notin> {dquote, backslash, CHR ''<'', CHR ''>'', CHR ''&'', CHR 0xE2}" for d
  have cont: "plain d" if "within 0x80 0xBF d" for d
    using that by (auto simp: plain_def within_def)
  have high: "c \<notin> {dquote, backslash, CHR ''<'', CHR ''>'', CHR ''&''}" using assms(2) by auto
  have tail: "compact True (ds @ t) = ds @ compact True t" if "\<forall>d \<in> set ds. plain d" for ds t
    using that by (intro compact_plain) (simp add: plain_def)
  from assms(1,4) show ?thesis
  proof (cases rule: rune_width_cases)
    case (2 b d bs)
    then have "plain c" by (auto simp: plain_def within_def)
    with 2 assms(3) cont tail [of r] show ?thesis by simp
  next
    case (3 b d e bs)
    with assms(3) have r: "r = [c, d, e]" by simp
    with assms(5,6) have "take 3 (c # d # e # t) \<noteq> encode_rune 0x2028" "take 3 (c # d # e # t) \<noteq> encode_rune 0x2029" by simp_all
    with high have "compact True (c # d # e # t) = c # compact True (d # e # t)" by (simp add: compact.simps(3))
    with 3 r cont tail [of "[d, e]"] show ?thesis by simp
  next
    case (4 b d e f bs)
    then have "plain c" by (auto simp: plain_def within_def)
    with 4 assms(3) cont tail [of r] show ?thesis by simp
  qed (use assms(2) in simp)
qed

lemma compact_quoted: "compact True (quote_string s @ dquote # t) = quote_string s @ dquote # compact False t"
proof (induction s rule: quote_string.induct)
  case 1
  then show ?case by (simp add: compact.simps(3))
next
  case (2 c s)
  show ?case
  proof (cases "byte_val c < 0x80")
    case True
    with 2(1) show ?thesis by (simp add: compact_escape_byte)
  next
    case False
    with 2 compact_rune [OF refl False refl, of s] show ?thesis by (auto simp: Let_def compact_u_escape simp del: take_Cons drop_Cons)
  qed
qed

lemma compact_string: "compact False (json_string s @ t) = json_string s @ compact False t"
  by (simp add: json_string_def json_space_def compact_quoted)

text \<open>Numbers and members.\<close>

definition compacted :: "string \<Rightarrow> bool" where
  "compacted s \<longleftrightarrow> (\<forall>t. compact False (s @ t) = s @ compact False t)"

lemma compacted_simps [simp]: "compacted []" "compacted (json_string s)"
  "\<not> json_space c \<Longrightarrow> c \<noteq> dquote \<Longrightarrow> compacted (c # s) \<longleftrightarrow> compacted s"
  by (auto simp: compacted_def compact_string)

lemma compacted_append: "compacted s \<Longrightarrow> compacted s' \<Longrightarrow> compacted (s @ s')"
  by (simp add: compacted_def)

lemma compacted_members: "\<forall>(k, raw) \<in> set ms. compacted raw \<Longrightarrow> compacted (json_members ms)"
  by (induction ms rule: json_members.induct) (auto intro!: compacted_append simp: json_space_def)

lemma compacted_object: "\<forall>(k, raw) \<in> set ms. compacted raw \<Longrightarrow> compacted (json_object ms)"
  using compacted_members [of ms] by (auto simp: json_object_def json_space_def intro!: compacted_append)

lemma compacted_digits: "list_all is_digit s \<Longrightarrow> compacted s"
proof (induction s)
  case (Cons c s)
  then have "\<not> json_space c" "c \<noteq> dquote" by (auto simp: json_space_def is_digit_def)
  with Cons show ?case by simp
qed simp

lemma compacted_Itoa: "compacted (Itoa i)"
  using nat_digits_props [of "nat i"] nat_digits_props [of "nat (- i)"]
  by (simp add: Itoa_def json_space_def compacted_digits)

lemma scan_digits_all: "list_all is_digit s \<Longrightarrow> s \<noteq> [] \<Longrightarrow> scan_digits s = Some []"
  by (cases s) (auto simp: scan_digits_def list_all_iff)

lemma scan_number_nat: "scan_number (nat_digits n) = Some []" "scan_number (CHR ''-'' # nat_digits n) = Some []"
proof -
  note p = nat_digits_props [of n]
  have "(if hd (nat_digits n) = CHR ''0'' then scan_fraction (tl (nat_digits n)) else Option.bind (scan_digits (nat_digits n)) scan_fraction) = Some []"
    using p nat_digits_zero [of n] scan_digits_all [of "nat_digits n"]
    by (auto simp: scan_fraction_def scan_exponent_def nat_digits.simps [of 0])
  with p show "scan_number (nat_digits n) = Some []" "scan_number (CHR ''-'' # nat_digits n) = Some []"
    by (auto simp: scan_number_def skip_one_def)
qed

lemma json_value_Itoa: "json_value n (Itoa i)"
proof (rule json_value_scalar)
  obtain c s where s: "Itoa i = c # s" "c = CHR ''-'' \<or> is_digit c"
    using nat_digits_props [of "nat i"] by (cases "Itoa i") (auto simp: Itoa_def neq_Nil_conv split: if_splits)
  then show "Itoa i \<noteq> []" "hd (Itoa i) \<notin> {CHR ''{'', CHR ''[''}" by (auto simp: is_digit_def)
  have "scan_scalar (Itoa i) = scan_number (Itoa i)" using s by (auto simp: scan_scalar_def is_digit_def)
  then show "scan_scalar (Itoa i) = Some []" by (simp add: Itoa_def scan_number_nat)
qed

section \<open>Decoded strings are valid UTF-8\<close>

lemma valid_utf8_rune: "rune_width r = length r \<Longrightarrow> r \<noteq> [] \<Longrightarrow> valid_utf8 (r @ s) = valid_utf8 s"
proof -
  assume r: "rune_width r = length r" "r \<noteq> []"
  then have "rune_width (r @ s) = length r" using rune_width_take [of r "length r" s] by simp
  with r show ?thesis by (cases r) (simp_all add: valid_utf8.simps(2))
qed

lemma valid_utf8_append: "valid_utf8 s \<Longrightarrow> valid_utf8 t \<Longrightarrow> valid_utf8 (s @ t)"
proof (induction s rule: valid_utf8.induct)
  case (2 c s)
  let ?k = "rune_width (c # s)" and ?r = "take (rune_width (c # s)) (c # s)"
  from 2(2) have k: "?k \<noteq> 0" "valid_utf8 (drop ?k (c # s))" by (auto simp: valid_utf8.simps(2) split: if_splits)
  have r: "rune_width ?r = length ?r" "?r \<noteq> []"
    using k(1) rune_width_take [of "c # s" ?k "[]"] rune_width_le [of "c # s"] by simp_all
  have "(c # s) @ t = ?r @ drop ?k (c # s) @ t" by (metis append.assoc append_take_drop_id)
  with valid_utf8_rune [OF r] 2(1) [OF k(1,2) 2(3)] show ?case by metis
qed simp

lemma rune_error_valid: "valid_utf8 rune_error"
  by (simp add: rune_error_def valid_utf8.simps(2) rune_width_def within_def)

lemma fix_utf8_is_valid: "valid_utf8 (fix_utf8 s)"
proof (induction s rule: fix_utf8.induct)
  case (2 c s)
  let ?k = "rune_width (c # s)" and ?r = "take (rune_width (c # s)) (c # s)"
  show ?case
  proof (cases "?k = 0")
    case True
    with 2(1) show ?thesis by (simp add: fix_utf8.simps(2) valid_utf8_append rune_error_valid)
  next
    case False
    then have r: "rune_width ?r = length ?r" "?r \<noteq> []"
      using rune_width_take [of "c # s" ?k "[]"] rune_width_le [of "c # s"] by simp_all
    have "fix_utf8 (c # s) = ?r @ fix_utf8 (drop ?k (c # s))" using False by (simp add: fix_utf8.simps(2) Let_def)
    with valid_utf8_rune [OF r] 2(2) [OF refl False] show ?thesis by metis
  qed
qed simp

lemma split64:
  fixes q :: nat
  shows "q div 64 = 0 \<Longrightarrow> q mod 64 = q" "q div 64 = 4 \<Longrightarrow> q mod 64 + 256 = q" "q div 64 = 13 \<Longrightarrow> q mod 64 + 832 = q"
  using div_mult_mod_eq [of q 64] by simp_all

lemma width3:
  fixes a b c :: nat
  assumes "a < 16" and "b < 64" and "c < 64" and "a = 0 \<longrightarrow> 32 \<le> b" and "a = 13 \<longrightarrow> b < 32"
  shows "rune_width [char_of (0xE0 + a), char_of (0x80 + b), char_of (0x80 + c)] = 3"
  using assms by (auto simp: rune_width_def within_def)

lemma width4:
  fixes a b c d :: nat
  assumes "a < 5" and "b < 64" and "c < 64" and "d < 64" and "a = 0 \<longrightarrow> 16 \<le> b" and "a = 4 \<longrightarrow> b < 16"
  shows "rune_width [char_of (0xF0 + a), char_of (0x80 + b), char_of (0x80 + c), char_of (0x80 + d)] = 4"
  using assms by (auto simp: rune_width_def within_def)

lemma encode_rune_valid:
  assumes "n < 0xD800 \<or> 0xE000 \<le> n" and "n < 0x110000"
  shows "valid_utf8 (encode_rune n)"
proof -
  have "rune_width (encode_rune n) = length (encode_rune n) \<and> encode_rune n \<noteq> []"
  proof -
    consider "n < 0x80" | "0x80 \<le> n" "n < 0x800" | "0x800 \<le> n" "n < 0x10000" | "0x10000 \<le> n" by linarith
    then show ?thesis
    proof cases
      case 1
      then show ?thesis by (simp add: encode_rune_def rune_width_def)
    next
      case 2
      then have "n div 64 < 32" "2 \<le> n div 64" by auto
      with 2 show ?thesis by (simp add: encode_rune_def rune_width_def within_def)
    next
      case 3
      have "n div 4096 < 16" "n div 4096 = 0 \<longrightarrow> 32 \<le> n div 64 mod 64" "n div 4096 = 13 \<longrightarrow> n div 64 mod 64 < 32"
        using split64 [of "n div 64"] 3 assms(1) by (auto simp: div_mult2_eq [of n 64 64, simplified])
      with 3 width3 [of "n div 4096" "n div 64 mod 64" "n mod 64"] show ?thesis by (simp add: encode_rune_def)
    next
      case 4
      have "n div 262144 < 5" "n div 262144 = 0 \<longrightarrow> 16 \<le> n div 4096 mod 64" "n div 262144 = 4 \<longrightarrow> n div 4096 mod 64 < 16"
        using split64 [of "n div 4096"] 4 assms(2) by (auto simp: div_mult2_eq [of n 4096 64, simplified])
      with 4 width4 [of "n div 262144" "n div 4096 mod 64" "n div 64 mod 64" "n mod 64"] show ?thesis by (simp add: encode_rune_def)
    qed
  qed
  then show ?thesis using valid_utf8_rune [of "encode_rune n" "[]"] by simp
qed

lemma hex_val_less: "hex_val c = Some d \<Longrightarrow> d < 16"
  by (auto simp: hex_val_def within_def split: if_splits)

lemma hex4_less: "hex4 s = Some n \<Longrightarrow> n < 65536"
proof (induction s rule: hex4.induct)
  case (1 a b c d)
  then obtain p q r s where "hex_val a = Some p" "hex_val b = Some q" "hex_val c = Some r" "hex_val d = Some s"
    "n = ((p * 16 + q) * 16 + r) * 16 + s" by (auto split: option.splits)
  moreover from this hex_val_less have "p < 16" "q < 16" "r < 16" "s < 16" by blast+
  ultimately show ?case by simp
qed simp_all

lemma unquote_valid: "\<forall>n. Code n \<in> set us \<longrightarrow> n < 65536 \<Longrightarrow> valid_utf8 (unquote us)"
proof (induction us rule: unquote.induct)
  case (2 c us)
  have "set (dropWhile is_byte us) \<subseteq> set us" by (auto dest: set_dropWhileD)
  with 2(2) have "valid_utf8 (unquote (dropWhile is_byte us))" by (intro 2(1)) auto
  then show ?case by (simp add: valid_utf8_append fix_utf8_is_valid)
next
  case (3 n us)
  show ?case
  proof (cases "n < 0xD800 \<or> 0xE000 \<le> n")
    case True
    moreover have "n < 0x110000" using "3.prems" by auto
    ultimately have "valid_utf8 (encode_rune n)" by (rule encode_rune_valid)
    with True 3 show ?thesis by (simp add: valid_utf8_append)
  next
    case False
    show ?thesis
    proof (cases us)
      case Nil
      with False show ?thesis by (simp add: rune_error_valid)
    next
      case (Cons u us')
      then show ?thesis using 3 False by (cases u) (auto simp: valid_utf8_append rune_error_valid encode_rune_valid)
    qed
  qed
qed simp

lemma scan_string_codes: "scan_string s = Some (us, r) \<Longrightarrow> Code n \<in> set us \<Longrightarrow> n < 65536"
proof (induction s arbitrary: us r rule: scan_string.induct)
  case (2 c s)
  consider "c = dquote" | e s' where "c \<noteq> dquote" "c = backslash" "s = e # s'" | "c \<noteq> dquote" "c \<noteq> backslash" "\<not> byte_val c < 0x20"
    using 2(4) by (cases s) (auto split: if_splits)
  then show ?case
  proof cases
    case 1
    with "2.prems" show ?thesis by simp
  next
    case 2
    show ?thesis
    proof (cases "e = CHR ''u''")
      case True
      with 2 "2.prems" obtain m us' where m: "hex4 (take 4 s') = Some m" "scan_string (drop 4 s') = Some (us', r)" "us = Code m # us'"
        by (auto split: option.splits)
      with "2.IH"(1) 2 True "2.prems"(2) hex4_less [OF m(1)] show ?thesis by auto
    next
      case False
      with 2 "2.prems" obtain b us' where "simple_escape e = Some b" "scan_string s' = Some (us', r)" "us = Byte b # us'"
        by (auto split: option.splits)
      with "2.IH"(2) 2 False "2.prems"(2) show ?thesis by auto
    qed
  next
    case 3
    with "2.prems" obtain us' where "scan_string s = Some (us', r)" "us = Byte c # us'" by auto
    with "2.IH"(3) 3 "2.prems"(2) show ?thesis by auto
  qed
qed simp

lemma string_field_valid: "string_field raw old = Some s \<Longrightarrow> valid_utf8 old \<Longrightarrow> valid_utf8 s"
  by (auto simp: string_field_def split: list.splits if_splits intro!: unquote_valid dest: scan_string_codes)

end
