(* ===== verification/Domain.thy ===== *)
theory Domain
  imports Json_Content
begin

text \<open>
  The shared data types (\<open>internal/domain/ack.go\<close>, \<open>internal/domain/event.go\<close>). A Go \<open>string\<close> and a
  \<open>json.RawMessage\<close> are both strings; \<open>uint64\<close> is a 64-bit word. What \<open>encoding/json\<close> reads into an event, and writes
  for one, follows the tags of the fields.
\<close>

section \<open>Acknowledgements\<close>

type_synonym AckStatus = string

definition AckStatusReceived :: AckStatus where "AckStatusReceived = ''received''"
definition AckStatusProcessed :: AckStatus where "AckStatusProcessed = ''processed''"
definition AckStatusFailed :: AckStatus where "AckStatusFailed = ''failed''"

record AckRequest =
  req_EventID :: string
  req_ClientID :: string
  req_StreamID :: string
  req_AckedAt :: time
  req_Status :: AckStatus
  req_Metadata :: "string \<rightharpoonup> string"

record AckResponse =
  resp_AckID :: string
  resp_EventID :: string
  resp_Published :: bool
  resp_NATSSeq :: "64 word"
  resp_Timestamp :: time

record AckRecord =
  rec_AckID :: string
  rec_EventID :: string
  rec_ClientID :: string
  rec_StreamID :: string
  rec_AckedAt :: time
  rec_Status :: AckStatus
  rec_Metadata :: "string \<rightharpoonup> string"
  rec_ServerReceivedAt :: time

section \<open>Events\<close>

record EventPayload =
  ev_ID :: string
  ev_Type :: string
  ev_Data :: string

record EventRequest =
  er_Type :: string
  er_Data :: string

text \<open>The fields by their tags: a key writes the field whose name it matches, \<open>data\<close> keeps the text of the value.\<close>

definition store_event :: "string \<Rightarrow> string \<Rightarrow> EventPayload \<Rightarrow> EventPayload option" where
  "store_event k raw e =
     (if same_key k ''id'' then map_option (\<lambda>v. e\<lparr>ev_ID := v\<rparr>) (string_field raw (ev_ID e))
      else if same_key k ''type'' then map_option (\<lambda>v. e\<lparr>ev_Type := v\<rparr>) (string_field raw (ev_Type e))
      else if same_key k ''data'' then Some (e\<lparr>ev_Data := raw\<rparr>) else Some e)"

definition Unmarshal_EventPayload :: "string \<Rightarrow> EventPayload option" where
  "Unmarshal_EventPayload = unmarshal_struct store_event \<lparr>ev_ID = [], ev_Type = [], ev_Data = []\<rparr>"

definition store_request :: "string \<Rightarrow> string \<Rightarrow> EventRequest \<Rightarrow> EventRequest option" where
  "store_request k raw e =
     (if same_key k ''type'' then map_option (\<lambda>v. e\<lparr>er_Type := v\<rparr>) (string_field raw (er_Type e))
      else if same_key k ''data'' then Some (e\<lparr>er_Data := raw\<rparr>) else Some e)"

definition Unmarshal_EventRequest :: "string \<Rightarrow> EventRequest option" where
  "Unmarshal_EventRequest = unmarshal_struct store_request \<lparr>er_Type = [], er_Data = []\<rparr>"

text \<open>The text of an event and of a request, with \<open>data\<close> as it is. A \<open>RawMessage\<close> that is nil is written as \<open>null\<close>.\<close>

definition raw_member :: "string \<Rightarrow> string" where
  "raw_member d = (if d = [] then ''null'' else d)"

definition event_text :: "EventPayload \<Rightarrow> string" where
  "event_text e = json_object [(''id'', json_string (ev_ID e)), (''type'', json_string (ev_Type e)), (''data'', raw_member (ev_Data e))]"

definition request_text :: "EventRequest \<Rightarrow> string" where
  "request_text r = json_object [(''type'', json_string (er_Type r)), (''data'', raw_member (er_Data r))]"

definition json_data :: "string \<Rightarrow> bool" where
  "json_data d \<longleftrightarrow> json_value (max_nesting - 1) d"

lemma json_data_empty [simp]: "json_data ''{}''"
  using json_object_value [of "[]" "max_nesting - 2"] by (simp add: json_data_def json_object_def max_nesting_def)

lemma raw_member_simps [simp]: "raw_member [] = ''null''" "d \<noteq> [] \<Longrightarrow> raw_member d = d" "json_data d \<Longrightarrow> raw_member d = d"
  using scan_value_Nil by (auto simp: raw_member_def json_data_def json_value_def)

lemma key_facts [simp]:
  "fix_utf8 ''id'' = ''id''" "fix_utf8 ''type'' = ''type''" "fix_utf8 ''data'' = ''data''"
  "same_key k k" "\<not> same_key ''type'' ''id''" "\<not> same_key ''data'' ''id''" "\<not> same_key ''data'' ''type''"
  by (simp_all add: fix_utf8_valid same_key_def upper_def within_def)

text \<open>
  The round trip of an event: its text is read back as it was written, with invalid UTF-8 replaced in the two
  strings and the data kept byte by byte.
\<close>

theorem event_text_roundtrip:
  assumes "json_data (ev_Data e)"
  shows "Unmarshal_EventPayload (event_text e) = Some \<lparr>ev_ID = fix_utf8 (ev_ID e), ev_Type = fix_utf8 (ev_Type e), ev_Data = ev_Data e\<rparr>"
  using assms by (simp add: Unmarshal_EventPayload_def event_text_def unmarshal_written json_value_string json_data_def store_event_def)

theorem request_text_roundtrip:
  assumes "json_data (er_Data r)"
  shows "Unmarshal_EventRequest (request_text r) = Some \<lparr>er_Type = fix_utf8 (er_Type r), er_Data = er_Data r\<rparr>"
  using assms by (simp add: Unmarshal_EventRequest_def request_text_def unmarshal_written json_value_string json_data_def store_request_def)

text \<open>What is decoded carries valid JSON as its data, or none, and not more than the text had.\<close>

theorem decoded_data_valid:
  assumes "Unmarshal_EventPayload s = Some e"
  shows "(ev_Data e = [] \<or> json_data (ev_Data e)) \<and> length (ev_Data e) \<le> length s"
  using assms unfolding Unmarshal_EventPayload_def
  by (rule unmarshal_struct_invariant) (auto simp: store_event_def json_data_def split: if_splits)

theorem decoded_request_valid:
  assumes "Unmarshal_EventRequest s = Some r"
  shows "(er_Data r = [] \<or> json_data (er_Data r)) \<and> length (er_Data r) \<le> length s"
  using assms unfolding Unmarshal_EventRequest_def
  by (rule unmarshal_struct_invariant) (auto simp: store_request_def json_data_def split: if_splits)

lemma request_type_valid: "Unmarshal_EventRequest s = Some r \<Longrightarrow> valid_utf8 (er_Type r)"
  unfolding Unmarshal_EventRequest_def
  by (rule unmarshal_struct_invariant [where I = "\<lambda>r. valid_utf8 (er_Type r)"]) (auto simp: store_request_def string_field_valid split: if_splits)

lemma event_strings_valid: "Unmarshal_EventPayload s = Some e \<Longrightarrow> valid_utf8 (ev_ID e) \<and> valid_utf8 (ev_Type e)"
  unfolding Unmarshal_EventPayload_def
  by (rule unmarshal_struct_invariant [where I = "\<lambda>e. valid_utf8 (ev_ID e) \<and> valid_utf8 (ev_Type e)"])
    (auto simp: store_event_def string_field_valid split: if_splits)

text \<open>
  Other encoders choose other escapes: a text stands for an event if it is an object with the three members, literals that
  stand for the two strings, and the data as it is, or \<open>null\<close> where there is none.
\<close>

definition literal_of :: "string \<Rightarrow> string \<Rightarrow> bool" where
  "literal_of l s \<longleftrightarrow> json_value (max_nesting - 1) l \<and> l \<noteq> [] \<and> hd l = dquote \<and> string_field l [] = Some s"

definition text_of_event :: "EventPayload \<Rightarrow> string \<Rightarrow> bool" where
  "text_of_event e raw \<longleftrightarrow> (\<exists>li lt. literal_of li (ev_ID e) \<and> literal_of lt (ev_Type e)
     \<and> raw = json_object [(''id'', li), (''type'', lt), (''data'', raw_member (ev_Data e))])"

lemma literal_field: "literal_of l s \<Longrightarrow> string_field l old = Some s"
  by (auto simp: literal_of_def string_field_def split: list.splits)

lemma literal_json_string: "valid_utf8 s \<Longrightarrow> literal_of (json_string s) s"
  by (simp add: literal_of_def json_value_string fix_utf8_valid) (simp add: json_string_def)

lemma raw_member_value: "d = [] \<or> json_data d \<Longrightarrow> json_value (max_nesting - 1) (raw_member d)"
  by (auto simp: raw_member_def json_data_def scan_scalar_def scan_word_def intro!: json_value_scalar)

theorem event_text_read:
  assumes "text_of_event e raw" and "ev_Data e = [] \<or> json_data (ev_Data e)"
  shows "Unmarshal_EventPayload raw = Some (e\<lparr>ev_Data := raw_member (ev_Data e)\<rparr>)"
proof -
  obtain li lt where l: "literal_of li (ev_ID e)" "literal_of lt (ev_Type e)"
    and raw: "raw = json_object [(''id'', li), (''type'', lt), (''data'', raw_member (ev_Data e))]"
    using assms(1) by (auto simp: text_of_event_def)
  then show ?thesis using raw_member_value [OF assms(2)] l [unfolded literal_of_def]
    by (simp add: Unmarshal_EventPayload_def unmarshal_written store_event_def literal_field [OF l(1)] literal_field [OF l(2)])
qed

lemma event_text_stands:
  "valid_utf8 (ev_ID e) \<Longrightarrow> valid_utf8 (ev_Type e) \<Longrightarrow> text_of_event e (event_text e)"
  unfolding text_of_event_def event_text_def using literal_json_string by blast

text \<open>So an accepted request is queued and read back as it was decoded.\<close>

theorem accepted_event_roundtrip:
  assumes "Unmarshal_EventRequest b = Some r" and "er_Data r \<noteq> []" and "valid_utf8 i"
  shows "Unmarshal_EventPayload (event_text \<lparr>ev_ID = i, ev_Type = er_Type r, ev_Data = er_Data r\<rparr>)
    = Some \<lparr>ev_ID = i, ev_Type = er_Type r, ev_Data = er_Data r\<rparr>"
  using decoded_request_valid [OF assms(1)] request_type_valid [OF assms(1)] assms(2,3)
  by (simp add: event_text_roundtrip fix_utf8_valid)

theorem accepted_event_roundtrip_witness:
  "Unmarshal_EventPayload (event_text \<lparr>ev_ID = ''i'', ev_Type = fix_utf8 (CHR 0xFF # ''x''), ev_Data = ''{}''\<rparr>)
     = Some \<lparr>ev_ID = ''i'', ev_Type = fix_utf8 (CHR 0xFF # ''x''), ev_Data = ''{}''\<rparr>"
  using accepted_event_roundtrip [OF request_text_roundtrip [of "\<lparr>er_Type = CHR 0xFF # ''x'', er_Data = ''{}''\<rparr>"], of "''i''"] by simp

end
