(* ===== verification/Metrics.thy ===== *)
theory Metrics
  imports Prelude
begin

text \<open>
  The Prometheus metrics (\<open>internal/metrics/metrics.go\<close>). A counter is a natural number, a gauge an
  integer, a histogram the list of its observations (durations in nanoseconds), a vector a function
  of its label values. \<open>NewMetrics\<close> registers the collectors one by one, and registering a name a
  second time panics (\<open>promauto\<close>).
\<close>

type_synonym counter = nat
type_synonym gauge = int
type_synonym histogram = "int list"
type_synonym 'm vec = "string list \<Rightarrow> 'm"

record metrics =
  ActiveConnections :: gauge
  ConnectionsTotal :: "counter vec"
  EventsDeliveredTotal :: "counter vec"
  EventsDrainedPerTick :: histogram
  EventDrainErrorsTotal :: counter
  QueueDepth :: gauge
  TicketsIssuedTotal :: counter
  TicketsRejectedTotal :: "counter vec"
  AuthIPMismatchTotal :: counter
  DuplicateConnectionsTotal :: counter
  HeartbeatsSentTotal :: counter
  RedisLatencySeconds :: "histogram vec"
  RateLimitExceededTotal :: counter
  UnackedEventsTotal :: "gauge vec"
  AckRequestsTotal :: "counter vec"
  AckProcessingDuration :: "histogram vec"
  AckValidationErrorsTotal :: "counter vec"
  AckDuplicateTotal :: "counter vec"
  AckToEventLatency :: "histogram vec"
  AckUnknownEventTotal :: "counter vec"
  NATSPublishTotal :: "counter vec"
  NATSPublishDuration :: "histogram vec"
  NATSPublishRetriesTotal :: "counter vec"
  NATSConnectionStatus :: "gauge vec"

text \<open>\<open>WithLabelValues(...).Inc()\<close>, \<open>.Dec()\<close> and \<open>.Observe(x)\<close> on a vector.\<close>

definition inc_at :: "string list \<Rightarrow> counter vec \<Rightarrow> counter vec" where
  "inc_at ls f = f(ls := Suc (f ls))"

definition dec_at :: "string list \<Rightarrow> gauge vec \<Rightarrow> gauge vec" where
  "dec_at ls f = f(ls := f ls - 1)"

definition observe_at :: "string list \<Rightarrow> int \<Rightarrow> histogram vec \<Rightarrow> histogram vec" where
  "observe_at ls x f = f(ls := f ls @ [x])"

section \<open>Registration\<close>

text \<open>The names under which the collectors are registered, in the order of the constructor.\<close>

definition metric_names :: "string list" where
  "metric_names =
    [''scorpion_active_connections'', ''scorpion_connections_total'', ''scorpion_events_delivered_total'',
     ''scorpion_events_drained_per_tick'', ''scorpion_event_drain_errors_total'', ''scorpion_queue_depth'',
     ''scorpion_tickets_issued_total'', ''scorpion_tickets_rejected_total'',
     ''scorpion_auth_ip_mismatch_total'', ''scorpion_duplicate_connections_total'',
     ''scorpion_heartbeats_sent_total'', ''scorpion_redis_latency_seconds'',
     ''scorpion_ratelimit_exceeded_total'', ''sse_unacked_events_total'',
     ''ack_requests_total'', ''ack_processing_duration_seconds'', ''ack_validation_errors_total'',
     ''ack_duplicate_total'', ''ack_to_event_latency_seconds'', ''ack_unknown_event_total'',
     ''nats_publish_total'', ''nats_publish_duration_seconds'', ''nats_publish_retries_total'',
     ''nats_connection_status'']"

definition zero_metrics :: metrics where
  "zero_metrics =
    \<lparr>ActiveConnections = 0, ConnectionsTotal = (\<lambda>_. 0), EventsDeliveredTotal = (\<lambda>_. 0),
     EventsDrainedPerTick = [], EventDrainErrorsTotal = 0, QueueDepth = 0, TicketsIssuedTotal = 0,
     TicketsRejectedTotal = (\<lambda>_. 0), AuthIPMismatchTotal = 0, DuplicateConnectionsTotal = 0,
     HeartbeatsSentTotal = 0, RedisLatencySeconds = (\<lambda>_. []), RateLimitExceededTotal = 0,
     UnackedEventsTotal = (\<lambda>_. 0), AckRequestsTotal = (\<lambda>_. 0), AckProcessingDuration = (\<lambda>_. []),
     AckValidationErrorsTotal = (\<lambda>_. 0), AckDuplicateTotal = (\<lambda>_. 0), AckToEventLatency = (\<lambda>_. []),
     AckUnknownEventTotal = (\<lambda>_. 0), NATSPublishTotal = (\<lambda>_. 0), NATSPublishDuration = (\<lambda>_. []),
     NATSPublishRetriesTotal = (\<lambda>_. 0), NATSConnectionStatus = (\<lambda>_. 0)\<rparr>"

text \<open>\<open>MustRegister\<close> of each name in turn; the registry is the list of the names it holds.\<close>

fun register_names :: "string list \<Rightarrow> string list \<Rightarrow> string list outcome" where
  "register_names [] reg = Ret reg"
| "register_names (n # ns) reg = (if n \<in> set reg then Panic else register_names ns (n # reg))"

definition NewMetrics :: "string list \<Rightarrow> (metrics \<times> string list) outcome" where
  "NewMetrics reg = (case register_names metric_names reg of Panic \<Rightarrow> Panic | Ret reg' \<Rightarrow> Ret (zero_metrics, reg'))"

lemma register_names_ok:
  "register_names ns reg = (if distinct ns \<and> set ns \<inter> set reg = {} then Ret (rev ns @ reg) else Panic)"
  by (induction ns arbitrary: reg) auto

lemma metric_names_distinct: "distinct metric_names"
  by (simp add: metric_names_def)

text \<open>
  \<open>NewMetrics\<close> succeeds exactly on a registry that holds none of its names, with every metric at
  zero: its own names are pairwise distinct, and a second call on the same registry panics.
\<close>

theorem metrics_register_once:
  "NewMetrics reg = (if set metric_names \<inter> set reg = {} then Ret (zero_metrics, rev metric_names @ reg) else Panic)"
  by (simp add: NewMetrics_def register_names_ok metric_names_distinct)

end
