(* ===== verification/World.thy ===== *)
theory World
  imports Redis_Api Domain Metrics
begin

text \<open>
  The state a running server shares between its parts: the Redis server, the NATS server, the
  metrics, and the two sources of fresh values, the clock and the UUID generator. Successive calls
  of \<open>time.Now()\<close> and \<open>uuid.NewString()\<close> read successive entries of an arbitrary sequence, so a
  theorem about the model holds for every behaviour of the clock.
\<close>

record ('r, 'n) world =
  rdb :: 'r
  nats :: 'n
  mtr :: metrics
  clock :: "nat \<Rightarrow> time"
  reads :: nat
  uuids :: "nat \<Rightarrow> string"
  drawn :: nat

definition time_now :: "('r, 'n) world \<Rightarrow> time \<times> ('r, 'n) world" where
  "time_now w = (clock w (reads w), w\<lparr>reads := Suc (reads w)\<rparr>)"

definition NewString :: "('r, 'n) world \<Rightarrow> string \<times> ('r, 'n) world" where
  "NewString w = (uuids w (drawn w), w\<lparr>drawn := Suc (drawn w)\<rparr>)"

text \<open>An operation of the repository, run on the Redis part of the world.\<close>

definition on_rdb :: "('r \<Rightarrow> 'a \<times> 'r) \<Rightarrow> ('r, 'n) world \<Rightarrow> 'a \<times> ('r, 'n) world" where
  "on_rdb f w = (let (x, r) = f (rdb w) in (x, w\<lparr>rdb := r\<rparr>))"

text \<open>An operation on the NATS part of the world.\<close>

definition on_nats :: "('n \<Rightarrow> 'a \<times> 'n) \<Rightarrow> ('r, 'n) world \<Rightarrow> 'a \<times> ('r, 'n) world" where
  "on_nats f w = (let (x, n) = f (nats w) in (x, w\<lparr>nats := n\<rparr>))"

text \<open>An update of the metrics.\<close>

definition count :: "(metrics \<Rightarrow> metrics) \<Rightarrow> ('r, 'n) world \<Rightarrow> ('r, 'n) world" where
  "count f w = w\<lparr>mtr := f (mtr w)\<rparr>"

lemma time_now_simps [simp]:
  "rdb (snd (time_now w)) = rdb w" "nats (snd (time_now w)) = nats w" "mtr (snd (time_now w)) = mtr w"
  by (simp_all add: time_now_def)

lemma NewString_simps [simp]:
  "rdb (snd (NewString w)) = rdb w" "nats (snd (NewString w)) = nats w" "mtr (snd (NewString w)) = mtr w"
  by (simp_all add: NewString_def)

lemma count_simps [simp]:
  "rdb (count f w) = rdb w" "nats (count f w) = nats w" "mtr (count f w) = f (mtr w)"
  "clock (count f w) = clock w" "reads (count f w) = reads w"
  "uuids (count f w) = uuids w" "drawn (count f w) = drawn w"
  by (simp_all add: count_def)

lemma on_rdb_simps [simp]:
  "rdb (snd (on_rdb f w)) = snd (f (rdb w))" "fst (on_rdb f w) = fst (f (rdb w))"
  "nats (snd (on_rdb f w)) = nats w" "mtr (snd (on_rdb f w)) = mtr w"
  by (simp_all add: on_rdb_def split_beta)

lemma on_rdb_eq: "on_rdb f w = (x, w') \<longleftrightarrow> (\<exists>r. f (rdb w) = (x, r) \<and> w' = w\<lparr>rdb := r\<rparr>)"
  by (auto simp: on_rdb_def split_beta prod_eq_iff)

end
