(* ===== verification/Circuit_Breaker.thy ===== *)
theory Circuit_Breaker
  imports Prelude
begin

text \<open>
  The circuit breaker of the stream loop (\<open>internal/stream/loop.go\<close>): a 32-bit failure counter and the
  instant until which it stays open, in Unix nanoseconds with 0 for closed. The operations take the
  answer of \<open>time.Now()\<close> as an argument. The abstract breaker below has no widths and no sentinel;
  the loop's use of the operations refines it.
\<close>

section \<open>Operations\<close>

record circuitBreaker =
  maxFails :: "32 word"
  resetAfter :: duration
  consecutiveFails :: "32 word"
  openUntil :: int

definition newCircuitBreaker :: "32 word \<Rightarrow> duration \<Rightarrow> circuitBreaker" where
  "newCircuitBreaker m d = \<lparr>maxFails = m, resetAfter = d, consecutiveFails = 0, openUntil = 0\<rparr>"

definition isOpen :: "time \<Rightarrow> circuitBreaker \<Rightarrow> bool \<times> circuitBreaker" where
  "isOpen now cb =
     (let until = openUntil cb
      in if until = 0 then (False, cb)
         else if until < now then (False, cb\<lparr>openUntil := 0, consecutiveFails := 0\<rparr>)
         else (True, cb))"

definition recordSuccess :: "circuitBreaker \<Rightarrow> circuitBreaker" where
  "recordSuccess cb = cb\<lparr>consecutiveFails := 0, openUntil := 0\<rparr>"

definition recordFailure :: "time \<Rightarrow> circuitBreaker \<Rightarrow> circuitBreaker" where
  "recordFailure now cb =
     (let n = consecutiveFails cb + 1; cb1 = cb\<lparr>consecutiveFails := n\<rparr>
      in if maxFails cb \<le> n then cb1\<lparr>openUntil := wrap64 (now + resetAfter cb)\<rparr> else cb1)"

section \<open>The loop's use of the breaker\<close>

text \<open>
  One drain: the breaker is asked first (at \<open>t\<close>), and only if it is closed is Redis called, which
  succeeds or fails (noted at \<open>t'\<close>). The answer says whether Redis was called.
\<close>

definition guarded_call :: "time \<Rightarrow> bool \<Rightarrow> time \<Rightarrow> circuitBreaker \<Rightarrow> bool \<times> circuitBreaker" where
  "guarded_call t ok t' cb =
     (let (op, cb1) = isOpen t cb
      in if op then (False, cb1) else (True, if ok then recordSuccess cb1 else recordFailure t' cb1))"

fun guarded_calls :: "(time \<times> bool \<times> time) list \<Rightarrow> circuitBreaker \<Rightarrow> bool list \<times> circuitBreaker" where
  "guarded_calls [] cb = ([], cb)"
| "guarded_calls ((t, ok, t') # cs) cb =
     (let (b, cb1) = guarded_call t ok t' cb; (bs, cb2) = guarded_calls cs cb1 in (b # bs, cb2))"

section \<open>The abstract breaker\<close>

text \<open>Closed after \<open>n\<close> consecutive failures, or tripped until an instant.\<close>

datatype breaker = Closed nat | Tripped time

fun breaker_ask :: "time \<Rightarrow> breaker \<Rightarrow> breaker" where
  "breaker_ask t (Closed n) = Closed n"
| "breaker_ask t (Tripped u) = (if u < t then Closed 0 else Tripped u)"

fun breaker_call :: "nat \<Rightarrow> duration \<Rightarrow> time \<Rightarrow> bool \<Rightarrow> time \<Rightarrow> breaker \<Rightarrow> bool \<times> breaker" where
  "breaker_call m d t ok t' b =
     (case breaker_ask t b of
        Tripped u \<Rightarrow> (False, Tripped u)
      | Closed n \<Rightarrow> (True, if ok then Closed 0 else if m \<le> Suc n then Tripped (t' + d) else Closed (Suc n)))"

fun breaker_calls :: "nat \<Rightarrow> duration \<Rightarrow> (time \<times> bool \<times> time) list \<Rightarrow> breaker \<Rightarrow> bool list \<times> breaker" where
  "breaker_calls m d [] b = ([], b)"
| "breaker_calls m d ((t, ok, t') # cs) b =
     (let (x, b1) = breaker_call m d t ok t' b; (xs, b2) = breaker_calls m d cs b1 in (x # xs, b2))"

text \<open>The concrete states that stand for an abstract one.\<close>

fun breaker_rel :: "circuitBreaker \<Rightarrow> breaker \<Rightarrow> bool" where
  "breaker_rel cb (Closed n) \<longleftrightarrow> openUntil cb = 0 \<and> n < unat (maxFails cb) \<and> unat (consecutiveFails cb) = n"
| "breaker_rel cb (Tripped u) \<longleftrightarrow> openUntil cb = u \<and> u \<noteq> 0 \<and> 0 < maxFails cb \<and> consecutiveFails cb = maxFails cb"

text \<open>An instant whose sum with the reset interval is a positive \<open>int64\<close>: any time after 1970.\<close>

definition sane_time :: "duration \<Rightarrow> time \<Rightarrow> bool" where
  "sane_time d t \<longleftrightarrow> 0 < t + d \<and> t + d < 2 ^ 63"

lemma Suc_fails:
  fixes n m :: "32 word"
  assumes "unat n < unat m"
  shows "unat (n + 1) = Suc (unat n)"
proof -
  have "unat m < 2 ^ 32" using unsigned_less [of m, where ?'a = nat] by simp
  with assms show ?thesis by (simp add: unat_word_ariths)
qed

lemma isOpen_refines:
  assumes "breaker_rel cb b"
  shows "breaker_rel (snd (isOpen t cb)) (breaker_ask t b)"
    and "fst (isOpen t cb) \<longleftrightarrow> (\<exists>u. breaker_ask t b = Tripped u)"
    and "maxFails (snd (isOpen t cb)) = maxFails cb" and "resetAfter (snd (isOpen t cb)) = resetAfter cb"
  using assms by (cases b; auto simp: isOpen_def Let_def word_less_nat_alt)+

lemma recordFailure_refines:
  assumes "breaker_rel cb (Closed n)" and "sane_time (resetAfter cb) t"
  shows "breaker_rel (recordFailure t cb)
    (if unat (maxFails cb) \<le> Suc n then Tripped (t + resetAfter cb) else Closed (Suc n))"
proof -
  have n: "n < unat (maxFails cb)" "unat (consecutiveFails cb + 1) = Suc n" "openUntil cb = 0"
    using assms(1) Suc_fails [of "consecutiveFails cb" "maxFails cb"] by auto
  have w: "wrap64 (t + resetAfter cb) = t + resetAfter cb" "t + resetAfter cb \<noteq> 0"
    using assms(2) by (auto simp: sane_time_def)
  show ?thesis
  proof (cases "unat (maxFails cb) \<le> Suc n")
    case True
    with n have "consecutiveFails cb + 1 = maxFails cb" "0 < maxFails cb"
      by (auto simp: word_unat_eq_iff word_less_nat_alt)
    with w True n show ?thesis by (simp add: recordFailure_def)
  next
    case False
    with n show ?thesis by (simp add: recordFailure_def Let_def word_le_nat_alt)
  qed
qed

lemma guarded_call_refines:
  assumes "breaker_rel cb b" and "sane_time (resetAfter cb) t'" and "guarded_call t ok t' cb = (x, cb')"
  shows "\<exists>b'. breaker_call (unat (maxFails cb)) (resetAfter cb) t ok t' b = (x, b') \<and> breaker_rel cb' b'
    \<and> maxFails cb' = maxFails cb \<and> resetAfter cb' = resetAfter cb"
proof -
  obtain op cb1 where i: "isOpen t cb = (op, cb1)" by force
  note r = isOpen_refines [OF assms(1), of t, unfolded i, simplified]
  show ?thesis
  proof (cases "breaker_ask t b")
    case (Tripped u)
    with r i assms(3) show ?thesis by (auto simp: guarded_call_def)
  next
    case (Closed n)
    with r i assms(3) have x: "x" "cb' = (if ok then recordSuccess cb1 else recordFailure t' cb1)"
      by (auto simp: guarded_call_def split: if_splits)
    have "breaker_rel (recordSuccess cb1) (Closed 0)"
      using r Closed by (simp add: recordSuccess_def)
    with x r Closed assms(2) recordFailure_refines [of cb1 n t'] show ?thesis
      by (auto simp: recordSuccess_def recordFailure_def Let_def)
  qed
qed

lemma guarded_calls_refine:
  assumes "breaker_rel cb b" and "list_all (\<lambda>(_, _, t'). sane_time (resetAfter cb) t') cs"
    and "guarded_calls cs cb = (xs, cb')"
  shows "\<exists>b'. breaker_calls (unat (maxFails cb)) (resetAfter cb) cs b = (xs, b') \<and> breaker_rel cb' b'"
  using assms
proof (induction cs arbitrary: cb b xs)
  case (Cons c cs)
  obtain t ok t' where c: "c = (t, ok, t')" by (cases c)
  obtain x cb1 xs' where 1: "guarded_call t ok t' cb = (x, cb1)"
    and 2: "guarded_calls cs cb1 = (xs', cb')" and xs: "xs = x # xs'"
    using Cons.prems(3) by (auto simp: c split: prod.splits)
  from guarded_call_refines [OF Cons.prems(1) _ 1] Cons.prems(2) c
  obtain b1 where b1: "breaker_call (unat (maxFails cb)) (resetAfter cb) t ok t' b = (x, b1)" "breaker_rel cb1 b1"
      "maxFails cb1 = maxFails cb" "resetAfter cb1 = resetAfter cb" by auto
  from Cons.IH [OF b1(2) _ 2] Cons.prems(2) b1(3,4)
  obtain b' where "breaker_calls (unat (maxFails cb)) (resetAfter cb) cs b1 = (xs', b')" "breaker_rel cb' b'" by auto
  with b1 c xs show ?case by (simp del: breaker_call.simps)
qed simp

lemma breaker_trips_within:
  assumes "list_all (\<lambda>(t, ok, t'). \<not> ok) cs" and "n < m"
  shows "breaker_calls m d cs (Closed n) = (xs, b) \<Longrightarrow>
    length cs \<le> m - n \<Longrightarrow> xs = replicate (length cs) True \<and>
    b = (if length cs = m - n then Tripped (snd (snd (last cs)) + d) else Closed (n + length cs))"
  using assms
proof (induction cs arbitrary: n xs)
  case (Cons c cs)
  obtain t t' where c: "c = (t, False, t')" using Cons.prems(3) by (cases c) auto
  show ?case
  proof (cases "m \<le> Suc n")
    case True
    with Cons.prems(4) have 1: "m - n = 1" by simp
    with Cons.prems(2) have "cs = []" by simp
    with Cons.prems(1,4) True c 1 show ?thesis by (auto split: prod.splits)
  next
    case False
    with Cons.prems(1) c obtain xs' where 2: "breaker_calls m d cs (Closed (Suc n)) = (xs', b)" "xs = True # xs'"
      by (auto split: prod.splits)
    from Cons.IH [OF 2(1)] Cons.prems False 2(2) c show ?thesis by auto
  qed
qed simp

lemma guarded_calls_snoc:
  "fst (guarded_calls (cs @ [(t, ok, t')]) cb) =
     fst (guarded_calls cs cb) @ [\<not> fst (isOpen t (snd (guarded_calls cs cb)))]"
proof (induction cs arbitrary: cb)
  case Nil
  show ?case by (simp add: guarded_call_def split_beta)
next
  case (Cons c cs)
  then show ?case by (cases c) (simp add: split_beta)
qed

lemma new_breaker_closed: "0 < m \<Longrightarrow> breaker_rel (newCircuitBreaker m d) (Closed 0)"
  by (simp add: newCircuitBreaker_def word_less_nat_alt)

section \<open>Properties\<close>

text \<open>
  C19: Refinement. For every sequence of drains at times after 1970, the breaker calls or skips Redis
  exactly as the abstract breaker does, which counts consecutive failures without a width, trips
  at \<open>maxFails\<close>, stays open for \<open>resetAfter\<close> and then starts to count from zero again.
\<close>

theorem breaker_refines:
  assumes "0 < m" and "list_all (\<lambda>(_, _, t'). sane_time d t') cs"
  shows "fst (guarded_calls cs (newCircuitBreaker m d)) = fst (breaker_calls (unat m) d cs (Closed 0))"
proof -
  obtain xs cb where g: "guarded_calls cs (newCircuitBreaker m d) = (xs, cb)" by force
  from guarded_calls_refine [OF new_breaker_closed [OF assms(1)] _ g] assms(2) g show ?thesis
    by (auto simp: newCircuitBreaker_def)
qed

theorem breaker_refines_witness:
  "fst (guarded_calls [(1, False, 2), (3, False, 4), (5, True, 6), (15, True, 16)] (newCircuitBreaker 2 10))
     = [True, True, False, True]"
  using breaker_refines [of 2 10 "[(1, False, 2), (3, False, 4), (5, True, 6), (15, True, 16)]"]
  by (simp add: sane_time_def)

text \<open>
  Five consecutive failed drains, no fewer, open the stream loop's breaker; until ten seconds after
  the fifth failure, that instant included, every drain skips Redis, and the first one after it calls Redis again.
\<close>

theorem breaker_opens_after_five:
  assumes "list_all (\<lambda>(_, ok, t'). \<not> ok \<and> sane_time (10 * second) t') cs" and "cs \<noteq> []" and "length cs \<le> 5"
  shows "fst (guarded_calls (cs @ [(t, ok, t')]) (newCircuitBreaker 5 (10 * second)))
    = replicate (length cs) True @ [length cs < 5 \<or> snd (snd (last cs)) + 10 * second < t]"
proof -
  obtain xs cb where g: "guarded_calls cs (newCircuitBreaker 5 (10 * second)) = (xs, cb)" by force
  have "list_all (\<lambda>(_, _, t'). sane_time (10 * second) t') cs" "list_all (\<lambda>(t, ok, t'). \<not> ok) cs"
    using assms(1) by (auto simp: list_all_iff)
  with guarded_calls_refine [OF new_breaker_closed _ g]
  obtain b where b: "breaker_calls 5 (10 * second) cs (Closed 0) = (xs, b)" "breaker_rel cb b"
    and all_fail: "list_all (\<lambda>(t, ok, t'). \<not> ok) cs"
    by (auto simp: newCircuitBreaker_def)
  from breaker_trips_within [OF all_fail _ b(1)] assms(3)
  have "xs = replicate (length cs) True"
    and "b = (if length cs = 5 then Tripped (snd (snd (last cs)) + 10 * second) else Closed (length cs))" by auto
  with isOpen_refines(2) [OF b(2), of t] assms(3) g show ?thesis
    by (auto simp: guarded_calls_snoc)
qed

theorem breaker_opens_after_five_witness:
  "fst (guarded_calls ([(1, False, 1), (2, False, 2), (3, False, 3), (4, False, 4), (5, False, 5)] @ [(10 * second, True, 0)])
     (newCircuitBreaker 5 (10 * second))) = [True, True, True, True, True, False]"
  using breaker_opens_after_five [of "[(1, False, 1), (2, False, 2), (3, False, 3), (4, False, 4), (5, False, 5)]" "10 * second" True 0]
  by (simp add: sane_time_def second_def eval_nat_numeral)

end
