(* ===== verification/Sse_Frame.thy ===== *)
theory Sse_Frame
  imports Prelude
begin

text \<open>
  The bytes the server puts on an event stream: the event frame of \<open>writeSSEEvent\<close>
  (\<open>internal/stream/loop.go\<close>) and the heartbeat comment of \<open>sendHeartbeat\<close>
  (\<open>internal/stream/heartbeat.go\<close>). What they mean is fixed by the receiver: \<open>parse_stream\<close> is the
  event stream interpretation of the WHATWG standard, which every \<open>EventSource\<close> implements.
\<close>

abbreviation LF :: char where "LF \<equiv> CHR 0x0A"
abbreviation CR :: char where "CR \<equiv> CHR 0x0D"
abbreviation NUL :: char where "NUL \<equiv> CHR 0x00"

section \<open>What the server writes\<close>

definition sse_frame :: "string \<Rightarrow> string \<Rightarrow> string \<Rightarrow> string" where
  "sse_frame i eventType data =
     ''id: '' @ i @ [LF] @ ''event: '' @ eventType @ [LF] @ ''data: '' @ data @ [LF, LF]"

definition heartbeat_frame :: "time \<Rightarrow> string" where
  "heartbeat_frame now = '': heartbeat '' @ Itoa (Unix now) @ [LF, LF]"

section \<open>What the client reads\<close>

text \<open>
  The complete lines of a stream, ended by LF, CR or CRLF; bytes after the last line end are not
  yet a line.
\<close>

fun stream_lines :: "string \<Rightarrow> string \<Rightarrow> string list" where
  "stream_lines acc [] = []"
| "stream_lines acc (ch # cs) =
     (if ch = LF then acc # stream_lines [] cs
      else if ch = CR then acc # stream_lines [] (if cs \<noteq> [] \<and> hd cs = LF then tl cs else cs)
      else stream_lines (acc @ [ch]) cs)"

text \<open>A received event: last event id, type, data.\<close>

type_synonym sse_event = "string \<times> string \<times> string"

record parser =
  dataBuf :: "string list"
  typeBuf :: string
  lastId :: string

definition parser0 :: parser where "parser0 = \<lparr>dataBuf = [], typeBuf = [], lastId = []\<rparr>"

fun join_lines :: "string list \<Rightarrow> string" where
  "join_lines [] = []"
| "join_lines [l] = l"
| "join_lines (l # ls) = l @ [LF] @ join_lines ls"

definition field_of :: "string \<Rightarrow> string \<times> string" where
  "field_of l = (let name = takeWhile (\<lambda>ch. ch \<noteq> CHR '':'') l; rest = drop (Suc (length name)) l
     in (name, if rest \<noteq> [] \<and> hd rest = CHR '' '' then tl rest else rest))"

definition set_field :: "string \<times> string \<Rightarrow> parser \<Rightarrow> parser" where
  "set_field nv p =
     (if fst nv = ''event'' then p\<lparr>typeBuf := snd nv\<rparr>
      else if fst nv = ''data'' then p\<lparr>dataBuf := dataBuf p @ [snd nv]\<rparr>
      else if fst nv = ''id'' then (if NUL \<in> set (snd nv) then p else p\<lparr>lastId := snd nv\<rparr>)
      else p)"

definition parse_line :: "string \<Rightarrow> parser \<Rightarrow> sse_event list \<times> parser" where
  "parse_line l p =
     (if l = [] then
        (if dataBuf p = [] then []
         else [(lastId p, if typeBuf p = [] then ''message'' else typeBuf p, join_lines (dataBuf p))],
         p\<lparr>dataBuf := [], typeBuf := []\<rparr>)
      else if hd l = CHR '':'' then ([], p)
      else ([], set_field (field_of l) p))"

fun parse_lines :: "string list \<Rightarrow> parser \<Rightarrow> sse_event list \<times> parser" where
  "parse_lines [] p = ([], p)"
| "parse_lines (l # ls) p =
     (let (es, p1) = parse_line l p; (es', p2) = parse_lines ls p1 in (es @ es', p2))"

definition parse_stream :: "string \<Rightarrow> sse_event list" where
  "parse_stream s = fst (parse_lines (stream_lines [] s) parser0)"

section \<open>Lines of frames\<close>

definition one_line :: "string \<Rightarrow> bool" where
  "one_line s \<longleftrightarrow> LF \<notin> set s \<and> CR \<notin> set s"

lemma one_line_simps [simp]:
  "one_line (ch # s) \<longleftrightarrow> ch \<noteq> LF \<and> ch \<noteq> CR \<and> one_line s" "one_line []"
  "one_line (s @ t) \<longleftrightarrow> one_line s \<and> one_line t"
  by (auto simp: one_line_def)

lemma stream_lines_line:
  "one_line s \<Longrightarrow> stream_lines acc (s @ LF # t) = (acc @ s) # stream_lines [] t"
  by (induction s arbitrary: acc) auto

lemma stream_lines_partial: "one_line s \<Longrightarrow> stream_lines acc s = []"
  by (induction s arbitrary: acc) auto

lemma digits_one_line: "list_all is_digit s \<Longrightarrow> one_line s"
  by (induction s) (auto simp: is_digit_def)

lemma Itoa_one_line: "one_line (Itoa i)"
  using nat_digits_props [of "nat i"] nat_digits_props [of "nat (- i)"]
  by (auto simp: Itoa_def intro: digits_one_line)

lemma frame_lines:
  assumes "one_line i" and "one_line ty" and "one_line d"
  shows "stream_lines [] (sse_frame i ty d @ t)
    = (''id: '' @ i) # (''event: '' @ ty) # (''data: '' @ d) # [] # stream_lines [] t"
  using assms by (simp add: sse_frame_def stream_lines_line)

lemma heartbeat_lines:
  "stream_lines [] (heartbeat_frame now @ t) = ('': heartbeat '' @ Itoa (Unix now)) # [] # stream_lines [] t"
  by (simp add: heartbeat_frame_def stream_lines_line Itoa_one_line)

section \<open>Parsing frames\<close>

lemma parse_field_lines [simp]:
  "NUL \<notin> set i \<Longrightarrow> parse_line (''id: '' @ i) p = ([], p\<lparr>lastId := i\<rparr>)"
  "parse_line (''event: '' @ ty) p = ([], p\<lparr>typeBuf := ty\<rparr>)"
  "parse_line (''data: '' @ d) p = ([], p\<lparr>dataBuf := dataBuf p @ [d]\<rparr>)"
  "parse_line ('': heartbeat '' @ h) p = ([], p)"
  by (simp_all add: parse_line_def field_of_def set_field_def)

lemma parse_blank [simp]:
  "parse_line [] p = (if dataBuf p = [] then []
     else [(lastId p, if typeBuf p = [] then ''message'' else typeBuf p, join_lines (dataBuf p))],
     p\<lparr>dataBuf := [], typeBuf := []\<rparr>)"
  by (simp add: parse_line_def)

text \<open>What the loop writes to a stream: event frames and heartbeats, and what each means to the client.\<close>

datatype chunk = EventChunk string string string | HeartbeatChunk time

fun chunk_bytes :: "chunk \<Rightarrow> string" where
  "chunk_bytes (EventChunk i ty d) = sse_frame i ty d"
| "chunk_bytes (HeartbeatChunk t) = heartbeat_frame t"

fun chunk_events :: "chunk \<Rightarrow> sse_event list" where
  "chunk_events (EventChunk i ty d) = [(i, ty, d)]"
| "chunk_events (HeartbeatChunk t) = []"

text \<open>Field values that fit on one line; an event id with a NUL byte is ignored by clients.\<close>

fun clean_chunk :: "chunk \<Rightarrow> bool" where
  "clean_chunk (EventChunk i ty d) \<longleftrightarrow> one_line i \<and> NUL \<notin> set i \<and> one_line ty \<and> ty \<noteq> [] \<and> one_line d"
| "clean_chunk (HeartbeatChunk t) \<longleftrightarrow> True"

lemma parse_chunks:
  assumes "list_all clean_chunk cs" and "dataBuf p = []" and "typeBuf p = []"
  shows "\<exists>q. fst (parse_lines (stream_lines [] (concat (map chunk_bytes cs) @ t)) p)
      = concat (map chunk_events cs) @ fst (parse_lines (stream_lines [] t) q)
    \<and> dataBuf q = [] \<and> typeBuf q = []"
  using assms
proof (induction cs arbitrary: p)
  case Nil
  then show ?case by auto
next
  case (Cons c cs)
  show ?case
  proof (cases c)
    case (EventChunk i ty d)
    let ?q = "p\<lparr>lastId := i, dataBuf := [], typeBuf := []\<rparr>"
    from Cons.IH [of ?q] Cons.prems EventChunk show ?thesis
      by (auto simp: frame_lines split_beta simp del: append_Cons)
  next
    case (HeartbeatChunk h)
    from Cons.IH [of "p\<lparr>dataBuf := [], typeBuf := []\<rparr>"] Cons.prems HeartbeatChunk show ?thesis
      by (auto simp: heartbeat_lines split_beta simp del: append_Cons)
  qed
qed

text \<open>The lines of a prefix are a prefix of the lines.\<close>

lemma stream_lines_prefix:
  "prefix s t \<Longrightarrow> CR \<notin> set t \<Longrightarrow> prefix (stream_lines acc s) (stream_lines acc t)"
proof (induction s arbitrary: acc t)
  case (Cons ch s)
  then obtain t' where "t = ch # t'" "prefix s t'" by (cases t) auto
  with Cons.IH [of t'] Cons.prems(2) show ?case by auto
qed simp

lemma parse_nonblank:
  "\<forall>l \<in> set ls. l \<noteq> [] \<Longrightarrow> fst (parse_lines ls p) = []"
  by (induction ls arbitrary: p) (auto simp: parse_line_def split_beta)

lemma cut_frame_silent:
  assumes "strict_prefix s (sse_frame i ty d)" and "one_line i" and "one_line ty" and "one_line d"
  shows "fst (parse_lines (stream_lines [] s) p) = []"
proof -
  let ?body = "''id: '' @ i @ LF # ''event: '' @ ty @ LF # ''data: '' @ d @ [LF]"
  have "sse_frame i ty d = ?body @ [LF]" by (simp add: sse_frame_def)
  with assms(1) have "prefix s ?body" by (metis strict_prefix_def prefix_snoc)
  moreover have "CR \<notin> set ?body" using assms(2-4) by (auto simp: one_line_def)
  ultimately have "prefix (stream_lines [] s) (stream_lines [] ?body)" by (rule stream_lines_prefix)
  moreover have "stream_lines [] ?body = [''id: '' @ i, ''event: '' @ ty, ''data: '' @ d]"
    using assms(2-4) by (simp add: stream_lines_line)
  ultimately have "set (stream_lines [] s) \<subseteq> set [''id: '' @ i, ''event: '' @ ty, ''data: '' @ d]"
    by (metis set_mono_prefix)
  then show ?thesis by (intro parse_nonblank) auto
qed

section \<open>Properties\<close>

text \<open>
  C24: Round trip. For event frames whose fields are single lines, in any order and mixed with any
  heartbeats, the client's parser recovers exactly the events that were written, in order; a frame
  that the connection cut short at the end adds nothing.
\<close>

theorem sse_roundtrip:
  assumes "list_all clean_chunk cs" and "clean_chunk (EventChunk i ty d)"
    and "strict_prefix s (sse_frame i ty d)"
  shows "parse_stream (concat (map chunk_bytes cs) @ s) = concat (map chunk_events cs)"
proof -
  obtain q where "fst (parse_lines (stream_lines [] (concat (map chunk_bytes cs) @ s)) parser0)
      = concat (map chunk_events cs) @ fst (parse_lines (stream_lines [] s) q)"
    using parse_chunks [OF assms(1), of parser0 s] by (auto simp: parser0_def)
  with cut_frame_silent [OF assms(3)] assms(2) show ?thesis by (simp add: parse_stream_def)
qed

theorem sse_roundtrip_witness:
  "parse_stream (concat (map chunk_bytes [EventChunk ''1'' ''order'' ''{}'', HeartbeatChunk 0]) @ ''id: 2'')
     = [(''1'', ''order'', ''{}'')]"
proof -
  have "strict_prefix ''id: 2'' (sse_frame ''2'' ''x'' [])"
    by (simp add: sse_frame_def strict_prefix_def)
  from sse_roundtrip [OF _ _ this, of "[EventChunk ''1'' ''order'' ''{}'', HeartbeatChunk 0]"] show ?thesis
    by (simp del: chunk_bytes.simps)
qed

text \<open>
  The data of an event is written on one \<open>data:\<close> line whatever it contains: of data with a line
  break the client receives only the part before it (unless the next line happens to be a field).
\<close>

theorem multiline_data_truncated:
  assumes "clean_chunk (EventChunk i ty d)" and "one_line l" and "l \<noteq> []"
    and "fst (field_of l) \<notin> {''event'', ''data'', ''id''}"
  shows "parse_stream (sse_frame i ty (d @ LF # l)) = [(i, ty, d)]"
proof -
  have "stream_lines [] (sse_frame i ty (d @ LF # l)) = [''id: '' @ i, ''event: '' @ ty, ''data: '' @ d, l, []]"
    using assms by (simp add: sse_frame_def stream_lines_line)
  moreover have "parse_line l p = ([], p)" for p
    using assms(3,4) by (simp add: parse_line_def set_field_def)
  ultimately show ?thesis
    using assms by (simp add: parse_stream_def split_beta parser0_def del: append_Cons)
qed

theorem multiline_data_truncated_witness:
  "parse_stream (sse_frame ''1'' ''order'' (''{'' @ LF # '' x:1}'')) = [(''1'', ''order'', ''{'')]"
  by (rule multiline_data_truncated) (simp_all add: field_of_def)

text \<open>
  The event type is written as it is: a type that contains line breaks makes the client receive a
  forged event in front of the real one.
\<close>

theorem event_type_injection:
  assumes "clean_chunk (EventChunk i ty forged)" and "clean_chunk (EventChunk i ty2 d)"
  shows "parse_stream (sse_frame i (ty @ LF # ''data: '' @ forged @ LF # LF # ''event: '' @ ty2) d)
    = [(i, ty, forged), (i, ty2, d)]"
proof -
  have "stream_lines [] (sse_frame i (ty @ LF # ''data: '' @ forged @ LF # LF # ''event: '' @ ty2) d)
      = [''id: '' @ i, ''event: '' @ ty, ''data: '' @ forged, [], ''event: '' @ ty2, ''data: '' @ d, []]"
    using assms by (simp add: sse_frame_def stream_lines_line)
  then show ?thesis using assms by (simp add: parse_stream_def split_beta parser0_def del: append_Cons)
qed

theorem event_type_injection_witness:
  "parse_stream (sse_frame ''1'' (''a'' @ LF # ''data: '' @ ''evil'' @ LF # LF # ''event: '' @ ''b'') ''{}'')
    = [(''1'', ''a'', ''evil''), (''1'', ''b'', ''{}'')]"
  by (rule event_type_injection) simp_all

end
