(* ===== verification/Stream_Loop.thy ===== *)
theory Stream_Loop
  imports World Event_Store InFlight_Store Config Circuit_Breaker Sse_Frame
begin

text \<open>
  The event loop of one stream (\<open>internal/stream/loop.go\<close>, \<open>internal/stream/heartbeat.go\<close>). The
  response writer fails at the writes an arbitrary schedule \<open>faults\<close> names, possibly after it sent a
  part of the bytes; which channel of the \<open>select\<close> is ready is an arbitrary sequence too. The JSON
  decoder is a parameter (\<open>None\<close> is its error), logging and the tracing span are not modelled. The breaker's
  two readings of the clock are taken at each drain, also where the code finds the breaker closed and
  does not look at the time; the clock is arbitrary, so a reading that is not used says nothing.
\<close>

section \<open>The response writer\<close>

record respw =
  sent :: string
  flushed :: nat
  deadline :: time
  writes :: nat
  faults :: "nat \<Rightarrow> (nat \<times> go_error) option"

definition w_Write :: "string \<Rightarrow> respw \<Rightarrow> go_error option \<times> respw" where
  "w_Write b w =
     (case faults w (writes w) of
        None \<Rightarrow> (None, w\<lparr>sent := sent w @ b, writes := Suc (writes w)\<rparr>)
      | Some (n, e) \<Rightarrow> (Some e, w\<lparr>sent := sent w @ take n b, writes := Suc (writes w)\<rparr>))"

definition w_Flush :: "respw \<Rightarrow> respw" where
  "w_Flush w = w\<lparr>flushed := length (sent w)\<rparr>"

definition SetWriteDeadline :: "time \<Rightarrow> respw \<Rightarrow> respw" where
  "SetWriteDeadline t w = w\<lparr>deadline := t\<rparr>"

definition writeSSEEvent :: "respw \<Rightarrow> string \<Rightarrow> string \<Rightarrow> string \<Rightarrow> go_error option \<times> respw" where
  "writeSSEEvent w i eventType data = w_Write (sse_frame i eventType data) w"

section \<open>The loop\<close>

text \<open>What a stream is started with, and the state it runs on.\<close>

record 'r stream_env =
  se_redis :: "'r redis"
  se_events :: eventStore
  se_inFlight :: bool
  se_cfg :: sse_cfg
  se_client :: string
  se_ip :: string

record ('r, 'n) stream =
  sw :: "('r, 'n) world"
  swr :: respw
  scb :: circuitBreaker

definition sendHeartbeat :: "('r, 'n) stream \<Rightarrow> go_error option \<times> ('r, 'n) stream" where
  "sendHeartbeat st =
     (let (t, w1) = time_now (sw st);
          wr1 = SetWriteDeadline (t + 5 * second) (swr st);
          (t2, w2) = time_now w1
      in case w_Write (heartbeat_frame t2) wr1 of
           (Some e, wr2) \<Rightarrow> (Some e, st\<lparr>sw := w2, swr := SetWriteDeadline zero_time wr2\<rparr>)
         | (None, wr2) \<Rightarrow>
             (None, st\<lparr>sw := count (\<lambda>m. m\<lparr>HeartbeatsSentTotal := Suc (HeartbeatsSentTotal m)\<rparr>) w2,
                       swr := SetWriteDeadline zero_time (w_Flush wr2)\<rparr>))"

definition event_type :: "EventPayload \<Rightarrow> string" where
  "event_type e = (if ev_Type e = [] then ''message'' else ev_Type e)"

text \<open>
  The loop over a batch; \<open>False\<close> is the early return after a failed write. A malformed event is
  skipped, a failure to register an event as in flight is only logged.
\<close>

fun deliver :: "'r stream_env \<Rightarrow> go_context \<Rightarrow> string list \<Rightarrow> ('r, 'n) stream \<Rightarrow> bool \<times> ('r, 'n) stream" where
  "deliver env c [] st = (True, st)"
| "deliver env c (raw # batch) st =
     (case Unmarshal_EventPayload raw of
        None \<Rightarrow> deliver env c batch st
      | Some e \<Rightarrow>
          let eventType = event_type e;
              (t, w1) = time_now (sw st);
              wr1 = SetWriteDeadline (t + 5 * second) (swr st)
          in case writeSSEEvent wr1 (ev_ID e) eventType (ev_Data e) of
               (Some _, wr2) \<Rightarrow> (False, st\<lparr>sw := w1, swr := SetWriteDeadline zero_time wr2\<rparr>)
             | (None, wr2) \<Rightarrow>
                 let w3 = (if se_inFlight env
                           then let (t2, w2) = time_now w1
                                in snd (on_rdb (InFlight_Register (se_redis env) c
                                          (se_client env) (ev_ID e) t2) w2)
                           else w1);
                     w4 = count (\<lambda>m. m\<lparr>EventsDeliveredTotal := inc_at [eventType] (EventsDeliveredTotal m)\<rparr>) w3
                 in deliver env c batch (st\<lparr>sw := w4, swr := wr2\<rparr>))"

definition drainAndFlush :: "'r stream_env \<Rightarrow> go_context \<Rightarrow> ('r, 'n) stream \<Rightarrow> ('r, 'n) stream" where
  "drainAndFlush env c st =
     (let (t, w1) = time_now (sw st);
          (op, cb1) = isOpen t (scb st)
      in if op then st\<lparr>sw := w1, scb := cb1\<rparr>
         else case on_rdb (Drain (se_redis env) (se_events env) c (se_client env) (BatchSize (se_cfg env))) w1 of
           (Inl _, w2) \<Rightarrow>
             let w3 = count (\<lambda>m. m\<lparr>EventDrainErrorsTotal := Suc (EventDrainErrorsTotal m)\<rparr>) w2;
                 (t2, w4) = time_now w3
             in st\<lparr>sw := w4, scb := recordFailure t2 cb1\<rparr>
         | (Inr (batch, remaining), w2) \<Rightarrow>
             let w3 = count (\<lambda>m. m\<lparr>EventsDrainedPerTick := EventsDrainedPerTick m @ [int (length batch)],
                                   QueueDepth := remaining\<rparr>) w2;
                 (done, st1) = deliver env c batch (st\<lparr>sw := w3, scb := recordSuccess cb1\<rparr>)
             in if \<not> done then st1
                else if batch \<noteq> [] then
                  let (t2, w4) = time_now (sw st1)
                  in st1\<lparr>sw := w4, swr := SetWriteDeadline zero_time
                       (w_Flush (SetWriteDeadline (t2 + 5 * second) (swr st1)))\<rparr>
                else st1)"

text \<open>
  The channel a \<open>select\<close> finds ready. At a poll tick the request's context may already be
  cancelled, since a \<open>select\<close> picks among the ready channels at random.
\<close>

datatype select = AppDone | CtxDone | HeartbeatTick | PollTick go_context

text \<open>How the loop stands after a sequence of ready channels.\<close>

datatype loop_end = Running | Returned | Panicked

fun select_loop :: "'r stream_env \<Rightarrow> select list \<Rightarrow> ('r, 'n) stream \<Rightarrow> loop_end \<times> ('r, 'n) stream" where
  "select_loop env [] st = (Running, st)"
| "select_loop env (AppDone # _) st = (Returned, drainAndFlush env Background st)"
| "select_loop env (CtxDone # _) st = (Returned, drainAndFlush env Background st)"
| "select_loop env (HeartbeatTick # es) st =
     (case sendHeartbeat st of (Some _, st1) \<Rightarrow> (Returned, st1) | (None, st1) \<Rightarrow> select_loop env es st1)"
| "select_loop env (PollTick c # es) st =
     (let (_, w1) = on_rdb (Refresh (se_redis env) c (se_client env) (se_ip env) (ConnTTL (se_cfg env))) (sw st)
      in select_loop env es (drainAndFlush env c (st\<lparr>sw := w1\<rparr>)))"

text \<open>\<open>time.NewTicker\<close> panics on an interval that is not positive.\<close>

definition RunLoop ::
  "'r stream_env \<Rightarrow> go_context \<Rightarrow> select list \<Rightarrow> ('r, 'n) world \<Rightarrow> respw \<Rightarrow> loop_end \<times> ('r, 'n) stream" where
  "RunLoop env c es w wr =
     (let cb = newCircuitBreaker 5 (10 * second);
          st = drainAndFlush env c \<lparr>sw = w, swr = wr, scb = cb\<rparr>
      in if PollInterval (se_cfg env) \<le> 0 \<or> HeartbeatInterval (se_cfg env) \<le> 0 then (Panicked, st)
         else select_loop env es st)"

section \<open>What one batch does\<close>

text \<open>The frame a queued entry is delivered as, if it can be decoded.\<close>

definition chunk_of :: "string \<Rightarrow> chunk option" where
  "chunk_of raw = map_option (\<lambda>e. EventChunk (ev_ID e) (event_type e) (ev_Data e)) (Unmarshal_EventPayload raw)"

definition chunks_of :: "string list \<Rightarrow> chunk list" where
  "chunks_of batch = List.map_filter chunk_of batch"

lemma chunks_of_simps [simp]:
  "chunks_of [] = []"
  "chunks_of (raw # batch) = (case chunk_of raw of None \<Rightarrow> [] | Some c \<Rightarrow> [c]) @ chunks_of batch"
  "chunks_of (xs @ ys) = chunks_of xs @ chunks_of ys"
  by (simp_all add: chunks_of_def List.map_filter_simps map_filter_def split: option.split)

lemma w_simps [simp]:
  "sent (SetWriteDeadline t w) = sent w" "faults (SetWriteDeadline t w) = faults w"
  "deadline (SetWriteDeadline t w) = t" "writes (SetWriteDeadline t w) = writes w"
  "sent (w_Flush w) = sent w" "faults (w_Flush w) = faults w"
  "deadline (w_Flush w) = deadline w" "flushed (w_Flush w) = length (sent w)"
  by (simp_all add: SetWriteDeadline_def w_Flush_def)

lemma w_Write_cases:
  assumes "w_Write b w = (x, w')"
  shows "(x = None \<and> sent w' = sent w @ b) \<or> (\<exists>e n. x = Some e \<and> sent w' = sent w @ take n b)"
    and "faults w' = faults w" and "deadline w' = deadline w"
  using assms by (auto simp: w_Write_def split: option.splits)

lemma deliver_sends:
  assumes "deliver env c batch st = (True, st')"
  shows "sent (swr st') = sent (swr st) @ concat (map chunk_bytes (chunks_of batch))
    \<and> faults (swr st') = faults (swr st) \<and> scb st' = scb st"
  using assms
proof (induction batch arbitrary: st)
  case (Cons raw batch)
  show ?case
  proof (cases "Unmarshal_EventPayload raw")
    case None
    with Cons show ?thesis by (simp add: chunk_of_def)
  next
    case (Some e)
    with Cons.prems obtain t w1 wr2 w4 where
      wr: "w_Write (sse_frame (ev_ID e) (event_type e) (ev_Data e)) (SetWriteDeadline (t + 5 * second) (swr st)) = (None, wr2)"
      and rest: "deliver env c batch (st\<lparr>sw := w4, swr := wr2\<rparr>) = (True, st')"
      by (auto simp: writeSSEEvent_def Let_def split: prod.splits option.splits)
    from Cons.IH [OF rest] w_Write_cases [OF wr] Some show ?thesis by (auto simp: chunk_of_def)
  qed
qed simp

lemma deliver_cut:
  assumes "deliver env c batch st = (False, st')"
  shows "\<exists>pre raw post ch n. batch = pre @ raw # post \<and> chunk_of raw = Some ch
    \<and> sent (swr st') = sent (swr st) @ concat (map chunk_bytes (chunks_of pre)) @ take n (chunk_bytes ch)
    \<and> scb st' = scb st \<and> deadline (swr st') = zero_time"
  using assms
proof (induction batch arbitrary: st)
  case (Cons raw batch)
  show ?case
  proof (cases "Unmarshal_EventPayload raw")
    case None
    with Cons.prems Cons.IH [of st] obtain pre raw' post ch n where
      "batch = pre @ raw' # post" "chunk_of raw' = Some ch"
      "sent (swr st') = sent (swr st) @ concat (map chunk_bytes (chunks_of pre)) @ take n (chunk_bytes ch)"
      "scb st' = scb st" "deadline (swr st') = zero_time"
      by auto
    with None show ?thesis by (intro exI [of _ "raw # pre"]) (auto simp: chunk_of_def)
  next
    case (Some e)
    let ?frame = "sse_frame (ev_ID e) (event_type e) (ev_Data e)"
    obtain t w1 where tn: "time_now (sw st) = (t, w1)" by force
    obtain x wr2 where wr: "w_Write ?frame (SetWriteDeadline (t + 5 * second) (swr st)) = (x, wr2)" by force
    show ?thesis
    proof (cases x)
      case None
      with Cons.prems Some tn wr obtain w4 where
        rest: "deliver env c batch (st\<lparr>sw := w4, swr := wr2\<rparr>) = (False, st')"
        by (auto simp: writeSSEEvent_def Let_def split: prod.splits)
      from Cons.IH [OF rest] obtain pre raw' post ch n where
        "batch = pre @ raw' # post" "chunk_of raw' = Some ch"
        "sent (swr st') = sent wr2 @ concat (map chunk_bytes (chunks_of pre)) @ take n (chunk_bytes ch)"
        "scb st' = scb st" "deadline (swr st') = zero_time" by auto
      with Some None w_Write_cases(1) [OF wr] show ?thesis
        by (intro exI [of _ "raw # pre"]) (auto simp: chunk_of_def)
    next
      case (Some _)
      with Cons.prems \<open>Unmarshal_EventPayload raw = Some e\<close> tn wr
      have "st' = st\<lparr>sw := w1, swr := SetWriteDeadline zero_time wr2\<rparr>"
        by (auto simp: writeSSEEvent_def Let_def)
      with Some \<open>Unmarshal_EventPayload raw = Some e\<close> w_Write_cases(1) [OF wr] show ?thesis
        by (intro exI [of _ "[]"] exI [of _ raw] exI [of _ batch] exI [of _ "EventChunk (ev_ID e) (event_type e) (ev_Data e)"])
          (auto simp: chunk_of_def)
    qed
  qed
qed simp

lemma deliver_no_fault:
  assumes "\<forall>k. faults (swr st) k = None"
  shows "fst (deliver env c batch st)"
  using assms
proof (induction batch arbitrary: st)
  case (Cons raw batch)
  then show ?case
    by (auto simp: writeSSEEvent_def w_Write_def Let_def time_now_def split: option.splits)
qed simp

section \<open>What one batch does to Redis\<close>

text \<open>
  A stream on which nothing fails: Redis answers in every context of \<open>C\<close>, the client's queue is a
  list, the breaker is closed and no write fails.
\<close>

definition healthy ::
  "('r \<Rightarrow> keyspace) \<Rightarrow> (go_context \<Rightarrow> 'r \<Rightarrow> bool) \<Rightarrow> go_context set \<Rightarrow> string \<Rightarrow> ('r, 'n) stream \<Rightarrow> bool" where
  "healthy ks up C cl st \<longleftrightarrow> (\<forall>c \<in> C. up c (rdb (sw st))) \<and> list_or_none (ks (rdb (sw st)) (eventsKey cl))
     \<and> openUntil (scb st) = 0 \<and> (\<forall>k. faults (swr st) k = None)"

text \<open>
  \<open>extends\<close>: the second key space has every key of the first (the queue apart), the queue of \<open>cl\<close>
  is \<open>q\<close>, and the same events are acknowledged.
\<close>

definition extends :: "string \<Rightarrow> string list \<Rightarrow> keyspace \<Rightarrow> keyspace \<Rightarrow> bool" where
  "extends cl q m m' \<longleftrightarrow> list_at (m' (eventsKey cl)) = q \<and> (\<forall>k. k \<noteq> eventsKey cl \<longrightarrow> m k \<noteq> None \<longrightarrow> m' k \<noteq> None)
     \<and> (\<forall>a ev. m' (ackedKey a ev) = m (ackedKey a ev))"

lemma extends_trans: "extends cl q m m' \<Longrightarrow> extends cl q' m' m'' \<Longrightarrow> extends cl q' m m''"
  by (simp add: extends_def)

context redis_laws
begin

lemma Drain_up:
  assumes "up c r" and "list_or_none (ks r (eventsKey cl))"
  shows "\<exists>es n r'. Drain R s c cl b r = (Inr (es, n), r') \<and> list_or_none (ks r' (eventsKey cl))
    \<and> (\<forall>c'. up c' r \<longrightarrow> up c' r')"
proof -
  let ?k = "eventsKey cl"
  obtain x1 r1 where 1: "rLRange R c ?k 0 (wrap64 (b - 1)) r = (x1, r1)" by force
  with assms lrange_up obtain xs where x1: "x1 = Inr xs" by (cases x1) auto
  have u1: "\<forall>c'. up c' r \<longrightarrow> up c' r1" using up_stable 1 by (metis snd_conv)
  have k1: "list_or_none (ks r1 ?k)" using lrange_ok 1 x1 assms(2) by fastforce
  obtain x2 r2 where 2: "rLTrim R c ?k b (- 1) r1 = (x2, r2)" by force
  with assms(1) u1 k1 ltrim_up obtain a where x2: "x2 = Inr a" by (cases x2) auto
  have u2: "\<forall>c'. up c' r1 \<longrightarrow> up c' r2" using up_stable 2 by (metis snd_conv)
  have k2: "list_or_none (ks r2 ?k)" using ltrim_ok 2 x2 by fastforce
  obtain x3 r3 where 3: "rLLen R c ?k r2 = (x3, r3)" by force
  with assms(1) u1 u2 k2 llen_up obtain n where x3: "x3 = Inr n" by (cases x3) auto
  have u3: "\<forall>c'. up c' r2 \<longrightarrow> up c' r3" using up_stable 3 by (metis snd_conv)
  have k3: "list_or_none (ks r3 ?k)" using llen_ok 3 x3 k2 by fastforce
  from 1 2 3 x1 x2 x3 u1 u2 u3 k3 show ?thesis by (auto simp: Drain_def)
qed

lemma InFlight_Register_up:
  assumes "up c r"
  shows "\<exists>r'. InFlight_Register R c cl ev t r = (None, r') \<and> (\<forall>c'. up c' r \<longrightarrow> up c' r')"
proof -
  obtain x r1 where p: "rSet R c (inFlightKey cl ev) (RFC3339Nano t) inFlightTTL r = (x, r1)" by force
  with set_up [OF assms, of inFlightTTL] obtain a where "x = Inr a"
    by (cases x) (auto simp: inFlightTTL_def hour_def second_def)
  moreover have "\<forall>c'. up c' r \<longrightarrow> up c' r1" using up_stable p by (metis snd_conv)
  ultimately show ?thesis using p by (simp add: InFlight_Register_def)
qed

lemma Refresh_up:
  assumes "up c r" and "0 < d"
  shows "\<exists>r'. Refresh R c cl ip d r = (None, r') \<and> (\<forall>c'. up c' r \<longrightarrow> up c' r')
    \<and> extends cl' (queue_of ks r cl') (ks r) (ks r') \<and> ks r' (eventsKey cl') = ks r (eventsKey cl')"
proof -
  obtain x r1 where p: "rExpire R c (connKey cl ip) d r = (x, r1)" by force
  with expire_up [OF assms(1)] obtain b where "x = Inr b" by (cases x) auto
  moreover from this p have rf: "Refresh R c cl ip d r = (None, r1)" by (simp add: Refresh_def)
  moreover have "\<forall>c'. up c' r \<longrightarrow> up c' r1" using up_stable p by (metis snd_conv)
  ultimately show ?thesis using Refresh_effect [OF rf assms(2)] by (auto simp: extends_def queue_of_def)
qed

text \<open>One delivered event: registered as in flight, nothing else of Redis touched.\<close>

lemma deliver_one:
  assumes "up c (rdb (sw st))" and "se_redis env = R" and "\<forall>k. faults (swr st) k = None"
    and "Unmarshal_EventPayload raw = Some e"
  shows "\<exists>st1. deliver env c (raw # batch) st = deliver env c batch st1 \<and> (\<forall>k. faults (swr st1) k = None)
    \<and> (\<forall>c'. up c' (rdb (sw st)) \<longrightarrow> up c' (rdb (sw st1)))
    \<and> extends (se_client env) (queue_of ks (rdb (sw st)) (se_client env)) (ks (rdb (sw st))) (ks (rdb (sw st1)))
    \<and> ks (rdb (sw st1)) (eventsKey (se_client env)) = ks (rdb (sw st)) (eventsKey (se_client env))
    \<and> (se_inFlight env \<longrightarrow> ks (rdb (sw st1)) (inFlightKey (se_client env) (ev_ID e)) \<noteq> None)"
proof -
  obtain t w1 t2 w2 where tn: "time_now (sw st) = (t, w1)" "time_now w1 = (t2, w2)" by (metis surj_pair)
  then have r: "rdb w1 = rdb (sw st)" "rdb w2 = rdb (sw st)" by (metis snd_conv time_now_simps(1))+
  obtain wr2 where wr: "writeSSEEvent (SetWriteDeadline (t + 5 * second) (swr st)) (ev_ID e) (event_type e) (ev_Data e) = (None, wr2)"
    and f2: "\<forall>k. faults wr2 k = None"
    using assms(3) by (auto simp: writeSSEEvent_def w_Write_def)
  from InFlight_Register_up [OF assms(1)] obtain rr where
    reg: "InFlight_Register R c (se_client env) (ev_ID e) t2 (rdb (sw st)) = (None, rr)"
    and up: "\<forall>c'. up c' (rdb (sw st)) \<longrightarrow> up c' rr" by blast
  define w4 where "w4 = count (\<lambda>m. m\<lparr>EventsDeliveredTotal := inc_at [event_type e] (EventsDeliveredTotal m)\<rparr>)
    (if se_inFlight env then w2\<lparr>rdb := rr\<rparr> else w1)"
  have "deliver env c (raw # batch) st = deliver env c batch (st\<lparr>sw := w4, swr := wr2\<rparr>)"
    using assms(2,4) tn wr reg r by (simp add: w4_def on_rdb_def Let_def)
  moreover have "rdb w4 = (if se_inFlight env then rr else rdb (sw st))" by (simp add: w4_def r)
  ultimately show ?thesis using f2 up InFlight_Register_effect [OF reg]
    by (intro exI [of _ "st\<lparr>sw := w4, swr := wr2\<rparr>"]) (auto simp: extends_def queue_of_def)
qed

lemma deliver_redis:
  assumes "up c (rdb (sw st))" and "se_redis env = R" and "\<forall>k. faults (swr st) k = None"
    and "deliver env c batch st = (b, st')"
  shows "(\<forall>c'. up c' (rdb (sw st)) \<longrightarrow> up c' (rdb (sw st')))
    \<and> extends (se_client env) (queue_of ks (rdb (sw st)) (se_client env)) (ks (rdb (sw st))) (ks (rdb (sw st')))
    \<and> ks (rdb (sw st')) (eventsKey (se_client env)) = ks (rdb (sw st)) (eventsKey (se_client env))
    \<and> (se_inFlight env \<longrightarrow> (\<forall>raw \<in> set batch. \<forall>e. Unmarshal_EventPayload raw = Some e \<longrightarrow>
          ks (rdb (sw st')) (inFlightKey (se_client env) (ev_ID e)) \<noteq> None))"
  using assms
proof (induction batch arbitrary: st)
  case Nil
  then show ?case by (auto simp: extends_def queue_of_def)
next
  case (Cons raw batch)
  show ?case
  proof (cases "Unmarshal_EventPayload raw")
    case None
    with Cons.IH [OF Cons.prems(1,2,3)] Cons.prems(4) show ?thesis by auto
  next
    case (Some e)
    from deliver_one [OF Cons.prems(1,2,3) Some, of batch] Cons.prems(4) obtain st1 where
      rest: "deliver env c batch st1 = (b, st')" and f: "\<forall>k. faults (swr st1) k = None"
      and up: "\<forall>c'. up c' (rdb (sw st)) \<longrightarrow> up c' (rdb (sw st1))"
      and eff: "extends (se_client env) (queue_of ks (rdb (sw st)) (se_client env)) (ks (rdb (sw st))) (ks (rdb (sw st1)))"
        "ks (rdb (sw st1)) (eventsKey (se_client env)) = ks (rdb (sw st)) (eventsKey (se_client env))"
        "se_inFlight env \<longrightarrow> ks (rdb (sw st1)) (inFlightKey (se_client env) (ev_ID e)) \<noteq> None" by auto
    have q: "queue_of ks (rdb (sw st1)) (se_client env) = queue_of ks (rdb (sw st)) (se_client env)"
      using eff(2) by (simp add: queue_of_def)
    from up Cons.prems(1) have "up c (rdb (sw st1))" by blast
    from Cons.IH [OF this Cons.prems(2) f rest] q up eff Some show ?thesis
      by (auto intro: extends_trans simp: extends_def)
  qed
qed

text \<open>One drain of a healthy stream.\<close>

lemma drain_step:
  assumes "healthy ks up C (se_client env) st" and "c \<in> C" and "se_redis env = R"
    and "0 < BatchSize (se_cfg env)" and "BatchSize (se_cfg env) < 2 ^ 63"
    and "st' = drainAndFlush env c st" and "q = queue_of ks (rdb (sw st)) (se_client env)"
    and "b = nat (BatchSize (se_cfg env))"
  shows "healthy ks up C (se_client env) st'
    \<and> sent (swr st') = sent (swr st) @ concat (map chunk_bytes (chunks_of (take b q)))
    \<and> extends (se_client env) (drop b q) (ks (rdb (sw st))) (ks (rdb (sw st')))
    \<and> (se_inFlight env \<longrightarrow> (\<forall>raw \<in> set (take b q). \<forall>e. Unmarshal_EventPayload raw = Some e \<longrightarrow>
          ks (rdb (sw st')) (inFlightKey (se_client env) (ev_ID e)) \<noteq> None))"
proof -
  let ?cl = "se_client env"
  obtain t w1 where tn: "time_now (sw st) = (t, w1)" by force
  then have r1: "rdb w1 = rdb (sw st)" by (metis snd_conv time_now_simps(1))
  from assms(1) have cb: "isOpen t (scb st) = (False, scb st)" by (simp add: healthy_def isOpen_def)
  from assms(1,2) have "up c (rdb (sw st))" "list_or_none (ks (rdb (sw st)) (eventsKey ?cl))"
    by (auto simp: healthy_def)
  from Drain_up [OF this] obtain es n r' where dr: "Drain R (se_events env) c ?cl (BatchSize (se_cfg env)) (rdb (sw st)) = (Inr (es, n), r')"
    and l: "list_or_none (ks r' (eventsKey ?cl))" and u: "\<forall>c'. up c' (rdb (sw st)) \<longrightarrow> up c' r'" by blast
  note eff = Drain_effect [OF dr]
  have es: "es = take b q" using eff assms(4,5,7,8) by (simp add: slice_simps)
  have kr: "ks r' = put_list (eventsKey ?cl) (drop b q) (ks (rdb (sw st)))"
    using eff assms(4,7,8) by (simp add: slice_simps)
  define st1 where "st1 = st\<lparr>sw := count (\<lambda>m. m\<lparr>EventsDrainedPerTick := EventsDrainedPerTick m @ [int (length es)],
      QueueDepth := n\<rparr>) (w1\<lparr>rdb := r'\<rparr>), scb := recordSuccess (scb st)\<rparr>"
  have s1: "rdb (sw st1) = r'" "swr st1 = swr st" "openUntil (scb st1) = 0"
    by (simp_all add: st1_def recordSuccess_def)
  obtain dn st2 where dl: "deliver env c es st1 = (dn, st2)" by force
  have nf: "\<forall>k. faults (swr st1) k = None" using assms(1) s1 by (simp add: healthy_def)
  then have "dn" using deliver_no_fault dl by (metis fst_conv)
  note ds = deliver_sends [OF dl [unfolded \<open>dn\<close> [THEN eq_True [THEN iffD2]]]]
  have "up c (rdb (sw st1))" using u assms(1,2) s1 by (auto simp: healthy_def)
  note dred = deliver_redis [OF this assms(3) nf dl]
  have st': "rdb (sw st') = rdb (sw st2)" "sent (swr st') = sent (swr st2)" "faults (swr st') = faults (swr st2)"
      "scb st' = scb st2"
    using assms(3,6) tn cb dr r1 dl \<open>dn\<close> by (simp_all add: drainAndFlush_def on_rdb_def Let_def st1_def time_now_def)
  show ?thesis
    using ds dred st' s1 u kr l es assms(1) nf
    by (auto simp: healthy_def extends_def queue_of_def put_list_other)
qed

lemma heartbeat_step:
  assumes "healthy ks up C cl st" and "sendHeartbeat st = (x, st')"
  shows "x = None \<and> healthy ks up C cl st' \<and> rdb (sw st') = rdb (sw st)
    \<and> (\<exists>t. sent (swr st') = sent (swr st) @ chunk_bytes (HeartbeatChunk t))"
  using assms by (auto simp: healthy_def sendHeartbeat_def w_Write_def time_now_def Let_def
      split: option.splits prod.splits)

end

text \<open>How often a sequence of ready channels makes the loop drain, and whether it ends the loop.\<close>

fun drains :: "select list \<Rightarrow> nat" where
  "drains [] = 0"
| "drains (AppDone # _) = 1"
| "drains (CtxDone # _) = 1"
| "drains (HeartbeatTick # es) = drains es"
| "drains (PollTick _ # es) = Suc (drains es)"

definition poll_contexts :: "select list \<Rightarrow> go_context set" where
  "poll_contexts es = {c. PollTick c \<in> set es}"

text \<open>
  What a stretch of the loop that made \<open>n\<close> drains of \<open>b\<close> events has done to a healthy stream with
  backlog \<open>q\<close>: it sent the first \<open>n * b\<close> events in order among heartbeats, took them off the queue and
  registered them.
\<close>

definition delivered ::
  "('r \<Rightarrow> keyspace) \<Rightarrow> 'r stream_env \<Rightarrow> nat \<Rightarrow> string list \<Rightarrow> ('r, 'n) stream \<Rightarrow> ('r, 'n) stream \<Rightarrow> bool" where
  "delivered ks env k q st st' \<longleftrightarrow>
     (\<exists>cs. sent (swr st') = sent (swr st) @ concat (map chunk_bytes cs)
        \<and> concat (map chunk_events cs) = concat (map chunk_events (chunks_of (take k q)))
        \<and> set cs \<subseteq> set (chunks_of (take k q)) \<union> range HeartbeatChunk)
     \<and> extends (se_client env) (drop k q) (ks (rdb (sw st))) (ks (rdb (sw st')))
     \<and> (se_inFlight env \<longrightarrow> (\<forall>raw \<in> set (take k q). \<forall>e. Unmarshal_EventPayload raw = Some e \<longrightarrow>
          ks (rdb (sw st')) (inFlightKey (se_client env) (ev_ID e)) \<noteq> None))"

lemma delivered_trans:
  assumes "delivered ks env k q st st1" and "delivered ks env k' (drop k q) st1 st2"
  shows "delivered ks env (k + k') q st st2"
proof -
  have t: "take (k + k') q = take k q @ take k' (drop k q)" by (simp add: take_add)
  from assms obtain cs cs' where
    "sent (swr st1) = sent (swr st) @ concat (map chunk_bytes cs)"
    "concat (map chunk_events cs) = concat (map chunk_events (chunks_of (take k q)))"
    "set cs \<subseteq> set (chunks_of (take k q)) \<union> range HeartbeatChunk"
    "sent (swr st2) = sent (swr st1) @ concat (map chunk_bytes cs')"
    "concat (map chunk_events cs') = concat (map chunk_events (chunks_of (take k' (drop k q))))"
    "set cs' \<subseteq> set (chunks_of (take k' (drop k q))) \<union> range HeartbeatChunk"
    unfolding delivered_def by blast
  then have "\<exists>cs. sent (swr st2) = sent (swr st) @ concat (map chunk_bytes cs)
        \<and> concat (map chunk_events cs) = concat (map chunk_events (chunks_of (take (k + k') q)))
        \<and> set cs \<subseteq> set (chunks_of (take (k + k') q)) \<union> range HeartbeatChunk"
    by (intro exI [of _ "cs @ cs'"]) (auto simp: t)
  with assms show ?thesis by (auto simp: delivered_def extends_def t add.commute)
qed

context redis_laws
begin

lemma drain_delivers:
  assumes "healthy ks up C (se_client env) st" and "c \<in> C" and "se_redis env = R"
    and "0 < BatchSize (se_cfg env)" and "BatchSize (se_cfg env) < 2 ^ 63"
  shows "healthy ks up C (se_client env) (drainAndFlush env c st)
    \<and> delivered ks env (nat (BatchSize (se_cfg env))) (queue_of ks (rdb (sw st)) (se_client env)) st (drainAndFlush env c st)"
  using drain_step [OF assms refl refl refl] unfolding delivered_def by blast

lemma extends_delivered:
  assumes "extends (se_client env) q (ks (rdb (sw st))) (ks (rdb (sw st')))"
    and "sent (swr st') = sent (swr st) @ concat (map chunk_bytes cs)" and "set cs \<subseteq> range HeartbeatChunk"
  shows "delivered ks env 0 q st st'"
proof -
  have "concat (map chunk_events cs) = []" using assms(3) by auto
  with assms show ?thesis unfolding delivered_def by auto
qed

text \<open>One poll tick: the lease is refreshed, then one batch is delivered.\<close>

lemma poll_step:
  assumes "healthy ks up C (se_client env) st" and "c \<in> C" and "se_redis env = R"
    and "0 < BatchSize (se_cfg env)" and "BatchSize (se_cfg env) < 2 ^ 63" and "0 < ConnTTL (se_cfg env)"
  shows "\<exists>st1. select_loop env (PollTick c # es) st = select_loop env es st1 \<and> healthy ks up C (se_client env) st1
    \<and> delivered ks env (nat (BatchSize (se_cfg env))) (queue_of ks (rdb (sw st)) (se_client env)) st st1"
proof -
  let ?cl = "se_client env"
  from assms(1,2) have "up c (rdb (sw st))" by (simp add: healthy_def)
  from Refresh_up [OF this assms(6), of ?cl "se_ip env" ?cl] obtain r' where
    rf: "Refresh R c ?cl (se_ip env) (ConnTTL (se_cfg env)) (rdb (sw st)) = (None, r')"
    and u: "\<forall>c'. up c' (rdb (sw st)) \<longrightarrow> up c' r'"
    and e: "extends ?cl (queue_of ks (rdb (sw st)) ?cl) (ks (rdb (sw st))) (ks r')"
    and k: "ks r' (eventsKey ?cl) = ks (rdb (sw st)) (eventsKey ?cl)" by blast
  define st1 where "st1 = st\<lparr>sw := (sw st)\<lparr>rdb := r'\<rparr>\<rparr>"
  have h: "healthy ks up C ?cl st1" using assms(1) u k by (simp add: healthy_def st1_def)
  have q: "queue_of ks (rdb (sw st1)) ?cl = queue_of ks (rdb (sw st)) ?cl" by (simp add: st1_def queue_of_def k)
  have "delivered ks env 0 (queue_of ks (rdb (sw st)) ?cl) st st1"
    using e by (intro extends_delivered [where cs = "[]"]) (simp_all add: st1_def)
  from delivered_trans [OF this] drain_delivers [OF h assms(2-5)] q rf assms(3) show ?thesis
    by (intro exI [of _ "drainAndFlush env c st1"]) (simp add: on_rdb_def st1_def)
qed

lemma loop_delivers:
  assumes "healthy ks up C (se_client env) st" and "poll_contexts es \<subseteq> C" and "Background \<in> C" and "se_redis env = R"
    and "0 < BatchSize (se_cfg env)" and "BatchSize (se_cfg env) < 2 ^ 63" and "0 < ConnTTL (se_cfg env)"
  shows "delivered ks env (drains es * nat (BatchSize (se_cfg env))) (queue_of ks (rdb (sw st)) (se_client env))
    st (snd (select_loop env es st))"
  using assms(1,2)
proof (induction es arbitrary: st)
  case Nil
  show ?case by (simp add: extends_delivered [where cs = "[]"] extends_def queue_of_def)
next
  case (Cons ev es)
  let ?cl = "se_client env"
  from Cons.prems(2) have ctxs: "poll_contexts es \<subseteq> C" by (auto simp: poll_contexts_def)
  show ?case
  proof (cases ev)
    case HeartbeatTick
    obtain x st1 where h: "sendHeartbeat st = (x, st1)" by force
    note hs = heartbeat_step [OF Cons.prems(1) h]
    then obtain t where "sent (swr st1) = sent (swr st) @ concat (map chunk_bytes [HeartbeatChunk t])" by auto
    with hs have "delivered ks env 0 (queue_of ks (rdb (sw st)) ?cl) st st1"
      by (intro extends_delivered [where cs = "[HeartbeatChunk t]"]) (simp_all add: extends_def queue_of_def)
    from delivered_trans [OF this] Cons.IH [of st1] hs ctxs HeartbeatTick h show ?thesis by simp
  next
    case (PollTick c)
    then have "c \<in> C" using Cons.prems(2) by (auto simp: poll_contexts_def)
    from poll_step [OF Cons.prems(1) this assms(4-7), of es] obtain st1 where
      st1: "select_loop env (ev # es) st = select_loop env es st1" "healthy ks up C ?cl st1"
      and d: "delivered ks env (nat (BatchSize (se_cfg env))) (queue_of ks (rdb (sw st)) ?cl) st st1"
      using PollTick by blast
    then have "queue_of ks (rdb (sw st1)) ?cl = drop (nat (BatchSize (se_cfg env))) (queue_of ks (rdb (sw st)) ?cl)"
      by (simp add: delivered_def extends_def queue_of_def)
    with delivered_trans [OF d] Cons.IH [OF st1(2) ctxs] st1(1) PollTick show ?thesis by simp
  qed (use drain_delivers [OF Cons.prems(1) assms(3-6)] in simp_all)
qed

lemma RunLoop_delivers:
  assumes "\<forall>c' \<in> {c, Background} \<union> poll_contexts es. up c' (rdb w)"
    and "list_or_none (ks (rdb w) (eventsKey (se_client env)))" and "\<forall>k. faults wr k = None"
    and "se_redis env = R" and "0 < BatchSize (se_cfg env)" and "BatchSize (se_cfg env) < 2 ^ 63"
    and "0 < ConnTTL (se_cfg env)" and "0 < PollInterval (se_cfg env)" and "0 < HeartbeatInterval (se_cfg env)"
  shows "delivered ks env (Suc (drains es) * nat (BatchSize (se_cfg env))) (queue_of ks (rdb w) (se_client env))
    \<lparr>sw = w, swr = wr, scb = newCircuitBreaker 5 (10 * second)\<rparr> (snd (RunLoop env c es w wr))"
proof -
  let ?cl = "se_client env" and ?C = "{c, Background} \<union> poll_contexts es"
    and ?st = "\<lparr>sw = w, swr = wr, scb = newCircuitBreaker 5 (10 * second)\<rparr>"
  have h: "healthy ks up ?C ?cl ?st" using assms(1-3) by (simp add: healthy_def newCircuitBreaker_def)
  have C: "c \<in> ?C" "poll_contexts es \<subseteq> ?C" "Background \<in> ?C" by auto
  from drain_delivers [OF h C(1) assms(4-6)] have h1: "healthy ks up ?C ?cl (drainAndFlush env c ?st)"
    and d: "delivered ks env (nat (BatchSize (se_cfg env))) (queue_of ks (rdb w) ?cl) ?st (drainAndFlush env c ?st)"
    by simp_all
  from d have "queue_of ks (rdb (sw (drainAndFlush env c ?st))) ?cl = drop (nat (BatchSize (se_cfg env))) (queue_of ks (rdb w) ?cl)"
    by (simp add: delivered_def extends_def queue_of_def)
  with delivered_trans [OF d] loop_delivers [OF h1 C(2,3) assms(4-7)] assms(8,9) show ?thesis
    by (simp add: RunLoop_def)
qed

end

section \<open>The end of the loop, deadlines, the breaker\<close>

lemma select_loop_done:
  "AppDone \<in> set es \<or> CtxDone \<in> set es \<Longrightarrow> fst (select_loop env es st) = Returned"
proof (induction es arbitrary: st)
  case (Cons ev es)
  then show ?case by (cases ev) (auto simp: split_beta split: option.splits prod.splits)
qed simp

lemma deliver_deadline:
  "deliver env c batch st = (False, st') \<Longrightarrow> deadline (swr st') = zero_time"
  using deliver_cut by blast

lemma deliver_scb: "scb (snd (deliver env c batch st)) = scb st"
  using deliver_sends [of env c batch st] deliver_cut [of env c batch st]
  by (cases "deliver env c batch st") (metis (full_types) snd_conv)

lemma drain_deadline:
  assumes "deadline (swr st) = zero_time"
  shows "deadline (swr (drainAndFlush env c st)) = zero_time"
proof -
  obtain t w1 where tn: "time_now (sw st) = (t, w1)" by force
  obtain op cb1 where o: "isOpen t (scb st) = (op, cb1)" by force
  obtain x w2 where d: "on_rdb (Drain (se_redis env) (se_events env) c (se_client env) (BatchSize (se_cfg env))) w1 = (x, w2)" by force
  show ?thesis
  proof (cases x)
    case (Inl e)
    with assms tn o d show ?thesis by (simp add: drainAndFlush_def split_beta Let_def)
  next
    case (Inr p)
    obtain batch n where p: "p = (batch, n)" by force
    obtain dn st1 where dl: "deliver env c batch (st\<lparr>sw := count (\<lambda>m. m\<lparr>EventsDrainedPerTick :=
        EventsDrainedPerTick m @ [int (length batch)], QueueDepth := n\<rparr>) w2, scb := recordSuccess cb1\<rparr>) = (dn, st1)" by force
    from assms Inr p tn o d dl deliver_deadline show ?thesis
      by (cases "batch = []") (auto simp: drainAndFlush_def split_beta Let_def)
  qed
qed

lemma heartbeat_deadline: "deadline (swr (snd (sendHeartbeat st))) = zero_time"
  by (simp add: sendHeartbeat_def split_beta Let_def split: prod.split option.split)

lemma select_loop_deadline:
  "deadline (swr st) = zero_time \<Longrightarrow> deadline (swr (snd (select_loop env es st))) = zero_time"
proof (induction es arbitrary: st)
  case (Cons ev es)
  then show ?case
    using heartbeat_deadline [of st] by (cases ev) (auto simp: drain_deadline split_beta split: option.splits prod.splits)
qed simp

lemma deliver_first_fault:
  assumes "faults (swr st) (writes (swr st)) = Some (0, e)" and "chunks_of batch \<noteq> []"
  shows "\<exists>st'. deliver env c batch st = (False, st') \<and> sent (swr st') = sent (swr st) \<and> rdb (sw st') = rdb (sw st)"
  using assms(2)
proof (induction batch)
  case (Cons raw batch)
  then show ?case
    using assms(1) by (cases "Unmarshal_EventPayload raw")
      (auto simp: chunk_of_def writeSSEEvent_def w_Write_def time_now_def Let_def)
qed simp

text \<open>What the client has received when the loop is done with \<open>es\<close>.\<close>

lemma RunLoop_received:
  assumes "redis_laws (se_redis env) ks up" and "\<forall>c' \<in> {c, Background} \<union> poll_contexts es. up c' (rdb w)"
    and "list_or_none (ks (rdb w) (eventsKey (se_client env)))" and "\<forall>k. faults wr k = None" and "sent wr = []"
    and "0 < BatchSize (se_cfg env)" and "BatchSize (se_cfg env) < 2 ^ 63"
    and "0 < ConnTTL (se_cfg env)" and "0 < PollInterval (se_cfg env)" and "0 < HeartbeatInterval (se_cfg env)"
    and "q = queue_of ks (rdb w) (se_client env)" and "list_all clean_chunk (chunks_of q)"
    and "RunLoop env c es w wr = (x, st')" and "n = Suc (drains es) * nat (BatchSize (se_cfg env))"
  shows "parse_stream (sent (swr st')) = concat (map chunk_events (chunks_of (take n q)))
    \<and> queue_of ks (rdb (sw st')) (se_client env) = drop n q
    \<and> (se_inFlight env \<longrightarrow> (\<forall>raw \<in> set (take n q). \<forall>e. Unmarshal_EventPayload raw = Some e \<longrightarrow>
          phase_of ks (rdb (sw st')) (se_client env) (ev_ID e) = max Delivered (phase_of ks (rdb w) (se_client env) (ev_ID e))))"
proof -
  have "delivered ks env n q \<lparr>sw = w, swr = wr, scb = newCircuitBreaker 5 (10 * second)\<rparr> st'"
    using redis_laws.RunLoop_delivers [OF assms(1-4) refl assms(6-10)] assms(11,13,14) by simp
  moreover from this obtain cs where cs: "sent (swr st') = concat (map chunk_bytes cs)"
      "concat (map chunk_events cs) = concat (map chunk_events (chunks_of (take n q)))"
      "set cs \<subseteq> set (chunks_of (take n q)) \<union> range HeartbeatChunk"
    using assms(5) by (auto simp: delivered_def)
  moreover have "list_all clean_chunk cs"
  proof -
    have "chunks_of q = chunks_of (take n q) @ chunks_of (drop n q)"
      by (metis append_take_drop_id chunks_of_simps(3))
    with cs(3) assms(12) show ?thesis by (auto simp: list_all_iff)
  qed
  then have "parse_stream (concat (map chunk_bytes cs)) = concat (map chunk_events cs)"
    using parse_chunks [of cs parser0 "[]"] by (auto simp: parser0_def parse_stream_def)
  ultimately show ?thesis by (auto simp: delivered_def extends_def queue_of_def phase_of_def)
qed

section \<open>Properties\<close>

text \<open>
  C4: A stream delivers its client's backlog in order. After \<open>n\<close> drains (one on connect, one per poll tick, one at the
  end) what the client's parser has received is exactly the first \<open>n * batch_size\<close> queued events that can be decoded,
  whatever heartbeats lie between; those entries are off the queue and each delivered event is registered as
  delivered, unless it has been acknowledged already. It holds on these conditions: identifier, type and data of every
  queued event are single lines, the identifier without NUL and the type not empty (\<open>clean_chunk\<close>; data over several lines is
  cut short); Redis answers throughout and nobody else changes the queue meanwhile; the connection is fresh and no write fails; the
  client's key holds a list or nothing; batch size (below \<open>2^63\<close>), connection lifetime, poll and heartbeat interval are positive.
\<close>

theorem stream_delivers_in_order:
  assumes "redis_laws (se_redis env) ks up" and "\<forall>c' \<in> {c, Background} \<union> poll_contexts es. up c' (rdb w)"
    and "list_or_none (ks (rdb w) (eventsKey (se_client env)))" and "\<forall>k. faults wr k = None" and "sent wr = []"
    and "0 < BatchSize (se_cfg env)" and "BatchSize (se_cfg env) < 2 ^ 63"
    and "0 < ConnTTL (se_cfg env)" and "0 < PollInterval (se_cfg env)" and "0 < HeartbeatInterval (se_cfg env)"
    and "q = queue_of ks (rdb w) (se_client env)" and "list_all clean_chunk (chunks_of q)"
    and "RunLoop env c es w wr = (x, st')" and "n = Suc (drains es) * nat (BatchSize (se_cfg env))"
  shows "parse_stream (sent (swr st')) = concat (map chunk_events (chunks_of (take n q)))
    \<and> queue_of ks (rdb (sw st')) (se_client env) = drop n q
    \<and> (se_inFlight env \<longrightarrow> (\<forall>raw \<in> set (take n q). \<forall>e. Unmarshal_EventPayload raw = Some e \<longrightarrow>
          phase_of ks (rdb (sw st')) (se_client env) (ev_ID e) = max Delivered (phase_of ks (rdb w) (se_client env) (ev_ID e))))"
  using assms by (rule RunLoop_received)

text \<open>A backlog to evaluate the loop on.\<close>

definition demo_event :: "string \<Rightarrow> string" where
  "demo_event i = event_text \<lparr>ev_ID = i, ev_Type = [], ev_Data = ''{}''\<rparr>"

definition mem_backlog :: mem where
  "mem_backlog = \<lparr>entries = [(eventsKey ''u1'', RList (map demo_event [''a'', ''b'', ''c'']), None)], reachable = True\<rparr>"

definition demo_env :: "mem stream_env" where
  "demo_env = \<lparr>se_redis = mem_redis, se_events = NewEventStore 10,
     se_inFlight = True, se_cfg = (CfgSSE default_config)\<lparr>BatchSize := 2\<rparr>, se_client = ''u1'', se_ip = ''1.2.3.4''\<rparr>"

definition demo_world :: "mem \<Rightarrow> (mem, unit) world" where
  "demo_world r = \<lparr>rdb = r, nats = (), mtr = zero_metrics, clock = (\<lambda>n. int n), reads = 0,
     uuids = (\<lambda>n. Itoa (int n)), drawn = 0\<rparr>"

definition demo_writer :: respw where
  "demo_writer = \<lparr>sent = [], flushed = 0, deadline = zero_time, writes = 0, faults = (\<lambda>_. None)\<rparr>"

lemma demo_facts [simp]:
  "se_redis demo_env = mem_redis" "se_client demo_env = ''u1''"
  "BatchSize (se_cfg demo_env) = 2" "ConnTTL (se_cfg demo_env) = 60000000000"
  "PollInterval (se_cfg demo_env) = 1000000000" "HeartbeatInterval (se_cfg demo_env) = 15000000000" "se_inFlight demo_env" "rdb (demo_world r) = r"
  "sent demo_writer = []" "faults demo_writer k = None" "deadline demo_writer = zero_time"
  by (simp_all add: demo_env_def demo_world_def demo_writer_def default_config_def second_def millisecond_def)

lemma demo_event_back [simp]:
  assumes "valid_utf8 i"
  shows "chunk_of (demo_event i) = Some (EventChunk i ''message'' ''{}'')"
  using assms by (simp add: chunk_of_def demo_event_def event_text_roundtrip fix_utf8_valid event_type_def)

lemma backlog_queue: "queue_of mks mem_backlog ''u1'' = map demo_event [''a'', ''b'', ''c'']"
  by (simp add: queue_of_def mem_backlog_def mks_def)

lemma backlog_up [simp]: "c \<noteq> DoneCtx \<Longrightarrow> mup c mem_backlog" "list_or_none (mks mem_backlog (eventsKey ''u1''))"
  by (simp_all add: mup_def mem_backlog_def mks_def)

theorem stream_delivers_in_order_witness:
  "\<exists>st. RunLoop demo_env ReqCtx [HeartbeatTick, CtxDone] (demo_world mem_backlog) demo_writer = (Returned, st)
     \<and> parse_stream (sent (swr st)) = [(''a'', ''message'', ''{}''), (''b'', ''message'', ''{}''), (''c'', ''message'', ''{}'')]"
proof -
  obtain x st where r: "RunLoop demo_env ReqCtx [HeartbeatTick, CtxDone] (demo_world mem_backlog) demo_writer = (x, st)" by force
  have d: "chunks_of (map demo_event [''a'', ''b'', ''c'']) = map (\<lambda>i. EventChunk i ''message'' ''{}'') [''a'', ''b'', ''c'']"
    by simp
  have "fst (RunLoop demo_env ReqCtx [HeartbeatTick, CtxDone] (demo_world mem_backlog) demo_writer) = Returned"
    by (simp add: RunLoop_def Let_def select_loop_done del: select_loop.simps)
  with r have x: "x = Returned" by simp
  have "parse_stream (sent (swr st)) = concat (map chunk_events (chunks_of (take 4 (map demo_event [''a'', ''b'', ''c'']))))"
    by (rule stream_delivers_in_order [where ks = mks and up = mup, THEN conjunct1, OF _ _ _ _ _ _ _ _ _ _ _ _ r])
      (use mr.redis_laws_axioms backlog_up backlog_queue d in \<open>simp_all add: poll_contexts_def\<close>)
  with d x r show ?thesis by simp
qed

text \<open>
  C30: A failed write discards the rest of the batch: the drained events were removed from the queue
  before they were written, so when the first write fails nothing reaches the client, the queue
  has nevertheless lost the whole batch, and a later drain starts after it.
\<close>

theorem failed_write_discards_batch:
  assumes "redis_laws (se_redis env) ks up" and "up c (rdb (sw st))"
    and "list_or_none (ks (rdb (sw st)) (eventsKey (se_client env)))" and "openUntil (scb st) = 0"
    and "0 < BatchSize (se_cfg env)" and "BatchSize (se_cfg env) < 2 ^ 63"
    and "faults (swr st) (writes (swr st)) = Some (0, e)"
    and "b = nat (BatchSize (se_cfg env))" and "q = queue_of ks (rdb (sw st)) (se_client env)"
    and "chunks_of (take b q) \<noteq> []"
  shows "sent (swr (drainAndFlush env c st)) = sent (swr st)
    \<and> queue_of ks (rdb (sw (drainAndFlush env c st))) (se_client env) = drop b q"
proof -
  obtain t w1 where tn: "time_now (sw st) = (t, w1)" by force
  then have r1: "rdb w1 = rdb (sw st)" by (metis snd_conv time_now_simps(1))
  from redis_laws.Drain_up [OF assms(1-3)] obtain es n r' where
    dr: "Drain (se_redis env) (se_events env) c (se_client env) (BatchSize (se_cfg env)) (rdb (sw st)) = (Inr (es, n), r')" by blast
  note eff = redis_laws.Drain_effect [OF assms(1) dr]
  have es: "es = take b q" and q': "queue_of ks r' (se_client env) = drop b q"
    using eff assms(5,6,8,9) by (simp_all add: slice_simps queue_of_def)
  define st1 where "st1 = st\<lparr>sw := count (\<lambda>m. m\<lparr>EventsDrainedPerTick := EventsDrainedPerTick m @ [int (length es)],
      QueueDepth := n\<rparr>) (w1\<lparr>rdb := r'\<rparr>), scb := recordSuccess (scb st)\<rparr>"
  from deliver_first_fault [of st1 e es env c] assms(7,10) es obtain st2 where
    "deliver env c es st1 = (False, st2)" "sent (swr st2) = sent (swr st)" "rdb (sw st2) = r'"
    by (auto simp: st1_def)
  then have "drainAndFlush env c st = st2" "sent (swr st2) = sent (swr st)" "rdb (sw st2) = r'"
    using assms(4) tn dr r1 by (simp_all add: drainAndFlush_def isOpen_def on_rdb_def Let_def st1_def)
  with q' show ?thesis by simp
qed

theorem failed_write_discards_batch_witness:
  "\<exists>st :: (mem, unit) stream. swr st = demo_writer\<lparr>faults := (\<lambda>_. Some (0, Err ''broken pipe''))\<rparr> \<and> rdb (sw st) = mem_backlog
     \<and> sent (swr (drainAndFlush demo_env ReqCtx st)) = []
     \<and> queue_of mks (rdb (sw (drainAndFlush demo_env ReqCtx st))) ''u1'' = [demo_event ''c'']"
proof -
  let ?st = "\<lparr>sw = demo_world mem_backlog, swr = demo_writer\<lparr>faults := (\<lambda>_. Some (0, Err ''broken pipe''))\<rparr>,
    scb = newCircuitBreaker 5 (10 * second)\<rparr>"
  have c: "chunks_of (map demo_event [''a'', ''b'']) \<noteq> []" by simp
  have "sent (swr (drainAndFlush demo_env ReqCtx ?st)) = sent (swr ?st)
    \<and> queue_of mks (rdb (sw (drainAndFlush demo_env ReqCtx ?st))) (se_client demo_env) = drop 2 (map demo_event [''a'', ''b'', ''c''])"
    by (rule failed_write_discards_batch [where e = "Err ''broken pipe''" and up = mup])
      (use backlog_queue c mr.redis_laws_axioms backlog_up in \<open>simp_all add: newCircuitBreaker_def\<close>)
  then show ?thesis by - (rule exI [of _ ?st], simp)
qed

text \<open>
  C34: JSON data over several lines reaches the client cut. The data of a queued event is valid JSON, in which line
  breaks may stand between tokens and are kept as they are; the frame has one \<open>data:\<close> line, so of data that goes on in a
  second line (that is not itself a field of the protocol) the client receives the first line only.
\<close>

theorem multiline_event_cut:
  assumes "redis_laws (se_redis env) ks up" and "up c (rdb (sw st))" and "list_or_none (ks (rdb (sw st)) (eventsKey (se_client env)))"
    and "openUntil (scb st) = 0" and "\<forall>k. faults (swr st) k = None" and "sent (swr st) = []"
    and "0 < BatchSize (se_cfg env)" and "BatchSize (se_cfg env) < 2 ^ 63"
    and "queue_of ks (rdb (sw st)) (se_client env) = [raw]" and "Unmarshal_EventPayload raw = Some e" and "ev_Data e = d @ LF # l"
    and "clean_chunk (EventChunk (ev_ID e) (event_type e) d)" and "one_line l" and "l \<noteq> []" and "fst (field_of l) \<notin> {''event'', ''data'', ''id''}"
  shows "json_data (ev_Data e) \<and> parse_stream (sent (swr (drainAndFlush env c st))) = [(ev_ID e, event_type e, d)]"
proof
  show "json_data (ev_Data e)" using decoded_data_valid [OF assms(10)] assms(11) by auto
  have "healthy ks up {c} (se_client env) st" using assms(2-5) by (simp add: healthy_def)
  from redis_laws.drain_step [OF assms(1) this _ refl assms(7,8) refl refl refl]
  have "sent (swr (drainAndFlush env c st)) = concat (map chunk_bytes (chunks_of (take (nat (BatchSize (se_cfg env))) [raw])))"
    using assms(6,9) by simp
  also have "\<dots> = sse_frame (ev_ID e) (event_type e) (d @ LF # l)" using assms(7,10,11) by (simp add: chunk_of_def)
  finally show "parse_stream (sent (swr (drainAndFlush env c st))) = [(ev_ID e, event_type e, d)]"
    using multiline_data_truncated [OF assms(12-15)] by simp
qed

theorem multiline_event_cut_witness:
  "\<exists>st :: (mem, unit) stream. queue_of mks (rdb (sw st)) ''u1'' = [event_text \<lparr>ev_ID = ''i'', ev_Type = ''order'', ev_Data = ''['' @ LF # ''1]''\<rparr>]
     \<and> parse_stream (sent (swr (drainAndFlush demo_env ReqCtx st))) = [(''i'', ''order'', ''['')]"
proof -
  let ?e = "\<lparr>ev_ID = ''i'', ev_Type = ''order'', ev_Data = ''['' @ LF # ''1]''\<rparr>"
  let ?m = "mem_backlog\<lparr>entries := [(eventsKey ''u1'', RList [event_text ?e], None)]\<rparr>"
  let ?st = "\<lparr>sw = demo_world ?m, swr = demo_writer, scb = newCircuitBreaker 5 (10 * second)\<rparr>"
  have q: "queue_of mks ?m ''u1'' = [event_text ?e]" by (simp add: queue_of_def mks_def mem_backlog_def)
  have "json_data (ev_Data ?e)"
    by (simp add: json_data_def json_value_def max_nesting_def scan_value_numeral scan_container_def skip_space_def json_space_def
        scan_items.simps scan_element_def scan_scalar_def scan_number_def skip_one_def scan_digits_def is_digit_def scan_fraction_def scan_exponent_def)
  then have e: "Unmarshal_EventPayload (event_text ?e) = Some ?e" by (simp add: event_text_roundtrip fix_utf8_valid)
  have "json_data (ev_Data ?e) \<and> parse_stream (sent (swr (drainAndFlush demo_env ReqCtx ?st))) = [(ev_ID ?e, event_type ?e, ''['')]"
    by (rule multiline_event_cut [where raw = "event_text ?e" and l = "''1]''" and up = mup, OF _ _ _ _ _ _ _ _ _ e])
      (use q mr.redis_laws_axioms in \<open>simp_all add: newCircuitBreaker_def mup_def mem_backlog_def mks_def event_type_def field_of_def\<close>)
  with q show ?thesis by (intro exI [of _ ?st]) (simp add: event_type_def)
qed

text \<open>
  A drain is exactly one guarded call of the circuit breaker: the breaker is asked at the first
  reading of the clock, a success or a failure of \<open>Drain\<close> is recorded, and while the breaker is open
  neither Redis nor the connection is touched.
\<close>

theorem drain_guarded_by_breaker:
  assumes "r = rdb (sw st)" and "clk = clock (sw st)" and "i = reads (sw st)"
    and "Drain (se_redis env) (se_events env) c (se_client env) (BatchSize (se_cfg env)) r = (x, r')"
    and "guarded_call (clk i) (\<not> isl x) (clk (Suc i)) (scb st) = (called, cb')"
  shows "scb (drainAndFlush env c st) = cb'
    \<and> (\<not> called \<longrightarrow> rdb (sw (drainAndFlush env c st)) = r \<and> swr (drainAndFlush env c st) = swr st)"
proof -
  obtain op cb1 where o: "isOpen (clk i) (scb st) = (op, cb1)" by force
  show ?thesis
  proof (cases x)
    case (Inl e)
    with assms o show ?thesis
      by (auto simp: drainAndFlush_def guarded_call_def time_now_def on_rdb_def Let_def split: if_splits)
  next
    case (Inr p)
    obtain batch n where p: "p = (batch, n)" by force
    from Inr p assms o show ?thesis
      by (auto simp: deliver_scb drainAndFlush_def guarded_call_def time_now_def on_rdb_def Let_def split_beta split: if_splits)
  qed
qed

theorem drain_guarded_by_breaker_witness:
  "\<exists>st :: (mem, unit) stream. swr (drainAndFlush demo_env ReqCtx st) = swr st \<and> queue_of mks (rdb (sw (drainAndFlush demo_env ReqCtx st))) ''u1'' = map demo_event [''a'', ''b'', ''c'']"
proof -
  let ?st = "\<lparr>sw = demo_world mem_backlog, swr = demo_writer, scb = (newCircuitBreaker 5 (10 * second))\<lparr>openUntil := 100\<rparr>\<rparr>"
  obtain x r' where d: "Drain mem_redis (se_events demo_env) ReqCtx ''u1'' 2 mem_backlog = (x, r')" by force
  have g: "guarded_call 0 (\<not> isl x) 1 (scb ?st) = (False, scb ?st)" by (simp add: guarded_call_def isOpen_def)
  have "scb (drainAndFlush demo_env ReqCtx ?st) = scb ?st
    \<and> (\<not> False \<longrightarrow> rdb (sw (drainAndFlush demo_env ReqCtx ?st)) = mem_backlog \<and> swr (drainAndFlush demo_env ReqCtx ?st) = swr ?st)"
    by (rule drain_guarded_by_breaker [where x = x and r' = r' and clk = int and i = 0])
      (use d g in \<open>simp_all add: demo_world_def\<close>)
  with backlog_queue show ?thesis by - (rule exI [of _ ?st], simp)
qed

text \<open>
  However Redis, the clock and the connection behave, a stream that starts without a write deadline
  is left without one whenever the loop waits or has returned.
\<close>

theorem write_deadline_cleared:
  assumes "deadline wr = zero_time"
  shows "deadline (swr (snd (RunLoop env c es w wr))) = zero_time"
  using assms by (simp add: RunLoop_def Let_def drain_deadline select_loop_deadline)

theorem write_deadline_cleared_witness:
  "deadline (swr (snd (RunLoop demo_env ReqCtx [PollTick ReqCtx, HeartbeatTick] (demo_world mem_backlog) demo_writer))) = zero_time"
  by (rule write_deadline_cleared) simp

text \<open>
  The loop returns as soon as the request's context or the application's is cancelled (or earlier,
  after a failed heartbeat), provided both ticker intervals are positive; otherwise it panics at start.
\<close>

theorem stream_loop_ends:
  assumes "AppDone \<in> set es \<or> CtxDone \<in> set es"
  shows "fst (RunLoop env c es w wr) =
    (if 0 < PollInterval (se_cfg env) \<and> 0 < HeartbeatInterval (se_cfg env) then Returned else Panicked)"
  using select_loop_done [OF assms] by (auto simp: RunLoop_def Let_def)

theorem stream_loop_ends_witness:
  "fst (RunLoop demo_env ReqCtx [HeartbeatTick, CtxDone] (demo_world mem_backlog) demo_writer) = Returned"
  using stream_loop_ends [of "[HeartbeatTick, CtxDone]" demo_env ReqCtx "demo_world mem_backlog" demo_writer] by simp

end
