(* ===== verification/Publisher.thy ===== *)
theory Publisher
  imports Domain Config
begin

text \<open>
  Publishing acknowledgements (\<open>internal/ack/publisher.go\<close>, \<open>nats_publisher.go\<close>, \<open>log_publisher.go\<close>)
  and the NATS connection (\<open>internal/app/nats.go\<close>). The NATS client and server are parameters: the
  record \<open>nats_api\<close> over a server state \<open>'n\<close>; what the code relies on is the locale \<open>jetstream\<close>. The JSON
  encoder is a parameter too. Quotation marks of \<open>%q\<close> are left out of error texts, logging is not modelled.
\<close>

section \<open>The NATS client\<close>

type_synonym ('n, 'a) ncmd = "'n \<Rightarrow> (go_error + 'a) \<times> 'n"

record nats_options =
  opt_Name :: string
  opt_ReconnectWait :: duration
  opt_MaxReconnects :: int
  opt_UserCredentials :: "string option"

record 'n nats_api =
  nConnect :: "string \<Rightarrow> nats_options \<Rightarrow> ('n, unit) ncmd"
  nJetStream :: "('n, unit) ncmd"
  nStreamInfo :: "string \<Rightarrow> ('n, unit) ncmd"
  nAddStream :: "string \<Rightarrow> string list \<Rightarrow> duration \<Rightarrow> ('n, unit) ncmd"
  nPublish :: "string \<Rightarrow> string \<Rightarrow> duration \<Rightarrow> ('n, 64 word) ncmd"
  nIsConnected :: "'n \<Rightarrow> bool"
  nDrain :: "'n \<Rightarrow> 'n"

definition WithNats :: "'n nats_api \<Rightarrow> nats_cfg \<Rightarrow> ('n, unit) ncmd" where
  "WithNats N cfg n =
     (let opts = \<lparr>opt_Name = StreamName cfg, opt_ReconnectWait = 2 * second, opt_MaxReconnects = - 1,
                  opt_UserCredentials = (if CredentialsFile cfg \<noteq> [] then Some (CredentialsFile cfg) else None)\<rparr>
      in case nConnect N (NatsURL cfg) opts n of
           (Inl e, n1) \<Rightarrow> (Inl (Wrap (''nats connect '' @ NatsURL cfg) e), n1)
         | (Inr _, n1) \<Rightarrow> (Inr (), n1))"

section \<open>The publishers\<close>

record natsPublisher =
  subject :: string
  pub_timeout :: duration
  maxRetries :: int

definition NewNATSPublisher :: "'n nats_api \<Rightarrow> nats_cfg \<Rightarrow> ('n, natsPublisher) ncmd" where
  "NewNATSPublisher N cfg n =
     (case nJetStream N n of
        (Inl e, n1) \<Rightarrow> (Inl (Wrap ''nats jetstream context'' e), n1)
      | (Inr _, n1) \<Rightarrow>
          let (created, n3) =
                (case nStreamInfo N (StreamName cfg) n1 of
                   (Inr _, n2) \<Rightarrow> (Inr (), n2)
                 | (Inl _, n2) \<Rightarrow> nAddStream N (StreamName cfg) [SubjectPrefix cfg @ ''.>''] (DuplicateWindow cfg) n2)
          in case created of
               Inl e \<Rightarrow> (Inl (Wrap (''nats create stream '' @ StreamName cfg) e), n3)
             | Inr _ \<Rightarrow>
                 let timeout = wrap64 (PublishTimeoutMs cfg * millisecond);
                     timeout = (if timeout \<le> 0 then 3 * second else timeout);
                     retries = NatsMaxRetries cfg;
                     retries = (if retries \<le> 0 then 3 else retries)
                 in (Inr \<lparr>subject = SubjectPrefix cfg, pub_timeout = timeout, maxRetries = retries\<rparr>, n3))"

text \<open>
  The retry loop with the number of attempts left and the last error. (A \<open>maxRetries\<close> of
  \<open>2^63 - 1\<close>, for which the Go loop condition never fails, is outside the model.)
\<close>

fun publish_loop :: "'n nats_api \<Rightarrow> natsPublisher \<Rightarrow> string \<Rightarrow> nat \<Rightarrow> go_error \<Rightarrow> ('n, 64 word) ncmd" where
  "publish_loop N p payload 0 lastErr n = (Inl (Wrap (''nats publish to '' @ subject p @ '' failed'') lastErr), n)"
| "publish_loop N p payload (Suc k) lastErr n =
     (case nPublish N (subject p) payload (pub_timeout p) n of
        (Inr seq, n1) \<Rightarrow> (Inr seq, n1)
      | (Inl e, n1) \<Rightarrow> publish_loop N p payload k e n1)"

definition nats_Publish :: "'n nats_api \<Rightarrow> (AckRecord \<Rightarrow> go_error + string) \<Rightarrow> natsPublisher \<Rightarrow> AckRecord \<Rightarrow> ('n, 64 word) ncmd" where
  "nats_Publish N marshal p record n =
     (case marshal record of
        Inl e \<Rightarrow> (Inl (Wrap ''ack marshal'' e), n)
      | Inr payload \<Rightarrow> publish_loop N p payload (nat (maxRetries p + 1)) (Err []) n)"

text \<open>The interface \<open>Publisher\<close> and its two implementations; the result is \<open>PublishResult.Seq\<close>.\<close>

datatype publisher = LogPublisher | NatsPublisher natsPublisher

fun Publish :: "'n nats_api \<Rightarrow> (AckRecord \<Rightarrow> go_error + string) \<Rightarrow> publisher \<Rightarrow> AckRecord \<Rightarrow> ('n, 64 word) ncmd" where
  "Publish N marshal LogPublisher record n = (Inr 0, n)"
| "Publish N marshal (NatsPublisher p) record n = nats_Publish N marshal p record n"

fun Connected :: "'n nats_api \<Rightarrow> publisher \<Rightarrow> 'n \<Rightarrow> bool" where
  "Connected N LogPublisher n = True"
| "Connected N (NatsPublisher _) n = nIsConnected N n"

fun Close :: "'n nats_api \<Rightarrow> publisher \<Rightarrow> 'n \<Rightarrow> 'n" where
  "Close N LogPublisher n = n"
| "Close N (NatsPublisher _) n = nDrain N n"

section \<open>What JetStream documents\<close>

text \<open>
  Subjects are tokens separated by dots; in a stream's subject pattern a star stands for one token
  and a final \<open>>\<close> for one or more.
\<close>

definition tokens :: "string \<Rightarrow> string list" where
  "tokens s = split_on CHR ''.'' s"

fun match_tokens :: "string list \<Rightarrow> string list \<Rightarrow> bool" where
  "match_tokens [] [] = True"
| "match_tokens (p # ps) (t # ts) \<longleftrightarrow> p = ''>'' \<and> ps = [] \<or> (p = ''*'' \<or> p = t) \<and> match_tokens ps ts"
| "match_tokens _ _ = False"

definition subject_matches :: "string \<Rightarrow> string \<Rightarrow> bool" where
  "subject_matches pat s \<longleftrightarrow> match_tokens (tokens pat) (tokens s)"

text \<open>
  \<open>subjects n\<close> are the patterns of the existing streams, \<open>stored n\<close> the messages the server has stored. A publish is
  acknowledged only if a stream captures the subject, and then the message is stored; a publish
  that reports an error may still have been stored (its acknowledgement can be lost).
\<close>

locale jetstream =
  fixes N :: "'n nats_api" and subjects :: "'n \<Rightarrow> string set" and stored :: "'n \<Rightarrow> (string \<times> string) list"
  assumes publish_ok: "nPublish N s p t n = (Inr seq, n') \<Longrightarrow>
      (\<exists>pat \<in> subjects n. subject_matches pat s) \<and> stored n' = stored n @ [(s, p)]"
    and publish_err: "nPublish N s p t n = (Inl e, n') \<Longrightarrow> stored n' = stored n \<or> stored n' = stored n @ [(s, p)]"
    and publish_subjects: "subjects (snd (nPublish N s p t n)) = subjects n"
    and jetstream_subjects: "subjects (snd (nJetStream N n)) = subjects n"
    and info_subjects: "subjects (snd (nStreamInfo N name n)) = subjects n"
    and add_ok: "nAddStream N name subs d n = (Inr u, n') \<Longrightarrow> subjects n' = subjects n \<union> set subs"
begin

lemma publish_loop_stored:
  "publish_loop N p payload k e n = (x, n') \<Longrightarrow>
     \<exists>m \<le> k. stored n' = stored n @ replicate m (subject p, payload) \<and> (\<not> isl x \<longrightarrow> 0 < m)"
proof (induction k arbitrary: e n)
  case (Suc k)
  obtain y n1 where p: "nPublish N (subject p) payload (pub_timeout p) n = (y, n1)" by force
  show ?case
  proof (cases y)
    case (Inr seq)
    with Suc.prems p publish_ok [OF p [unfolded Inr]] show ?thesis by (intro exI [of _ 1]) auto
  next
    case (Inl e')
    with Suc.prems p have "publish_loop N p payload k e' n1 = (x, n')" by simp
    from Suc.IH [OF this] obtain m where m: "m \<le> k" "stored n' = stored n1 @ replicate m (subject p, payload)"
        "\<not> isl x \<longrightarrow> 0 < m" by blast
    from publish_err [OF p [unfolded Inl]] show ?thesis
    proof
      assume "stored n1 = stored n"
      with m show ?thesis by (intro exI [of _ m]) auto
    next
      assume "stored n1 = stored n @ [(subject p, payload)]"
      with m show ?thesis by (intro exI [of _ "Suc m"]) auto
    qed
  qed
qed auto

lemma publish_loop_uncaptured:
  "\<not> (\<exists>pat \<in> subjects n. subject_matches pat (subject p)) \<Longrightarrow> isl (fst (publish_loop N p payload k e n))"
proof (induction k arbitrary: e n)
  case (Suc k)
  obtain y n1 where p: "nPublish N (subject p) payload (pub_timeout p) n = (y, n1)" by force
  with publish_subjects [of "subject p" payload "pub_timeout p" n] have "subjects n1 = subjects n" by simp
  with Suc p publish_ok [of "subject p" payload "pub_timeout p" n] show ?case by (cases y) auto
qed simp

lemma new_publisher_subjects:
  assumes "NewNATSPublisher N cfg n = (Inr p, n')"
  shows "subjects n' \<subseteq> subjects n \<union> {SubjectPrefix cfg @ ''.>''} \<and> subject p = SubjectPrefix cfg
    \<and> 0 < pub_timeout p \<and> 0 < maxRetries p"
proof -
  obtain n1 where 1: "nJetStream N n = (Inr (), n1)"
    using assms by (auto simp: NewNATSPublisher_def split: prod.splits sum.splits)
  obtain y n2 where 2: "nStreamInfo N (StreamName cfg) n1 = (y, n2)" by force
  have s: "subjects n2 = subjects n" using jetstream_subjects [of n] info_subjects [of "StreamName cfg" n1] 1 2 by simp
  show ?thesis
  proof (cases y)
    case (Inr u)
    with assms 1 2 s show ?thesis
      by (auto simp: NewNATSPublisher_def Let_def second_def split: if_splits)
  next
    case (Inl e)
    with assms 1 2 obtain u where
      "nAddStream N (StreamName cfg) [SubjectPrefix cfg @ ''.>''] (DuplicateWindow cfg) n2 = (Inr u, n')"
      by (auto simp: NewNATSPublisher_def Let_def split: prod.splits sum.splits)
    with assms 1 2 Inl s add_ok show ?thesis
      by (auto simp: NewNATSPublisher_def Let_def second_def split: if_splits)
  qed
qed

end

lemma match_longer: "\<not> match_tokens (ts @ [p]) ts"
  by (induction ts) auto

text \<open>The pattern the publisher creates its stream with does not capture the subject it publishes to.\<close>

lemma created_pattern_misses: "\<not> subject_matches (s @ ''.>'') s"
  using match_longer [of "tokens s" "''>''"] by (simp add: subject_matches_def tokens_def split_on_append)

section \<open>A server to evaluate on\<close>

text \<open>
  An in-memory JetStream; the acknowledgements of the next \<open>lossy\<close> stored messages are lost.
\<close>

record memnats =
  nstreams :: "(string \<times> string list) list"
  nmsgs :: "(string \<times> string) list"
  lossy :: nat
  nup :: bool

definition mem_nats :: "memnats nats_api" where
  "mem_nats =
    \<lparr>nConnect = (\<lambda>_ _ n. (if nup n then Inr () else Inl (Err ''no servers''), n)),
     nJetStream = (\<lambda>n. (Inr (), n)),
     nStreamInfo = (\<lambda>name n. (if map_of (nstreams n) name = None then Inl (Err ''stream not found'') else Inr (), n)),
     nAddStream = (\<lambda>name subs _ n. (Inr (), n\<lparr>nstreams := nstreams n @ [(name, subs)]\<rparr>)),
     nPublish = (\<lambda>s p _ n.
       if \<not> nup n \<or> \<not> list_ex (\<lambda>(_, subs). list_ex (\<lambda>pat. subject_matches pat s) subs) (nstreams n)
       then (Inl (Err ''no responders''), n)
       else let n1 = n\<lparr>nmsgs := nmsgs n @ [(s, p)], lossy := lossy n - 1\<rparr>
            in (if 0 < lossy n then Inl (Err ''timeout'') else Inr (of_nat (length (nmsgs n1))), n1)),
     nIsConnected = nup, nDrain = (\<lambda>n. n\<lparr>nup := False\<rparr>)\<rparr>"

definition nsubjects :: "memnats \<Rightarrow> string set" where
  "nsubjects n = (\<Union>(_, subs) \<in> set (nstreams n). set subs)"

interpretation mn: jetstream mem_nats nsubjects nmsgs
  by unfold_locales (auto simp: mem_nats_def nsubjects_def list_ex_iff Let_def split: if_splits)

definition nats0 :: memnats where "nats0 = \<lparr>nstreams = [], nmsgs = [], lossy = 0, nup = True\<rparr>"

definition demo_record :: AckRecord where
  "demo_record = \<lparr>rec_AckID = ''k1'', rec_EventID = ''e1'', rec_ClientID = ''u1'', rec_StreamID = ''s1'', rec_AckedAt = 5,
     rec_Status = AckStatusProcessed, rec_Metadata = Map.empty, rec_ServerReceivedAt = 6\<rparr>"

definition nats1 :: memnats where
  "nats1 = nats0\<lparr>nstreams := [(''ACK_STREAM'', [''sse.acks''])], lossy := 1\<rparr>"

section \<open>Properties\<close>

text \<open>
  C29: Publishing is at least once: when \<open>Publish\<close> reports success the record is stored, and between one
  and \<open>maxRetries + 1\<close> identical copies of it; on failure at most \<open>maxRetries + 1\<close> copies may exist.
  Nothing else is stored.
\<close>

theorem publish_at_least_once:
  assumes "jetstream N subjects stored" and "nats_Publish N marshal p record n = (x, n')"
    and "marshal record = Inr payload"
  shows "\<exists>k. int k \<le> max 0 (maxRetries p + 1) \<and> stored n' = stored n @ replicate k (subject p, payload)
    \<and> (\<not> isl x \<longrightarrow> 0 < k)"
proof -
  from assms(2,3) have "publish_loop N p payload (nat (maxRetries p + 1)) (Err []) n = (x, n')"
    by (simp add: nats_Publish_def)
  from jetstream.publish_loop_stored [OF assms(1) this] show ?thesis by auto
qed

theorem publish_at_least_once_witness:
  "\<exists>n k. nats_Publish mem_nats (\<lambda>_. Inr ''rec'') \<lparr>subject = ''sse.acks'', pub_timeout = second, maxRetries = 3\<rparr>
       demo_record nats1 = (Inr 2, n) \<and> nmsgs n = replicate k (''sse.acks'', ''rec'') \<and> 0 < k"
proof -
  let ?p = "\<lparr>subject = ''sse.acks'', pub_timeout = second, maxRetries = 3\<rparr>"
  obtain n where n: "nats_Publish mem_nats (\<lambda>_. Inr ''rec'') ?p demo_record nats1 = (Inr 2, n)"
    by (simp add: nats_Publish_def mem_nats_def nats1_def nats0_def eval_nat_numeral subject_matches_def tokens_def)
  from publish_at_least_once [OF mn.jetstream_axioms n] n show ?thesis by (auto simp: nats1_def nats0_def)
qed

text \<open>
  C37: On a NATS server without streams, the stream that \<open>NewNATSPublisher\<close> creates does not capture the
  subject the publisher publishes to (its pattern requires a further token), so every \<open>Publish\<close> fails
  until another stream is added.
\<close>

theorem created_stream_rejects_acks:
  assumes "jetstream N subjects stored" and "subjects n = {}" and "NewNATSPublisher N cfg n = (Inr p, n')"
    and "subjects n'' = subjects n'"
  shows "isl (fst (nats_Publish N marshal p record n''))"
proof -
  from jetstream.new_publisher_subjects [OF assms(1,3)] assms(2,4)
  have s: "subjects n'' \<subseteq> {subject p @ ''.>''}" by auto
  then have "\<not> (\<exists>pat \<in> subjects n''. subject_matches pat (subject p))" using created_pattern_misses by auto
  from jetstream.publish_loop_uncaptured [OF assms(1) this] show ?thesis
    by (simp add: nats_Publish_def split: sum.split)
qed

theorem created_stream_rejects_acks_witness:
  "\<exists>p n. NewNATSPublisher mem_nats (CfgNATS default_config) nats0 = (Inr p, n)
     \<and> isl (fst (nats_Publish mem_nats (\<lambda>_. Inr ''rec'') p demo_record n))"
proof -
  obtain p n where n: "NewNATSPublisher mem_nats (CfgNATS default_config) nats0 = (Inr p, n)"
    by (simp add: NewNATSPublisher_def mem_nats_def nats0_def Let_def)
  from created_stream_rejects_acks [OF mn.jetstream_axioms _ n] n show ?thesis
    by (auto simp: nsubjects_def nats0_def)
qed

end
