(* ===== verification/Auth_Jwt.thy ===== *)
theory Auth_Jwt
  imports World Config
begin

text \<open>
  Tickets and bearer tokens (\<open>internal/auth/jwt.go\<close>). The JWT library is a parameter, the record
  \<open>jwt_lib\<close>; the locale \<open>jwt_laws\<close> states what it documents: it verifies signatures with the key the key
  function returns and refuses expired tokens. \<open>signed_by m key tok\<close> says that a token string carries a
  valid signature made with method \<open>m\<close> and \<open>key\<close>.
\<close>

section \<open>Claims and the library\<close>

text \<open>A claim that a token does not have is \<open>None\<close>.\<close>

record TicketClaims =
  cl_IP :: string
  cl_Subject :: string
  cl_IssuedAt :: "time option"
  cl_ExpiresAt :: "time option"
  cl_ID :: string

text \<open>The signing method of a token's header: one of the HMAC family, or another, by its name.\<close>

datatype jmethod = HMAC string | OtherMethod string

text \<open>
  \<open>jParseMap\<close> is \<open>jwt.Parse\<close>: of the claims map only what \<open>GetSubject\<close> answers is used. The time argument
  is the library's reading of the clock; the boolean is \<open>token.Valid\<close>.
\<close>

record jwt_lib =
  jSign :: "string \<Rightarrow> TicketClaims \<Rightarrow> go_error + string"
  jNumericDate :: "time \<Rightarrow> time"
  jParseTicket :: "time \<Rightarrow> string \<Rightarrow> (jmethod \<Rightarrow> go_error + string) \<Rightarrow> go_error + TicketClaims \<times> bool"
  jParseMap :: "time \<Rightarrow> string \<Rightarrow> (jmethod \<Rightarrow> go_error + string) \<Rightarrow> go_error + (go_error + string) \<times> bool"

section \<open>Operations\<close>

definition GenerateTicket ::
  "jwt_lib \<Rightarrow> auth_cfg \<Rightarrow> string \<Rightarrow> string \<Rightarrow> ('r, 'n) world \<Rightarrow> (go_error + string \<times> string) \<times> ('r, 'n) world" where
  "GenerateTicket J cfg clientID clientIP w =
     (let (jti, w1) = NewString w;
          (now, w2) = time_now w1;
          claims = \<lparr>cl_IP = clientIP, cl_Subject = clientID, cl_IssuedAt = Some (jNumericDate J now),
                    cl_ExpiresAt = Some (jNumericDate J (now + TicketTTL cfg)), cl_ID = jti\<rparr>
      in case jSign J (TicketSecret cfg) claims of
           Inl e \<Rightarrow> (Inl (Wrap ''failed to sign ticket'' e), w2)
         | Inr tok \<Rightarrow> (Inr (tok, jti), w2))"

text \<open>The key function both validations pass to the library: only HMAC methods get a key.\<close>

fun hmac_key :: "string \<Rightarrow> jmethod \<Rightarrow> go_error + string" where
  "hmac_key secret (HMAC _) = Inr secret"
| "hmac_key secret (OtherMethod alg) = Inl (Err (''unexpected signing method: '' @ alg))"

definition ValidateTicket ::
  "jwt_lib \<Rightarrow> auth_cfg \<Rightarrow> string \<Rightarrow> ('r, 'n) world \<Rightarrow> (go_error + TicketClaims) \<times> ('r, 'n) world" where
  "ValidateTicket J cfg tokenStr w =
     (let (now, w1) = time_now w
      in (case jParseTicket J now tokenStr (hmac_key (TicketSecret cfg)) of
            Inl e \<Rightarrow> Inl (Wrap ''invalid ticket'' e)
          | Inr (claims, valid) \<Rightarrow> if \<not> valid then Inl (Err ''invalid ticket claims'') else Inr claims, w1))"

definition ValidateRealToken ::
  "jwt_lib \<Rightarrow> auth_cfg \<Rightarrow> string \<Rightarrow> ('r, 'n) world \<Rightarrow> (go_error + string) \<times> ('r, 'n) world" where
  "ValidateRealToken J cfg tokenStr w =
     (let (now, w1) = time_now w
      in (case jParseMap J now tokenStr (hmac_key (TokenSecret cfg)) of
            Inl e \<Rightarrow> Inl (Wrap ''invalid token'' e)
          | Inr (sub, valid) \<Rightarrow>
              if \<not> valid then Inl (Err ''invalid token claims'')
              else (case sub of
                      Inl _ \<Rightarrow> Inl (Err ''missing subject in token'')
                    | Inr s \<Rightarrow> if s = [] then Inl (Err ''missing subject in token'') else Inr s), w1))"

section \<open>What the library documents\<close>

locale jwt_laws =
  fixes J :: jwt_lib and signed_by :: "jmethod \<Rightarrow> string \<Rightarrow> string \<Rightarrow> bool"
  assumes sign_signed: "jSign J secret c = Inr tok \<Longrightarrow> signed_by (HMAC ''HS256'') secret tok"
    and parse_signed_ticket: "jSign J secret c = Inr tok \<Longrightarrow> keyf (HMAC ''HS256'') = Inr secret \<Longrightarrow>
      (\<forall>e. cl_ExpiresAt c = Some e \<longrightarrow> now < e) \<Longrightarrow> jParseTicket J now tok keyf = Inr (c, True)"
    and parse_ticket_authentic: "jParseTicket J now tok keyf = Inr (c, True) \<Longrightarrow>
      (\<exists>m key. keyf m = Inr key \<and> signed_by m key tok) \<and> (\<forall>e. cl_ExpiresAt c = Some e \<longrightarrow> now < e)"
    and parse_map_authentic: "jParseMap J now tok keyf = Inr (sub, True) \<Longrightarrow>
      \<exists>m key. keyf m = Inr key \<and> signed_by m key tok"
    and numeric_date: "jNumericDate J t = (t div second) * second"
begin

lemma hmac_only: "(\<exists>m key. hmac_key secret m = Inr key \<and> signed_by m key tok) \<Longrightarrow> \<exists>alg. signed_by (HMAC alg) secret tok"
  by (metis hmac_key.elims sum.distinct(1) sum.inject(2))

lemma ValidateTicket_authentic:
  assumes "ValidateTicket J cfg tok w = (Inr c, w')"
  shows "(\<exists>alg. signed_by (HMAC alg) (TicketSecret cfg) tok) \<and> (\<forall>e. cl_ExpiresAt c = Some e \<longrightarrow> clock w (reads w) < e)
    \<and> w' = snd (time_now w)"
proof -
  have p: "jParseTicket J (clock w (reads w)) tok (hmac_key (TicketSecret cfg)) = Inr (c, True)" and w: "w' = snd (time_now w)"
    using assms by (auto simp: ValidateTicket_def time_now_def split: sum.splits prod.splits if_splits)
  from parse_ticket_authentic [OF p] w hmac_only show ?thesis by blast
qed

lemma ValidateRealToken_authentic:
  assumes "ValidateRealToken J cfg tok w = (Inr sub, w')"
  shows "(\<exists>alg. signed_by (HMAC alg) (TokenSecret cfg) tok) \<and> sub \<noteq> [] \<and> w' = snd (time_now w)"
proof -
  have p: "\<exists>y. jParseMap J (clock w (reads w)) tok (hmac_key (TokenSecret cfg)) = Inr (y, True)"
    and w: "w' = snd (time_now w)" "sub \<noteq> []"
    using assms by (auto simp: ValidateRealToken_def time_now_def split: sum.splits prod.splits if_splits)
  from p parse_map_authentic w hmac_only show ?thesis by blast
qed

text \<open>A generated ticket: its claims, and that it validates until it expires.\<close>

lemma GenerateTicket_validates:
  assumes "GenerateTicket J cfg cl ip w = (Inr (tok, jti), w')"
    and "clock w2 (reads w2) < (clock w (reads w) + TicketTTL cfg) div second * second"
  shows "\<exists>c. fst (ValidateTicket J cfg tok w2) = Inr c \<and> cl_Subject c = cl \<and> cl_IP c = ip \<and> cl_ID c = jti"
proof -
  let ?now = "clock w (reads w)"
  let ?c = "\<lparr>cl_IP = ip, cl_Subject = cl, cl_IssuedAt = Some (jNumericDate J ?now),
    cl_ExpiresAt = Some (jNumericDate J (?now + TicketTTL cfg)), cl_ID = jti\<rparr>"
  have "jSign J (TicketSecret cfg) ?c = Inr tok"
    using assms(1) by (auto simp: GenerateTicket_def NewString_def time_now_def Let_def split: sum.splits)
  then have "jParseTicket J (clock w2 (reads w2)) tok (hmac_key (TicketSecret cfg)) = Inr (?c, True)"
    using assms(2) by (intro parse_signed_ticket) (auto simp: numeric_date)
  then show ?thesis by (simp add: ValidateTicket_def time_now_def)
qed

end

section \<open>A library to evaluate on\<close>

text \<open>
  A stand-in for the library: a token is the secret followed by the claims, one per line. It stands in
  for the signature only where a witness evaluates; the theorems are about any library with the laws.
\<close>

abbreviation sep :: char where "sep \<equiv> CHR 0x0A"

definition line_free :: "string list \<Rightarrow> bool" where
  "line_free xs \<longleftrightarrow> list_all (\<lambda>x. sep \<notin> set x) xs"

definition demo_sign :: "string \<Rightarrow> TicketClaims \<Rightarrow> go_error + string" where
  "demo_sign secret c =
     (case (cl_IssuedAt c, cl_ExpiresAt c) of
        (Some i, Some e) \<Rightarrow>
          if line_free [secret, cl_IP c, cl_Subject c, cl_ID c] \<and> int64_range i \<and> int64_range e
          then Inr (secret @ sep # cl_IP c @ sep # cl_Subject c @ sep # Itoa i @ sep # Itoa e @ sep # cl_ID c)
          else Inl (Err ''cannot sign'')
      | _ \<Rightarrow> Inl (Err ''cannot sign''))"

definition demo_parse :: "time \<Rightarrow> string \<Rightarrow> (jmethod \<Rightarrow> go_error + string) \<Rightarrow> go_error + TicketClaims \<times> bool" where
  "demo_parse now tok keyf =
     (case (keyf (HMAC ''HS256''), split_on sep tok) of
        (Inr key, [s, ip, sub, i, e, jti]) \<Rightarrow>
          (case (Atoi i, Atoi e) of
             (Some i', Some e') \<Rightarrow>
               if s = key \<and> now < e'
               then Inr (\<lparr>cl_IP = ip, cl_Subject = sub, cl_IssuedAt = Some i', cl_ExpiresAt = Some e', cl_ID = jti\<rparr>, True)
               else Inl (Err ''signature is invalid'')
           | _ \<Rightarrow> Inl (Err ''token is malformed''))
      | (Inl e, _) \<Rightarrow> Inl e
      | _ \<Rightarrow> Inl (Err ''token is malformed''))"

definition demo_parse_map :: "time \<Rightarrow> string \<Rightarrow> (jmethod \<Rightarrow> go_error + string) \<Rightarrow> go_error + (go_error + string) \<times> bool" where
  "demo_parse_map now tok keyf =
     (case (keyf (HMAC ''HS256''), split_on sep tok) of
        (Inr key, [s, sub]) \<Rightarrow> if s = key then Inr (Inr sub, True) else Inl (Err ''signature is invalid'')
      | (Inl e, _) \<Rightarrow> Inl e
      | _ \<Rightarrow> Inl (Err ''token is malformed''))"

definition demo_jwt :: jwt_lib where
  "demo_jwt = \<lparr>jSign = demo_sign, jNumericDate = (\<lambda>t. (t div second) * second), jParseTicket = demo_parse,
     jParseMap = demo_parse_map\<rparr>"

definition demo_signed :: "jmethod \<Rightarrow> string \<Rightarrow> string \<Rightarrow> bool" where
  "demo_signed m key tok \<longleftrightarrow> m = HMAC ''HS256'' \<and> hd (split_on sep tok) = key"

lemma digits_no_sep: "list_all is_digit s \<Longrightarrow> sep \<notin> set s"
  by (auto simp: list_all_iff is_digit_def)

lemma Itoa_no_sep: "sep \<notin> set (Itoa i)"
  using digits_no_sep nat_digits_props by (simp add: Itoa_def)

lemma demo_sign_parts:
  assumes "demo_sign secret c = Inr tok"
  shows "\<exists>i e. cl_IssuedAt c = Some i \<and> cl_ExpiresAt c = Some e \<and> int64_range i \<and> int64_range e
    \<and> split_on sep tok = [secret, cl_IP c, cl_Subject c, Itoa i, Itoa e, cl_ID c]"
  using assms by (auto simp: demo_sign_def line_free_def split_on_append split_on_free Itoa_no_sep
      split: option.splits if_splits)

interpretation dj: jwt_laws demo_jwt demo_signed
proof unfold_locales
  fix secret c tok
  assume "jSign demo_jwt secret c = Inr tok"
  then show "demo_signed (HMAC ''HS256'') secret tok"
    using demo_sign_parts by (fastforce simp: demo_jwt_def demo_signed_def)
next
  fix secret c tok now and keyf :: "jmethod \<Rightarrow> go_error + string"
  assume a: "jSign demo_jwt secret c = Inr tok" "keyf (HMAC ''HS256'') = Inr secret" "\<forall>e. cl_ExpiresAt c = Some e \<longrightarrow> now < e"
  then obtain i e where "cl_IssuedAt c = Some i" "cl_ExpiresAt c = Some e" "int64_range i" "int64_range e"
      "split_on sep tok = [secret, cl_IP c, cl_Subject c, Itoa i, Itoa e, cl_ID c]"
    using demo_sign_parts by (fastforce simp: demo_jwt_def)
  with a show "jParseTicket demo_jwt now tok keyf = Inr (c, True)"
    by (simp add: demo_jwt_def demo_parse_def Atoi_Itoa)
next
  fix now tok c and keyf :: "jmethod \<Rightarrow> go_error + string"
  assume "jParseTicket demo_jwt now tok keyf = Inr (c, True)"
  then show "(\<exists>m key. keyf m = Inr key \<and> demo_signed m key tok) \<and> (\<forall>e. cl_ExpiresAt c = Some e \<longrightarrow> now < e)"
    by (auto simp: demo_jwt_def demo_parse_def demo_signed_def split: sum.splits list.splits option.splits if_splits)
next
  fix now tok sub and keyf :: "jmethod \<Rightarrow> go_error + string"
  assume "jParseMap demo_jwt now tok keyf = Inr (sub, True)"
  then show "\<exists>m key. keyf m = Inr key \<and> demo_signed m key tok"
    by (auto simp: demo_jwt_def demo_parse_map_def demo_signed_def split: sum.splits list.splits option.splits if_splits)
qed (simp add: demo_jwt_def)

definition demo_world0 :: "(unit, unit) world" where
  "demo_world0 = \<lparr>rdb = (), nats = (), mtr = zero_metrics, clock = (\<lambda>n. int n), reads = 0,
     uuids = (\<lambda>n. ''j1''), drawn = 0\<rparr>"

section \<open>Properties\<close>

text \<open>
  C25: Round trip. A ticket that \<open>GenerateTicket\<close> returned is accepted by \<open>ValidateTicket\<close> under the same
  configuration until its lifetime, rounded down to whole seconds, is over, and yields the client, the
  address and the ticket identifier it was made for.
\<close>

theorem ticket_roundtrip:
  assumes "jwt_laws J signed_by" and "GenerateTicket J cfg cl ip w = (Inr (tok, jti), w')"
    and "clock w2 (reads w2) < (clock w (reads w) + TicketTTL cfg) div second * second"
  shows "\<exists>c. fst (ValidateTicket J cfg tok w2) = Inr c \<and> cl_Subject c = cl \<and> cl_IP c = ip \<and> cl_ID c = jti"
  by (rule jwt_laws.GenerateTicket_validates [OF assms])

theorem ticket_roundtrip_witness:
  "\<exists>tok w c. GenerateTicket demo_jwt (CfgAuth default_config) ''u1'' ''1.2.3.4'' demo_world0 = (Inr (tok, ''j1''), w)
     \<and> fst (ValidateTicket demo_jwt (CfgAuth default_config) tok demo_world0) = Inr c \<and> cl_Subject c = ''u1''"
proof -
  obtain tok w where g: "GenerateTicket demo_jwt (CfgAuth default_config) ''u1'' ''1.2.3.4'' demo_world0 = (Inr (tok, ''j1''), w)"
    by (simp add: GenerateTicket_def NewString_def time_now_def demo_world0_def demo_jwt_def demo_sign_def
        line_free_def default_config_def second_def)
  from ticket_roundtrip [OF dj.jwt_laws_axioms g, of demo_world0] g show ?thesis
    by (auto simp: demo_world0_def default_config_def second_def)
qed

text \<open>
  C31: Only tokens signed with an HMAC method under the configured secret are accepted, whatever method
  their header names: tickets under \<open>ticket_secret\<close> and not expired, bearer tokens under \<open>token_secret\<close>
  and with a non-empty subject.
\<close>

theorem only_hmac_tokens_accepted:
  assumes "jwt_laws J signed_by"
  shows "(ValidateTicket J cfg tok w = (Inr c, w') \<longrightarrow> (\<exists>alg. signed_by (HMAC alg) (TicketSecret cfg) tok)
      \<and> (\<forall>e. cl_ExpiresAt c = Some e \<longrightarrow> clock w (reads w) < e))
    \<and> (ValidateRealToken J cfg tok w = (Inr sub, w') \<longrightarrow> (\<exists>alg. signed_by (HMAC alg) (TokenSecret cfg) tok) \<and> sub \<noteq> [])"
  using jwt_laws.ValidateTicket_authentic [OF assms, of cfg tok w c w']
    jwt_laws.ValidateRealToken_authentic [OF assms, of cfg tok w sub w'] by blast

theorem only_hmac_tokens_accepted_witness:
  "\<exists>w sub alg. ValidateRealToken demo_jwt (CfgAuth default_config) (TokenSecret (CfgAuth default_config) @ sep # ''u1'') demo_world0
      = (Inr sub, w) \<and> demo_signed (HMAC alg) (TokenSecret (CfgAuth default_config)) (TokenSecret (CfgAuth default_config) @ sep # ''u1'')"
proof -
  let ?tok = "TokenSecret (CfgAuth default_config) @ sep # ''u1''"
  obtain sub w where v: "ValidateRealToken demo_jwt (CfgAuth default_config) ?tok demo_world0 = (Inr sub, w)"
    by (simp add: ValidateRealToken_def time_now_def demo_world0_def demo_jwt_def demo_parse_map_def default_config_def)
  from only_hmac_tokens_accepted [OF dj.jwt_laws_axioms, of _ ?tok demo_world0] v show ?thesis by blast
qed

end
