(* ===== verification/Http_Context.thy ===== *)
theory Http_Context
  imports Event_Store Ticket_Store InFlight_Store Rate_Limiter Stream_Loop Publisher Auth_Jwt
begin

text \<open>
  Requests, responses and the dependencies of the handlers (\<open>internal/http/handlers/handlers.go\<close>), and
  the two middlewares (\<open>internal/http/middleware/middleware.go\<close>). Of an echo context the model keeps the
  request, the values set by middlewares and the path and query parameters; a JSON response is its status
  and a value of the type \<open>body\<close>. JSON decoders and encoders, echo's \<open>Bind\<close> and the client address
  strategy are parameters, the fields of \<open>handler_libs\<close>.
\<close>

section \<open>Requests and responses\<close>

record request =
  rq_ctx :: go_context
  rq_Header :: "string \<Rightarrow> string list"
  rq_RemoteAddr :: string
  rq_Body :: string

record echo_ctx =
  ctx_req :: request
  ctx_vals :: "string \<rightharpoonup> string"
  ctx_params :: "string \<Rightarrow> string"
  ctx_query :: "string \<Rightarrow> string"

text \<open>\<open>Header.Get\<close>: the first value of a header, the empty string when there is none.\<close>

definition header_get :: "request \<Rightarrow> string \<Rightarrow> string" where
  "header_get r name = (case rq_Header r name of [] \<Rightarrow> [] | v # _ \<Rightarrow> v)"

definition ctx_Set :: "string \<Rightarrow> string \<Rightarrow> echo_ctx \<Rightarrow> echo_ctx" where
  "ctx_Set k v c = c\<lparr>ctx_vals := (ctx_vals c)(k \<mapsto> v)\<rparr>"

text \<open>\<open>s, _ := ctx.Get(k).(string)\<close>; without the comma-ok form a missing value panics instead.\<close>

definition get_ok :: "echo_ctx \<Rightarrow> string \<Rightarrow> string" where
  "get_ok c k = (case ctx_vals c k of None \<Rightarrow> [] | Some v \<Rightarrow> v)"

datatype body =
    ErrorBody string string
  | TicketBody string int
  | PayloadBody EventPayload
  | EventsBody "EventPayload list" int
  | AckBody AckResponse
  | StatusBody "(string \<times> string) list"
  | ReadyBody string "(string \<times> string) list"

record response =
  rs_status :: int
  rs_headers :: "(string \<times> string) list"
  rs_body :: body

definition JSON :: "int \<Rightarrow> body \<Rightarrow> response" where
  "JSON status b = \<lparr>rs_status = status, rs_headers = [], rs_body = b\<rparr>"

abbreviation errorResponse :: "int \<Rightarrow> string \<Rightarrow> string \<Rightarrow> response" where
  "errorResponse status err msg \<equiv> JSON status (ErrorBody err msg)"

lemma JSON_simps [simp]: "rs_status (JSON s b) = s" "rs_body (JSON s b) = b" "rs_headers (JSON s b) = []"
  by (simp_all add: JSON_def)

text \<open>The status a client sees: echo's \<open>Recover\<close> middleware turns a panic into an internal server error.\<close>

fun status_of :: "response outcome \<Rightarrow> int" where
  "status_of (Ret resp) = rs_status resp"
| "status_of Panic = StatusInternalServerError"

text \<open>
  \<open>http.MaxBytesReader\<close>: a body reader delivers bytes and then ends, or fails once the limit is exceeded.
\<close>

datatype reader = Reader string bool

definition MaxBytesReader :: "string \<Rightarrow> int \<Rightarrow> reader" where
  "MaxBytesReader b n = (if int (length b) \<le> n then Reader b False else Reader (take (nat n) b) True)"

section \<open>The handlers' dependencies\<close>

record handler_libs =
  lib_jwt :: jwt_lib
  lib_Bind :: "request \<Rightarrow> reader \<Rightarrow> go_error + EventRequest"
  lib_marshalEvent :: "EventPayload \<Rightarrow> go_error + string"
  lib_sonicEvent :: "string \<Rightarrow> EventPayload option"
  lib_decodeAck :: "string \<Rightarrow> go_error + AckRequest"
  lib_marshalAck :: "AckRecord \<Rightarrow> go_error + string"
  lib_ClientIP :: "(string \<Rightarrow> string list) \<Rightarrow> string \<Rightarrow> string"

text \<open>\<open>AppCTX\<close> is the state of the application's context; it matters to the stream loop only.\<close>

record ('r, 'n) HTTPHandlers =
  AppCTX :: go_context
  RDB :: "'r redis"
  Events :: eventStore
  Conns :: connectionStore
  AckPublisher :: publisher
  NatsConn :: "'n nats_api"
  Cfg :: config
  Libs :: handler_libs

type_synonym ('r, 'n) handler = "echo_ctx \<Rightarrow> ('r, 'n) world \<Rightarrow> response outcome \<times> ('r, 'n) world"

section \<open>Middleware\<close>

definition ClientID :: string where "ClientID = ''client_id''"
definition ClientIP :: string where "ClientIP = ''client_ip''"

definition IPMiddleware :: "handler_libs \<Rightarrow> ('r, 'n) handler \<Rightarrow> ('r, 'n) handler" where
  "IPMiddleware L next c w =
     (let clientIP = lib_ClientIP L (rq_Header (ctx_req c)) (rq_RemoteAddr (ctx_req c))
      in if clientIP = []
         then (Ret (errorResponse StatusInternalServerError ''internal_error'' ''Failed to determine client IP.''), w)
         else next (ctx_Set ClientIP clientIP c) w)"

definition TokenMiddleware :: "handler_libs \<Rightarrow> auth_cfg \<Rightarrow> ('r, 'n) handler \<Rightarrow> ('r, 'n) handler" where
  "TokenMiddleware L cfg next c w =
     (let authHeader = header_get (ctx_req c) ''Authorization'';
          denied = errorResponse StatusUnauthorized ''invalid_token'' ''The provided token is invalid or expired.''
      in if length authHeader < 8 \<or> take 7 authHeader \<noteq> ''Bearer '' then (Ret denied, w)
         else (case ValidateRealToken (lib_jwt L) cfg (drop 7 authHeader) w of
                 (Inl _, w1) \<Rightarrow> (Ret denied, w1)
               | (Inr clientID, w1) \<Rightarrow>
                   let clientIP = lib_ClientIP L (rq_Header (ctx_req c)) (rq_RemoteAddr (ctx_req c))
                   in if clientIP = []
                      then (Ret (errorResponse StatusInternalServerError ''internal_error'' ''Failed to determine client IP.''), w1)
                      else next (ctx_Set ClientIP clientIP (ctx_Set ClientID clientID c)) w1))"

text \<open>What the middlewares establish for the handler behind them.\<close>

definition authenticated :: "handler_libs \<Rightarrow> auth_cfg \<Rightarrow> (jmethod \<Rightarrow> string \<Rightarrow> string \<Rightarrow> bool) \<Rightarrow> echo_ctx \<Rightarrow> bool" where
  "authenticated L cfg signed_by c \<longleftrightarrow>
     (\<exists>tok alg. header_get (ctx_req c) ''Authorization'' = ''Bearer '' @ tok \<and> signed_by (HMAC alg) (TokenSecret cfg) tok)"

lemma IPMiddleware_cases:
  obtains "status_of (fst (IPMiddleware L next c w)) = 500"
      "snd (IPMiddleware L next c w) = w"
  | ip where "ip \<noteq> []" "IPMiddleware L next c w = next (ctx_Set ClientIP ip c) w"
  by (cases "lib_ClientIP L (rq_Header (ctx_req c)) (rq_RemoteAddr (ctx_req c)) = []") (auto simp: IPMiddleware_def Let_def)

lemma TokenMiddleware_cases:
  assumes "jwt_laws (lib_jwt L) signed_by"
  obtains "status_of (fst (TokenMiddleware L cfg next c w)) \<in> {401, 500}"
      "rdb (snd (TokenMiddleware L cfg next c w)) = rdb w" "nats (snd (TokenMiddleware L cfg next c w)) = nats w"
  | cl ip where "cl \<noteq> []" "ip \<noteq> []" "authenticated L cfg signed_by c"
      "TokenMiddleware L cfg next c w = next (ctx_Set ClientIP ip (ctx_Set ClientID cl c)) (snd (time_now w))"
proof -
  let ?h = "header_get (ctx_req c) ''Authorization''"
  show thesis
  proof (cases "length ?h < 8 \<or> take 7 ?h \<noteq> ''Bearer ''")
    case True
    then show ?thesis using that(1) by (auto simp: TokenMiddleware_def)
  next
    case False
    then have h: "?h = ''Bearer '' @ drop 7 ?h" by (metis append_take_drop_id)
    obtain x w1 where v: "ValidateRealToken (lib_jwt L) cfg (drop 7 ?h) w = (x, w1)" by force
    show ?thesis
    proof (cases x)
      case (Inl e)
      have "w1 = snd (time_now w)" using v by (auto simp: ValidateRealToken_def time_now_def Let_def)
      with Inl v False that(1) show ?thesis by (auto simp: TokenMiddleware_def)
    next
      case (Inr cl)
      from jwt_laws.ValidateRealToken_authentic [OF assms v [unfolded Inr]]
      have a: "authenticated L cfg signed_by c" "cl \<noteq> []" "w1 = snd (time_now w)"
        using h by (auto simp: authenticated_def)
      from False v Inr a that show ?thesis
        by (cases "lib_ClientIP L (rq_Header (ctx_req c)) (rq_RemoteAddr (ctx_req c)) = []")
          (auto simp: TokenMiddleware_def Let_def)
    qed
  qed
qed

section \<open>Instances to evaluate on\<close>

text \<open>JSON events, acknowledgements with one field per line, handlers over the in-memory servers, and a request.\<close>

definition demo_libs :: handler_libs where
  "demo_libs =
    \<lparr>lib_jwt = demo_jwt,
     lib_Bind = (\<lambda>rq rd. case rd of Reader b fails \<Rightarrow>
        if fails then Inl (Err ''bad body'')
        else (case Unmarshal_EventRequest b of None \<Rightarrow> Inl (Err ''bad body'') | Some r \<Rightarrow> Inr r)),
     lib_marshalEvent = (\<lambda>p. Inr (event_text p)), lib_sonicEvent = Unmarshal_EventPayload,
     lib_decodeAck = (\<lambda>s. case split_on sep s of
        [e, cl, st] \<Rightarrow> Inr \<lparr>req_EventID = e, req_ClientID = cl, req_StreamID = ''s1'', req_AckedAt = 5, req_Status = st,
                          req_Metadata = Map.empty\<rparr>
      | _ \<Rightarrow> Inl (Err ''bad json'')),
     lib_marshalAck = (\<lambda>a. Inr (rec_EventID a)), lib_ClientIP = (\<lambda>_ addr. addr)\<rparr>"

definition demo_handlers :: "(mem, memnats) HTTPHandlers" where
  "demo_handlers =
    \<lparr>AppCTX = Background, RDB = mem_redis, Events = NewEventStore 10, Conns = NewConnectionStore ''i1'',
     AckPublisher = NatsPublisher \<lparr>subject = ''sse.acks'', pub_timeout = second, maxRetries = 3\<rparr>, NatsConn = mem_nats,
     Cfg = default_config, Libs = demo_libs\<rparr>"

definition demo_state :: "mem \<Rightarrow> (mem, memnats) world" where
  "demo_state r = \<lparr>rdb = r, nats = nats1\<lparr>lossy := 0\<rparr>, mtr = zero_metrics, clock = (\<lambda>n. int n), reads = 0,
     uuids = (\<lambda>n. ''i0'' @ replicate n CHR ''+''), drawn = 0\<rparr>"

text \<open>A request of the client \<open>u1\<close> with a given body, as the token middleware passes it on.\<close>

definition demo_ctx :: "string \<Rightarrow> echo_ctx" where
  "demo_ctx b = \<lparr>ctx_req = \<lparr>rq_ctx = ReqCtx, rq_Header = (\<lambda>_. []), rq_RemoteAddr = ''1.2.3.4'', rq_Body = b\<rparr>,
     ctx_vals = [ClientID \<mapsto> ''u1'', ClientIP \<mapsto> ''1.2.3.4''],
     ctx_params = (\<lambda>k. if k = ''client_id'' then ''u1'' else []), ctx_query = (\<lambda>_. [])\<rparr>"

text \<open>The body of a request that inserts an event.\<close>

definition demo_body :: string where
  "demo_body = request_text \<lparr>er_Type = ''order'', er_Data = ''{}''\<rparr>"

lemma demo_body_facts [simp]:
  "Unmarshal_EventRequest demo_body = Some \<lparr>er_Type = ''order'', er_Data = ''{}''\<rparr>" "length demo_body = 26"
  by (simp_all add: demo_body_def request_text_roundtrip fix_utf8_valid)
    (simp add: request_text_def json_object_def json_string_def escape_byte_def)

lemmas demo_defs = demo_handlers_def demo_libs_def demo_ctx_def

lemma demo_events: "redis_events (RDB demo_handlers) mks mup (Events demo_handlers)"
  using mem_events [of 10] by (simp add: demo_handlers_def)

lemma demo_simps [simp]:
  "rdb (demo_state r) = r" "drawn (demo_state r) = 0" "uuids (demo_state r) 0 = ''i0''" "reads (demo_state r) = 0"
  "clock (demo_state r) = int" "ctx_params (demo_ctx b) ''client_id'' = ''u1''" "get_ok (demo_ctx b) ClientID = ''u1''"
  "rq_Body (ctx_req (demo_ctx b)) = b" "rq_ctx (ctx_req (demo_ctx b)) = ReqCtx"
  "maxQueueDepth (Events demo_handlers) = 10" "RDB demo_handlers = mem_redis" "queue_of mks mem0 cl = []"
  by (simp_all add: demo_state_def demo_ctx_def demo_handlers_def get_ok_def ClientID_def ClientIP_def NewEventStore_def
      queue_of_def mks_def mem0_def)

lemma demo_redis: "redis_laws (RDB demo_handlers) mks mup"
  using mr.redis_laws_axioms by (simp add: demo_handlers_def)

lemma demo_jwt_ok: "jwt_laws (lib_jwt (Libs demo_handlers)) demo_signed"
  using dj.jwt_laws_axioms by (simp add: demo_defs)

end
