(* ===== verification/Ack_Handler.thy ===== *)
theory Ack_Handler
  imports Http_Context
begin

text \<open>
  Acknowledging a delivered event: \<open>V1AckEvent\<close> and \<open>validateAckRequest\<close> (\<open>handlers/ack.go\<close>). The ten
  steps of the handler are kept in order: readiness of the publisher, decoding, validation, the check of
  the client, the in-flight check, the record, publishing, marking, metrics, the answer.
\<close>

section \<open>Operations\<close>

text \<open>The result is the text of the error, if any.\<close>

definition validateAckRequest :: "AckRequest \<Rightarrow> string option" where
  "validateAckRequest r =
     (if req_EventID r = [] then Some ''missing required field: event_id''
      else if req_ClientID r = [] then Some ''missing required field: client_id''
      else if req_StreamID r = [] then Some ''missing required field: stream_id''
      else if IsZero (req_AckedAt r) then Some ''missing required field: acked_at''
      else if req_Status r \<noteq> AckStatusReceived \<and> req_Status r \<noteq> AckStatusProcessed \<and> req_Status r \<noteq> AckStatusFailed
      then Some ''invalid status: must be one of received, processed, failed''
      else None)"

text \<open>Metrics updates of the handler.\<close>

definition ack_invalid :: "string \<Rightarrow> metrics \<Rightarrow> metrics" where
  "ack_invalid kind m = m\<lparr>AckValidationErrorsTotal := inc_at [kind] (AckValidationErrorsTotal m)\<rparr>"

definition ack_request :: "int \<Rightarrow> string \<Rightarrow> metrics \<Rightarrow> metrics" where
  "ack_request status stream m = m\<lparr>AckRequestsTotal := inc_at [Itoa status, stream] (AckRequestsTotal m)\<rparr>"

text \<open>Steps 7 to 10, for a request that has been found in flight.\<close>

definition ack_publish :: "('r, 'n) HTTPHandlers \<Rightarrow> go_context \<Rightarrow> time \<Rightarrow> AckRequest \<Rightarrow> ('r, 'n) world \<Rightarrow> response outcome \<times> ('r, 'n) world" where
  "ack_publish h c start req w =
     (let (serverNow, w1) = time_now w;
          (ackID, w2) = NewString w1;
          record = \<lparr>rec_AckID = ackID, rec_EventID = req_EventID req, rec_ClientID = req_ClientID req,
                    rec_StreamID = req_StreamID req, rec_AckedAt = req_AckedAt req, rec_Status = req_Status req,
                    rec_Metadata = req_Metadata req, rec_ServerReceivedAt = serverNow\<rparr>;
          (publishStart, w3) = time_now w2;
          (result, w4) = on_nats (Publish (NatsConn h) (lib_marshalAck (Libs h)) (AckPublisher h) record) w3;
          (publishEnd, w5) = time_now w4;
          subject = ''scorpion.sse.acks.'' @ req_ClientID req
      in case result of
           Inl _ \<Rightarrow>
             (Ret (errorResponse StatusBadGateway ''bad_gateway'' ''Failed to publish ACK to NATS.''),
              count (\<lambda>m. ack_request StatusBadGateway (req_StreamID req)
                  (m\<lparr>NATSPublishTotal := inc_at [subject, ''failure''] (NATSPublishTotal m)\<rparr>)) w5)
         | Inr seq \<Rightarrow>
             let w6 = count (\<lambda>m. m\<lparr>NATSPublishTotal := inc_at [subject, ''success''] (NATSPublishTotal m),
                        NATSPublishDuration := observe_at [subject] (publishEnd - publishStart) (NATSPublishDuration m)\<rparr>) w5;
                 (ackedAt, w7) = time_now w6;
                 (_, w8) = on_rdb (MarkAcked (RDB h) ackedAt c (req_ClientID req) (req_EventID req)) w7;
                 (ended, w9) = time_now w8
             in (Ret (JSON StatusOK (AckBody \<lparr>resp_AckID = ackID, resp_EventID = req_EventID req, resp_Published = True,
                    resp_NATSSeq = seq, resp_Timestamp = serverNow\<rparr>)),
                 count (\<lambda>m. (ack_request StatusOK (req_StreamID req)
                    (m\<lparr>AckProcessingDuration := observe_at [req_StreamID req] (ended - start) (AckProcessingDuration m)\<rparr>))
                    \<lparr>UnackedEventsTotal := dec_at [req_StreamID req, req_ClientID req] (UnackedEventsTotal m)\<rparr>) w9))"

definition V1AckEvent :: "('r, 'n) HTTPHandlers \<Rightarrow> ('r, 'n) handler" where
  "V1AckEvent h c w =
     (let (start, w0) = time_now w;
          authedClientID = get_ok c ClientID
      in if \<not> Connected (NatsConn h) (AckPublisher h) (nats w0)
         then (Ret (errorResponse StatusServiceUnavailable ''service_unavailable'' ''ACK handler is not connected to NATS.''), w0)
         else case lib_decodeAck (Libs h) (rq_Body (ctx_req c)) of
           Inl _ \<Rightarrow> (Ret (errorResponse StatusBadRequest ''bad_request'' ''Malformed or non-JSON request body.''),
                     count (ack_invalid ''malformed_json'') w0)
         | Inr req \<Rightarrow>
           (case validateAckRequest req of
              Some err \<Rightarrow> (Ret (errorResponse StatusBadRequest ''bad_request'' err), count (ack_invalid ''missing_fields'') w0)
            | None \<Rightarrow>
              if req_ClientID req \<noteq> authedClientID
              then (Ret (errorResponse StatusForbidden ''forbidden'' ''client_id does not match authorization token.''),
                    count (ack_invalid ''client_id_mismatch'') w0)
              else (case on_rdb (Validate (RDB h) (rq_ctx (ctx_req c)) (req_ClientID req) (req_EventID req)) w0 of
                (Inl _, w1) \<Rightarrow> (Ret (errorResponse StatusInternalServerError ''internal_error'' ''Failed to validate event.''), w1)
              | (Inr (found, alreadyAcked), w1) \<Rightarrow>
                  if alreadyAcked
                  then (Ret (errorResponse StatusConflict ''conflict'' ''This event has already been acknowledged.''),
                        count (\<lambda>m. ack_request StatusConflict (req_StreamID req)
                          (m\<lparr>AckDuplicateTotal := inc_at [req_StreamID req] (AckDuplicateTotal m)\<rparr>)) w1)
                  else if \<not> found
                  then (Ret (errorResponse StatusNotFound ''not_found'' ''event_id not found in in-flight registry.''),
                        count (\<lambda>m. ack_request StatusNotFound (req_StreamID req)
                          (m\<lparr>AckUnknownEventTotal := inc_at [req_StreamID req] (AckUnknownEventTotal m)\<rparr>)) w1)
                  else ack_publish h (rq_ctx (ctx_req c)) start req w1)))"

section \<open>Lemmas\<close>

lemma validateAckRequest_None:
  "validateAckRequest r = None \<longleftrightarrow> req_EventID r \<noteq> [] \<and> req_ClientID r \<noteq> [] \<and> req_StreamID r \<noteq> []
     \<and> req_AckedAt r \<noteq> zero_time \<and> req_Status r \<in> {AckStatusReceived, AckStatusProcessed, AckStatusFailed}"
  by (auto simp: validateAckRequest_def IsZero_def)

text \<open>A request that reaches the in-flight check.\<close>

definition ack_admitted :: "('r, 'n) HTTPHandlers \<Rightarrow> echo_ctx \<Rightarrow> ('r, 'n) world \<Rightarrow> AckRequest \<Rightarrow> bool" where
  "ack_admitted h c w req \<longleftrightarrow> Connected (NatsConn h) (AckPublisher h) (nats w)
     \<and> lib_decodeAck (Libs h) (rq_Body (ctx_req c)) = Inr req \<and> validateAckRequest req = None
     \<and> req_ClientID req = get_ok c ClientID"

lemma ack_not_admitted:
  assumes "\<nexists>req. ack_admitted h c w req"
  shows "status_of (fst (V1AckEvent h c w)) \<in> {400, 403, 503} \<and> rdb (snd (V1AckEvent h c w)) = rdb w
    \<and> nats (snd (V1AckEvent h c w)) = nats w"
proof (cases "Connected (NatsConn h) (AckPublisher h) (nats w)")
  case False
  then show ?thesis by (simp add: V1AckEvent_def time_now_def)
next
  case conn: True
  show ?thesis
  proof (cases "lib_decodeAck (Libs h) (rq_Body (ctx_req c))")
    case (Inl e)
    with conn show ?thesis by (simp add: V1AckEvent_def time_now_def)
  next
    case (Inr req)
    with assms conn show ?thesis
      by (cases "validateAckRequest req") (auto simp: V1AckEvent_def time_now_def ack_admitted_def)
  qed
qed

text \<open>What publishing and marking do: one call of \<open>Publish\<close> with the request's record, then \<open>MarkAcked\<close>.\<close>

definition record_for :: "AckRequest \<Rightarrow> AckRecord \<Rightarrow> bool" where
  "record_for req a \<longleftrightarrow> rec_EventID a = req_EventID req \<and> rec_ClientID a = req_ClientID req \<and> rec_StreamID a = req_StreamID req
     \<and> rec_AckedAt a = req_AckedAt req \<and> rec_Status a = req_Status req \<and> rec_Metadata a = req_Metadata req"

lemma ack_publish_result:
  "\<exists>a x n. record_for req a \<and> Publish (NatsConn h) (lib_marshalAck (Libs h)) (AckPublisher h) a (nats w) = (x, n)
     \<and> nats (snd (ack_publish h c start req w)) = n
     \<and> (isl x \<longrightarrow> status_of (fst (ack_publish h c start req w)) = 502 \<and> rdb (snd (ack_publish h c start req w)) = rdb w)
     \<and> (\<not> isl x \<longrightarrow> status_of (fst (ack_publish h c start req w)) = 200 \<and> (\<exists>t. rdb (snd (ack_publish h c start req w))
           = snd (MarkAcked (RDB h) t c (req_ClientID req) (req_EventID req) (rdb w))))"
proof -
  let ?a = "\<lparr>rec_AckID = uuids w (drawn w), rec_EventID = req_EventID req, rec_ClientID = req_ClientID req,
    rec_StreamID = req_StreamID req, rec_AckedAt = req_AckedAt req, rec_Status = req_Status req,
    rec_Metadata = req_Metadata req, rec_ServerReceivedAt = clock w (reads w)\<rparr>"
  obtain x n where p: "Publish (NatsConn h) (lib_marshalAck (Libs h)) (AckPublisher h) ?a (nats w) = (x, n)" by force
  show ?thesis
  proof (cases x)
    case (Inl e)
    with p show ?thesis
      by (intro exI [of _ ?a] exI [of _ x] exI [of _ n])
        (simp add: record_for_def ack_publish_def time_now_def NewString_def on_nats_def Let_def)
  next
    case (Inr seq)
    let ?t = "clock w (Suc (Suc (Suc (reads w))))"
    obtain y r where m: "MarkAcked (RDB h) ?t c (req_ClientID req) (req_EventID req) (rdb w) = (y, r)" by force
    from Inr p m show ?thesis
      by (intro exI [of _ ?a] exI [of _ x] exI [of _ n])
        (auto simp: record_for_def ack_publish_def time_now_def NewString_def on_nats_def on_rdb_def Let_def intro: exI [of _ ?t])
  qed
qed

context redis_laws
begin

lemma Validate_up:
  assumes "up c r"
  shows "\<exists>f a r'. Validate R c cl ev r = (Inr (f, a), r') \<and> (\<forall>c'. up c' r \<longrightarrow> up c' r')"
proof -
  obtain x1 r1 where 1: "rExists R c (ackedKey cl ev) r = (x1, r1)" by force
  with exists_up [OF assms] obtain n where x1: "x1 = Inr n" by (cases x1) auto
  have u1: "\<forall>c'. up c' r \<longrightarrow> up c' r1" using up_stable 1 by (metis snd_conv)
  obtain x2 r2 where 2: "rExists R c (inFlightKey cl ev) r1 = (x2, r2)" by force
  with exists_up u1 assms obtain m where x2: "x2 = Inr m" by (cases x2) auto
  have u2: "\<forall>c'. up c' r1 \<longrightarrow> up c' r2" using up_stable 2 by (metis snd_conv)
  from 1 2 x1 x2 u1 u2 show ?thesis by (cases "0 < n") (auto simp: Validate_def)
qed

lemma MarkAcked_up:
  assumes "up c r"
  shows "\<exists>r'. MarkAcked R t c cl ev r = (Inr True, r') \<and> (\<forall>c'. up c' r \<longrightarrow> up c' r')"
proof -
  obtain x1 r1 where 1: "rSet R c (ackedKey cl ev) (RFC3339Nano t) ackedTTL r = (x1, r1)" by force
  with set_up [OF assms, of ackedTTL] obtain a where x1: "x1 = Inr a"
    by (cases x1) (auto simp: ackedTTL_def hour_def second_def)
  have u1: "\<forall>c'. up c' r \<longrightarrow> up c' r1" using up_stable 1 by (metis snd_conv)
  obtain x2 r2 where 2: "rDel R c (inFlightKey cl ev) r1 = (x2, r2)" by force
  with del_up u1 assms obtain m where x2: "x2 = Inr m" by (cases x2) auto
  have u2: "\<forall>c'. up c' r1 \<longrightarrow> up c' r2" using up_stable 2 by (metis snd_conv)
  from 1 2 x1 x2 u1 u2 show ?thesis by (auto simp: MarkAcked_def)
qed

text \<open>Publishing and marking on a Redis that answers.\<close>

lemma ack_publish_up:
  assumes "RDB h = R" and "up c (rdb w)" and "ack_publish h c start req w = (res, w')"
    and "phase_of ks (rdb w) (req_ClientID req) (req_EventID req) = Delivered"
  shows "\<exists>a x. record_for req a
      \<and> Publish (NatsConn h) (lib_marshalAck (Libs h)) (AckPublisher h) a (nats w) = (x, nats w')
      \<and> status_of res = (if isl x then 502 else 200)
      \<and> phase_of ks (rdb w') (req_ClientID req) (req_EventID req) = (if isl x then Delivered else Acked)
      \<and> (\<forall>c'. up c' (rdb w) \<longrightarrow> up c' (rdb w'))"
proof -
  let ?cl = "req_ClientID req" and ?ev = "req_EventID req"
  from ack_publish_result [of req h w c start] assms(3) obtain a x where
    a: "record_for req a" "Publish (NatsConn h) (lib_marshalAck (Libs h)) (AckPublisher h) a (nats w) = (x, nats w')"
    and bad: "isl x \<Longrightarrow> status_of res = 502 \<and> rdb w' = rdb w"
    and good: "\<not> isl x \<Longrightarrow> status_of res = 200 \<and> (\<exists>t. rdb w' = snd (MarkAcked R t c ?cl ?ev (rdb w)))"
    by (auto simp: assms(1))
  show ?thesis
  proof (cases "isl x")
    case True
    with a bad assms(4) show ?thesis by auto
  next
    case False
    with good obtain t where t: "status_of res = 200" "rdb w' = snd (MarkAcked R t c ?cl ?ev (rdb w))" by blast
    from MarkAcked_up [OF assms(2)] obtain r' where m: "MarkAcked R t c ?cl ?ev (rdb w) = (Inr True, r')"
      and u: "\<forall>c'. up c' (rdb w) \<longrightarrow> up c' r'" by blast
    have "phase_of ks r' ?cl ?ev = Acked" using MarkAcked_effect [OF m] by (auto simp: phase_of_def)
    with a t m u False show ?thesis by auto
  qed
qed

text \<open>The outcome of an admitted request by the phase of the event, on a Redis that answers.\<close>

lemma ack_validated:
  assumes "ack_admitted h c w req" and "RDB h = R" and "up (rq_ctx (ctx_req c)) (rdb w)"
    and "V1AckEvent h c w = (res, w')" and "ph = phase_of ks (rdb w) (req_ClientID req) (req_EventID req)"
  shows "\<exists>w1. ks (rdb w1) = ks (rdb w) \<and> nats w1 = nats w \<and> (\<forall>c'. up c' (rdb w) \<longrightarrow> up c' (rdb w1))
    \<and> (if ph = Delivered then ack_publish h (rq_ctx (ctx_req c)) (clock w (reads w)) req w1 = (res, w')
       else status_of res = (if ph = Acked then 409 else 404) \<and> rdb w' = rdb w1 \<and> nats w' = nats w1)"
proof -
  let ?c = "rq_ctx (ctx_req c)" and ?cl = "req_ClientID req" and ?ev = "req_EventID req"
  from Validate_up [OF assms(3)] obtain f a r1 where v: "Validate R ?c ?cl ?ev (rdb w) = (Inr (f, a), r1)"
    and u1: "\<forall>c'. up c' (rdb w) \<longrightarrow> up c' r1" by blast
  from Validate_effect [OF v] assms(5) have fa: "f = (ph \<noteq> Unknown)" "a = (ph = Acked)" "ks r1 = ks (rdb w)" by auto
  show ?thesis
    using assms(1,2,4) v fa u1
    by (intro exI [of _ "(snd (time_now w))\<lparr>rdb := r1\<rparr>"], cases ph)
      (auto simp: V1AckEvent_def ack_admitted_def on_rdb_def time_now_def Let_def)
qed

lemma ack_by_phase:
  assumes "ack_admitted h c w req" and "RDB h = R" and "up (rq_ctx (ctx_req c)) (rdb w)"
    and "V1AckEvent h c w = (res, w')" and "ph = phase_of ks (rdb w) (req_ClientID req) (req_EventID req)"
  shows "(\<forall>c'. up c' (rdb w) \<longrightarrow> up c' (rdb w')) \<and>
    (case ph of
       Acked \<Rightarrow> status_of res = 409 \<and> ks (rdb w') = ks (rdb w) \<and> nats w' = nats w
     | Unknown \<Rightarrow> status_of res = 404 \<and> ks (rdb w') = ks (rdb w) \<and> nats w' = nats w
     | Delivered \<Rightarrow> \<exists>a x. record_for req a
      \<and> Publish (NatsConn h) (lib_marshalAck (Libs h)) (AckPublisher h) a (nats w) = (x, nats w')
      \<and> status_of res = (if isl x then 502 else 200)
      \<and> phase_of ks (rdb w') (req_ClientID req) (req_EventID req) = (if isl x then Delivered else Acked))"
proof -
  from ack_validated [OF assms] obtain w1 where w1: "ks (rdb w1) = ks (rdb w)" "nats w1 = nats w"
    "\<forall>c'. up c' (rdb w) \<longrightarrow> up c' (rdb w1)"
    and run: "if ph = Delivered then ack_publish h (rq_ctx (ctx_req c)) (clock w (reads w)) req w1 = (res, w')
       else status_of res = (if ph = Acked then 409 else 404) \<and> rdb w' = rdb w1 \<and> nats w' = nats w1" by blast
  show ?thesis
  proof (cases "ph = Delivered")
    case True
    from run True have p: "ack_publish h (rq_ctx (ctx_req c)) (clock w (reads w)) req w1 = (res, w')" by simp
    have "up (rq_ctx (ctx_req c)) (rdb w1)" using w1 assms(3) by blast
    moreover have "phase_of ks (rdb w1) (req_ClientID req) (req_EventID req) = Delivered"
      using True assms(5) phase_of_cong [of "rdb w1" "req_ClientID req" "req_EventID req" "rdb w"] w1(1) by simp
    ultimately show ?thesis using ack_publish_up [OF assms(2) _ p] w1 True by fastforce
  next
    case False
    with run w1 show ?thesis by (cases ph) auto
  qed
qed

end

section \<open>Properties\<close>

text \<open>
  C3: While Redis answers (\<open>up\<close>), an acknowledgement that passes the checks of publisher, fields and client (\<open>ack_admitted\<close>) is
  decided by the phase of its event: acknowledged before, it is refused with 409, never delivered, with 404, and in both
  cases nothing is published and no key changes; delivered, the publisher is called once with the request's record and the answer
  is 200 with the event acknowledged, or 502 with the event still open when publishing failed. (On a Redis that fails the
  answer may be 500, and a 200 may leave the event unmarked.)
\<close>

theorem ack_decided_by_phase:
  assumes "redis_laws (RDB h) ks up" and "ack_admitted h c w req" and "up (rq_ctx (ctx_req c)) (rdb w)"
    and "V1AckEvent h c w = (res, w')"
  shows "case phase_of ks (rdb w) (req_ClientID req) (req_EventID req) of
       Acked \<Rightarrow> status_of res = 409 \<and> ks (rdb w') = ks (rdb w) \<and> nats w' = nats w
     | Unknown \<Rightarrow> status_of res = 404 \<and> ks (rdb w') = ks (rdb w) \<and> nats w' = nats w
     | Delivered \<Rightarrow> \<exists>a x. record_for req a
      \<and> Publish (NatsConn h) (lib_marshalAck (Libs h)) (AckPublisher h) a (nats w) = (x, nats w')
      \<and> status_of res = (if isl x then 502 else 200)
      \<and> phase_of ks (rdb w') (req_ClientID req) (req_EventID req) = (if isl x then Delivered else Acked)"
  using redis_laws.ack_by_phase [OF assms(1,2) refl assms(3,4) refl] by blast

text \<open>The body of an acknowledgement of the event \<open>e1\<close> by \<open>u1\<close>, and a Redis that has delivered it.\<close>

definition ack_body :: string where "ack_body = ''e1'' @ sep # ''u1'' @ sep # AckStatusProcessed"

definition mem_delivered :: mem where
  "mem_delivered = \<lparr>entries = [(inFlightKey ''u1'' ''e1'', RStr ''5'', None)], reachable = True\<rparr>"

definition demo_ack :: AckRequest where
  "demo_ack = \<lparr>req_EventID = ''e1'', req_ClientID = ''u1'', req_StreamID = ''s1'', req_AckedAt = 5, req_Status = AckStatusProcessed,
     req_Metadata = Map.empty\<rparr>"

lemma demo_admitted: "ack_admitted demo_handlers (demo_ctx ack_body) (demo_state r) demo_ack"
  by (simp add: ack_admitted_def demo_ack_def ack_body_def demo_handlers_def demo_libs_def demo_state_def mem_nats_def nats1_def nats0_def
      validateAckRequest_None AckStatusProcessed_def zero_time_def split_on_append)

lemma mem_delivered_phase: "phase_of mks mem_delivered ''u1'' ''e1'' = Delivered" "mup ReqCtx mem_delivered"
  by (simp_all add: phase_of_def mem_delivered_def mks_def mup_def key_defs)

lemma demo_publishes:
  "Publish (NatsConn demo_handlers) (lib_marshalAck (Libs demo_handlers)) (AckPublisher demo_handlers) a (nats (demo_state r)) = (x, n)
     \<Longrightarrow> \<not> isl x"
  by (auto simp: demo_handlers_def demo_libs_def demo_state_def nats_Publish_def mem_nats_def nats1_def nats0_def
      eval_nat_numeral subject_matches_def tokens_def)

lemma demo_ack_simps [simp]: "req_ClientID demo_ack = ''u1''" "req_EventID demo_ack = ''e1''"
  by (simp_all add: demo_ack_def)

theorem ack_decided_by_phase_witness:
  "\<exists>res w. V1AckEvent demo_handlers (demo_ctx ack_body) (demo_state mem_delivered) = (res, w)
     \<and> status_of res = 200 \<and> phase_of mks (rdb w) ''u1'' ''e1'' = Acked"
proof -
  obtain res w where r: "V1AckEvent demo_handlers (demo_ctx ack_body) (demo_state mem_delivered) = (res, w)" by force
  from ack_decided_by_phase [OF demo_redis demo_admitted _ r] mem_delivered_phase
  have "status_of res = 200 \<and> phase_of mks (rdb w) ''u1'' ''e1'' = Acked"
    by (auto dest: demo_publishes)
  with r show ?thesis by blast
qed

text \<open>
  Marking as acknowledged on a Redis that may fail, with an effect or without: only the two keys of the event can change.
\<close>

context redis_atomic
begin

lemma Validate_keeps: "ks (snd (Validate R c cl ev r)) = ks r"
  using read_atomic(2) by (auto simp: Validate_def split: prod.splits sum.splits) (metis snd_conv)+

lemma MarkAcked_touches:
  assumes "k \<noteq> ackedKey cl ev" and "k \<noteq> inFlightKey cl ev"
  shows "ks (snd (MarkAcked R t c cl ev r)) k = ks r k"
proof -
  obtain x1 r1 where 1: "rSet R c (ackedKey cl ev) (RFC3339Nano t) ackedTTL r = (x1, r1)" by force
  obtain x2 r2 where 2: "rDel R c (inFlightKey cl ev) r1 = (x2, r2)" by force
  have "ks r1 k = ks r k" "ks r2 k = ks r1 k"
    using write_atomic(1) [of "ackedKey cl ev" "RFC3339Nano t" r c ackedTTL] write_atomic(3) [of "inFlightKey cl ev" r1 c] 1 2 assms
    by (simp_all add: touches_def)
  with 1 2 show ?thesis by (auto simp: MarkAcked_def split: option.splits)
qed

lemma ack_on_failing_redis:
  assumes "ack_admitted h c w req" and "RDB h = R" and "V1AckEvent h c w = (res, w')"
    and "ph = phase_of ks (rdb w) (req_ClientID req) (req_EventID req)"
  shows "if status_of res = 500 then ks (rdb w') = ks (rdb w) \<and> nats w' = nats w
     else case ph of
       Acked \<Rightarrow> status_of res = 409 \<and> ks (rdb w') = ks (rdb w) \<and> nats w' = nats w
     | Unknown \<Rightarrow> status_of res = 404 \<and> ks (rdb w') = ks (rdb w) \<and> nats w' = nats w
     | Delivered \<Rightarrow> \<exists>a x. record_for req a
      \<and> Publish (NatsConn h) (lib_marshalAck (Libs h)) (AckPublisher h) a (nats w) = (x, nats w')
      \<and> status_of res = (if isl x then 502 else 200)
      \<and> (\<forall>k. isl x \<or> k \<notin> {ackedKey (req_ClientID req) (req_EventID req), inFlightKey (req_ClientID req) (req_EventID req)}
            \<longrightarrow> ks (rdb w') k = ks (rdb w) k)"
proof -
  let ?c = "rq_ctx (ctx_req c)" and ?cl = "req_ClientID req" and ?ev = "req_EventID req"
  obtain v r1 where v: "Validate R ?c ?cl ?ev (rdb w) = (v, r1)" by force
  with Validate_keeps [of ?c ?cl ?ev "rdb w"] have k1: "ks r1 = ks (rdb w)" by simp
  show ?thesis
  proof (cases v)
    case (Inl e)
    with assms(1-3) v k1 show ?thesis by (auto simp: V1AckEvent_def ack_admitted_def on_rdb_def time_now_def Let_def)
  next
    case (Inr fa)
    then obtain f a where fa: "v = Inr (f, a)" by (cases fa) simp
    from Validate_effect [OF v [unfolded fa]] assms(4) have ph: "f = (ph \<noteq> Unknown)" "a = (ph = Acked)" by auto
    show ?thesis
    proof (cases "ph = Delivered")
      case False
      with assms(1-3) v fa ph k1 show ?thesis
        by (cases ph) (auto simp: V1AckEvent_def ack_admitted_def on_rdb_def time_now_def Let_def)
    next
      case True
      define w1 where "w1 = (snd (time_now w))\<lparr>rdb := r1\<rparr>"
      have w1: "rdb w1 = r1" "nats w1 = nats w" by (simp_all add: w1_def time_now_def)
      have run: "ack_publish h ?c (clock w (reads w)) req w1 = (res, w')"
        using assms(1-3) v fa ph True by (auto simp: w1_def V1AckEvent_def ack_admitted_def on_rdb_def time_now_def Let_def)
      from ack_publish_result [of req h w1 ?c "clock w (reads w)"] run w1 MarkAcked_touches [of _ ?cl ?ev] k1 assms(2) True
      show ?thesis by fastforce
    qed
  qed
qed

end

text \<open>
  C13: The acknowledgement whatever Redis does, whose commands may fail with or without an effect. A request that passes the checks
  of publisher, fields and client (\<open>ack_admitted\<close>) is either answered 500, with nothing published and no key changed, or its answer is
  the one the event's phase calls for: 409 if acknowledged, 404 if unknown, in both cases without an effect, and otherwise one call
  of the publisher with the request's record, answered 502 if it fails, with no key changed, and 200 if not. So nothing is published for
  an event that is not delivered and open, and nothing but the two keys of this event changes. A 200 does not say that the
  event is marked: a failed mark is only logged.
\<close>

theorem ack_whatever_redis_does:
  assumes "redis_atomic (RDB h) ks up" and "ack_admitted h c w req" and "V1AckEvent h c w = (res, w')"
  shows "if status_of res = 500 then ks (rdb w') = ks (rdb w) \<and> nats w' = nats w
     else case phase_of ks (rdb w) (req_ClientID req) (req_EventID req) of
       Acked \<Rightarrow> status_of res = 409 \<and> ks (rdb w') = ks (rdb w) \<and> nats w' = nats w
     | Unknown \<Rightarrow> status_of res = 404 \<and> ks (rdb w') = ks (rdb w) \<and> nats w' = nats w
     | Delivered \<Rightarrow> \<exists>a x. record_for req a
      \<and> Publish (NatsConn h) (lib_marshalAck (Libs h)) (AckPublisher h) a (nats w) = (x, nats w')
      \<and> status_of res = (if isl x then 502 else 200)
      \<and> (\<forall>k. isl x \<or> k \<notin> {ackedKey (req_ClientID req) (req_EventID req), inFlightKey (req_ClientID req) (req_EventID req)}
            \<longrightarrow> ks (rdb w') k = ks (rdb w) k)"
  by (rule redis_atomic.ack_on_failing_redis [OF assms(1,2) refl assms(3) refl])

theorem ack_whatever_redis_does_witness:
  "\<exists>res w res' w'. V1AckEvent demo_handlers (demo_ctx ack_body) (demo_state (mem_delivered\<lparr>reachable := False\<rparr>)) = (res, w)
     \<and> status_of res = 500 \<and> mks (rdb w) = mks mem_delivered
     \<and> V1AckEvent demo_handlers (demo_ctx ack_body) (demo_state mem0) = (res', w') \<and> status_of res' = 404 \<and> nats w' = nats (demo_state mem0)"
proof -
  have at: "redis_atomic (RDB demo_handlers) mks mup" using ma.redis_atomic_axioms by (simp add: demo_handlers_def)
  let ?down = "mem_delivered\<lparr>reachable := False\<rparr>"
  obtain res w where r: "V1AckEvent demo_handlers (demo_ctx ack_body) (demo_state ?down) = (res, w)" by force
  obtain res' w' where r': "V1AckEvent demo_handlers (demo_ctx ack_body) (demo_state mem0) = (res', w')" by force
  have "status_of res = 500"
    using r demo_admitted [of ?down]
    by (auto simp: V1AckEvent_def ack_admitted_def on_rdb_def time_now_def demo_handlers_def Validate_def mem_ops demo_state_def)
  moreover have "mks ?down = mks mem_delivered" by (simp add: mks_def)
  moreover have "status_of res' \<noteq> 500"
    using r' redis_laws.ack_by_phase [OF demo_redis demo_admitted refl _ r' refl] by (auto simp: phase_of_def mks_def mem0_def mup_def)
  moreover have "phase_of mks mem0 ''u1'' ''e1'' = Unknown" by (simp add: phase_of_def mks_def mem0_def)
  ultimately show ?thesis
    using ack_whatever_redis_does [OF at demo_admitted r] ack_whatever_redis_does [OF at demo_admitted r'] r r' by (auto simp: demo_state_def)
qed

text \<open>
  A request that is malformed, incomplete, of another client than the token's, or that comes while
  the publisher is not connected, is refused with 400, 403 or 503; nothing is published and Redis is untouched.
\<close>

theorem ack_refused_without_effect:
  assumes "\<nexists>req. ack_admitted h c w req" and "V1AckEvent h c w = (res, w')"
  shows "status_of res \<in> {400, 403, 503} \<and> rdb w' = rdb w \<and> nats w' = nats w"
  using ack_not_admitted [OF assms(1)] assms(2) by simp

theorem ack_refused_without_effect_witness:
  "\<exists>res w. V1AckEvent demo_handlers (demo_ctx (''e1'' @ sep # ''u2'' @ sep # AckStatusProcessed)) (demo_state mem_delivered) = (res, w)
     \<and> status_of res \<in> {400, 403, 503}"
proof -
  let ?c = "demo_ctx (''e1'' @ sep # ''u2'' @ sep # AckStatusProcessed)"
  obtain res w where r: "V1AckEvent demo_handlers ?c (demo_state mem_delivered) = (res, w)" by force
  have "\<nexists>req. ack_admitted demo_handlers ?c (demo_state mem_delivered) req"
    by (auto simp: ack_admitted_def demo_handlers_def demo_libs_def AckStatusProcessed_def)
  from ack_refused_without_effect [OF this r] r show ?thesis by blast
qed

text \<open>
  An event is acknowledged once: after a 200 answer on a Redis that answers, the same request again is
  refused with 409 and publishes nothing, whatever happened to the rest of the world in between.
\<close>

theorem acknowledged_once:
  assumes "redis_laws (RDB h) ks up" and "ack_admitted h c w req" and "up (rq_ctx (ctx_req c)) (rdb w)"
    and "V1AckEvent h c w = (res, w1)" and "status_of res = 200"
    and "rdb w2 = rdb w1" and "ack_admitted h c w2 req" and "V1AckEvent h c w2 = (res', w3)"
  shows "status_of res' = 409 \<and> nats w3 = nats w2"
proof -
  note first = redis_laws.ack_by_phase [OF assms(1,2) refl assms(3,4) refl]
  then have "phase_of ks (rdb w2) (req_ClientID req) (req_EventID req) = Acked"
    using assms(5,6) by (cases "phase_of ks (rdb w) (req_ClientID req) (req_EventID req)") (auto split: if_splits)
  moreover have "up (rq_ctx (ctx_req c)) (rdb w2)" using first assms(3,6) by auto
  ultimately show ?thesis
    using redis_laws.ack_by_phase [OF assms(1,7) refl _ assms(8) refl] by simp
qed

theorem acknowledged_once_witness:
  "\<exists>res w1 res' w3. V1AckEvent demo_handlers (demo_ctx ack_body) (demo_state mem_delivered) = (res, w1) \<and> status_of res = 200
     \<and> V1AckEvent demo_handlers (demo_ctx ack_body) (demo_state (rdb w1)) = (res', w3) \<and> status_of res' = 409"
proof -
  obtain res w1 where r: "V1AckEvent demo_handlers (demo_ctx ack_body) (demo_state mem_delivered) = (res, w1)" by force
  obtain res' w3 where r2: "V1AckEvent demo_handlers (demo_ctx ack_body) (demo_state (rdb w1)) = (res', w3)" by force
  have "status_of res = 200"
    using redis_laws.ack_by_phase [OF demo_redis demo_admitted refl _ r refl] mem_delivered_phase by (auto dest: demo_publishes)
  with acknowledged_once [OF demo_redis demo_admitted _ r this _ demo_admitted r2] r r2 mem_delivered_phase show ?thesis by simp
qed

end
