(* ===== verification/Ack_Race.thy ===== *)
theory Ack_Race
  imports Ack_Handler
begin

text \<open>
  Concurrent acknowledgements. \<open>V1AckEvent\<close> sends its Redis commands and its publish one by one, so requests
  of one client, on one instance or several, interleave between them. This theory takes the steps 6 to 9 of the handler
  (\<open>handlers/ack.go\<close>, with \<open>Validate\<close> and \<open>MarkAcked\<close> of \<open>repository/inflight.go\<close>) apart into single
  commands, shows that a request that runs alone is the handler, and studies every interleaving of any
  number of requests with redeliveries of events as a step relation.
\<close>

section \<open>The commands of a request\<close>

text \<open>Where a request stands: its next command, or the status it was answered with.\<close>

datatype ack_pc = CheckAcked | CheckInFlight | PublishAck | SetAcked | DelInFlight | Answered int

fun ack_cmd ::
  "('r, 'n) HTTPHandlers \<Rightarrow> go_context \<Rightarrow> AckRequest \<Rightarrow> ack_pc \<Rightarrow> ('r, 'n) world \<Rightarrow> ack_pc \<times> ('r, 'n) world" where
  "ack_cmd h c req CheckAcked w =
     (case on_rdb (rExists (RDB h) c (ackedKey (req_ClientID req) (req_EventID req))) w of
        (Inl _, w1) \<Rightarrow> (Answered StatusInternalServerError, w1)
      | (Inr n, w1) \<Rightarrow> (if 0 < n then Answered StatusConflict else CheckInFlight, w1))"
| "ack_cmd h c req CheckInFlight w =
     (case on_rdb (rExists (RDB h) c (inFlightKey (req_ClientID req) (req_EventID req))) w of
        (Inl _, w1) \<Rightarrow> (Answered StatusInternalServerError, w1)
      | (Inr n, w1) \<Rightarrow> (if 0 < n then PublishAck else Answered StatusNotFound, w1))"
| "ack_cmd h c req PublishAck w =
     (let (serverNow, w1) = time_now w;
          (ackID, w2) = NewString w1;
          record = \<lparr>rec_AckID = ackID, rec_EventID = req_EventID req, rec_ClientID = req_ClientID req,
                    rec_StreamID = req_StreamID req, rec_AckedAt = req_AckedAt req, rec_Status = req_Status req,
                    rec_Metadata = req_Metadata req, rec_ServerReceivedAt = serverNow\<rparr>;
          (publishStart, w3) = time_now w2;
          (result, w4) = on_nats (Publish (NatsConn h) (lib_marshalAck (Libs h)) (AckPublisher h) record) w3;
          (publishEnd, w5) = time_now w4
      in (case result of Inl _ \<Rightarrow> Answered StatusBadGateway | Inr _ \<Rightarrow> SetAcked, w5))"
| "ack_cmd h c req SetAcked w =
     (let (ackedAt, w1) = time_now w;
          (_, w2) = on_rdb (rSet (RDB h) c (ackedKey (req_ClientID req) (req_EventID req)) (RFC3339Nano ackedAt) ackedTTL) w1
      in (DelInFlight, w2))"
| "ack_cmd h c req DelInFlight w =
     (let (_, w1) = on_rdb (rDel (RDB h) c (inFlightKey (req_ClientID req) (req_EventID req))) w in (Answered StatusOK, w1))"
| "ack_cmd h c req (Answered n) w = (Answered n, w)"

text \<open>A request that runs alone: five commands at most.\<close>

fun ack_alone ::
  "nat \<Rightarrow> ('r, 'n) HTTPHandlers \<Rightarrow> go_context \<Rightarrow> AckRequest \<Rightarrow> ack_pc \<Rightarrow> ('r, 'n) world \<Rightarrow> ack_pc \<times> ('r, 'n) world" where
  "ack_alone 0 h c req pc w = (pc, w)"
| "ack_alone (Suc k) h c req pc w = (let (pc', w') = ack_cmd h c req pc w in ack_alone k h c req pc' w')"

text \<open>
  Commands of requests, and redeliveries by streams, in any order. The steps take no time: the two keys of an event live 72
  hours, far longer than a request, and what follows speaks of runs within that time.
\<close>

inductive acks_step ::
  "('r, 'n) HTTPHandlers \<Rightarrow> go_context \<Rightarrow> AckRequest list \<Rightarrow> ('r, 'n) world \<times> ack_pc list \<Rightarrow> ('r, 'n) world \<times> ack_pc list \<Rightarrow> bool"
  for h c reqs where
  command: "i < length reqs \<Longrightarrow> i < length pcs \<Longrightarrow> ack_cmd h c (reqs ! i) (pcs ! i) w = (pc', w') \<Longrightarrow>
    acks_step h c reqs (w, pcs) (w', pcs[i := pc'])"
| redelivery: "on_rdb (InFlight_Register (RDB h) c cl ev t) w = (x, w') \<Longrightarrow>
    acks_step h c reqs (w, pcs) (w', pcs)"

section \<open>A request that runs alone\<close>

lemma MarkAcked_commands:
  "snd (MarkAcked R t c cl ev r) = snd (rDel R c (inFlightKey cl ev) (snd (rSet R c (ackedKey cl ev) (RFC3339Nano t) ackedTTL r)))"
  by (simp add: MarkAcked_def split_beta Let_def split: option.split)

lemma ack_publish_commands:
  assumes "ack_publish h c start req w = (res, w')"
  shows "\<exists>w1. ack_alone 3 h c req PublishAck w = (Answered (status_of res), w1) \<and> rdb w1 = rdb w' \<and> nats w1 = nats w'"
proof -
  let ?a = "\<lparr>rec_AckID = uuids w (drawn w), rec_EventID = req_EventID req, rec_ClientID = req_ClientID req,
    rec_StreamID = req_StreamID req, rec_AckedAt = req_AckedAt req, rec_Status = req_Status req,
    rec_Metadata = req_Metadata req, rec_ServerReceivedAt = clock w (reads w)\<rparr>"
  obtain x n where p: "Publish (NatsConn h) (lib_marshalAck (Libs h)) (AckPublisher h) ?a (nats w) = (x, n)" by force
  show ?thesis
  proof (cases x)
    case (Inl e)
    with p assms show ?thesis
      by (auto simp: ack_publish_def eval_nat_numeral time_now_def NewString_def on_nats_def Let_def)
  next
    case (Inr seq)
    with p assms show ?thesis
      by (simp add: ack_publish_def eval_nat_numeral time_now_def NewString_def on_nats_def on_rdb_def Let_def split_beta)
        (auto simp: MarkAcked_commands)
  qed
qed

text \<open>The five commands, run without interruption, are what the handler does with an admitted request.\<close>

lemma ack_alone_is_handler:
  assumes "ack_admitted h c w req" and "V1AckEvent h c w = (res, w')"
  shows "\<exists>w1. ack_alone 5 h (rq_ctx (ctx_req c)) req CheckAcked (snd (time_now w)) = (Answered (status_of res), w1)
    \<and> rdb w1 = rdb w' \<and> nats w1 = nats w'"
proof -
  let ?c = "rq_ctx (ctx_req c)" and ?cl = "req_ClientID req" and ?ev = "req_EventID req" and ?w0 = "snd (time_now w)"
  obtain x1 r1 where 1: "rExists (RDB h) ?c (ackedKey ?cl ?ev) (rdb w) = (x1, r1)" by force
  obtain x2 r2 where 2: "rExists (RDB h) ?c (inFlightKey ?cl ?ev) r1 = (x2, r2)" by force
  have five: "ack_alone 5 h ?c req pc u = (case ack_cmd h ?c req pc u of (pc1, u1) \<Rightarrow>
      case ack_cmd h ?c req pc1 u1 of (pc2, u2) \<Rightarrow> ack_alone 3 h ?c req pc2 u2)" for pc u
    by (simp add: eval_nat_numeral split_beta)
  have fin: "ack_alone k h ?c req (Answered s) u = (Answered s, u)" for k s u by (induction k) simp_all
  show ?thesis
  proof (cases "isl x1 \<or> 0 < projr x1 \<or> isl x2 \<or> projr x2 \<le> 0")
    case True
    with assms 1 2 show ?thesis
      by (cases x1; cases x2)
        (auto simp: V1AckEvent_def ack_admitted_def Validate_def on_rdb_def five fin Let_def time_now_def)
  next
    case False
    then obtain n1 n2 where x: "x1 = Inr n1" "\<not> 0 < n1" "x2 = Inr n2" "0 < n2" by (cases x1; cases x2) auto
    then have "ack_publish h ?c (clock w (reads w)) req (?w0\<lparr>rdb := r2\<rparr>) = (res, w')"
      using assms 1 2 by (simp add: V1AckEvent_def ack_admitted_def Validate_def on_rdb_def Let_def time_now_def)
    from ack_publish_commands [OF this] 1 2 x show ?thesis
      by (simp add: five on_rdb_def time_now_def)
  qed
qed

section \<open>What each command does on a Redis that answers\<close>

text \<open>The next command and the key space, for a request about the event \<open>ev\<close> of the client \<open>cl\<close>.\<close>

fun ack_effect :: "string \<Rightarrow> string \<Rightarrow> ack_pc \<Rightarrow> keyspace \<Rightarrow> ack_pc \<Rightarrow> keyspace \<Rightarrow> bool" where
  "ack_effect cl ev CheckAcked m pc' m' \<longleftrightarrow> pc' = (if m (ackedKey cl ev) = None then CheckInFlight else Answered 409) \<and> m' = m"
| "ack_effect cl ev CheckInFlight m pc' m' \<longleftrightarrow> pc' = (if m (inFlightKey cl ev) = None then Answered 404 else PublishAck) \<and> m' = m"
| "ack_effect cl ev PublishAck m pc' m' \<longleftrightarrow> pc' \<in> {SetAcked, Answered 502} \<and> m' = m"
| "ack_effect cl ev SetAcked m pc' m' \<longleftrightarrow> pc' = DelInFlight \<and> (\<exists>v. m' = m(ackedKey cl ev \<mapsto> v))"
| "ack_effect cl ev DelInFlight m pc' m' \<longleftrightarrow> pc' = Answered 200 \<and> m' = m(inFlightKey cl ev := None)"
| "ack_effect cl ev (Answered n) m pc' m' \<longleftrightarrow> pc' = Answered n \<and> m' = m"

lemma publish_cmd:
  assumes "ack_cmd h c req PublishAck w = (pc', w')"
  shows "\<exists>a x. record_for req a \<and> Publish (NatsConn h) (lib_marshalAck (Libs h)) (AckPublisher h) a (nats w) = (x, nats w')
    \<and> pc' = (if isl x then Answered 502 else SetAcked) \<and> rdb w' = rdb w"
proof -
  let ?a = "\<lparr>rec_AckID = uuids w (drawn w), rec_EventID = req_EventID req, rec_ClientID = req_ClientID req,
    rec_StreamID = req_StreamID req, rec_AckedAt = req_AckedAt req, rec_Status = req_Status req,
    rec_Metadata = req_Metadata req, rec_ServerReceivedAt = clock w (reads w)\<rparr>"
  obtain x n where "Publish (NatsConn h) (lib_marshalAck (Libs h)) (AckPublisher h) ?a (nats w) = (x, n)" by force
  with assms show ?thesis
    by (intro exI [of _ ?a] exI [of _ x])
      (cases x; auto simp: record_for_def time_now_def NewString_def on_nats_def Let_def)
qed

context redis_laws
begin

lemma ackedTTL_pos: "0 \<le> ackedTTL"
  by (simp add: ackedTTL_def hour_def second_def)

lemma ack_cmd_up:
  assumes "RDB h = R" and "up c (rdb w)" and "ack_cmd h c req pc w = (pc', w')"
  shows "ack_effect (req_ClientID req) (req_EventID req) pc (ks (rdb w)) pc' (ks (rdb w')) \<and> up c (rdb w')"
proof (cases pc)
  case CheckAcked
  obtain x r' where "rExists R c (ackedKey (req_ClientID req) (req_EventID req)) (rdb w) = (x, r')" by force
  with CheckAcked assms exists_cmd [OF assms(2) this] show ?thesis by (auto simp: on_rdb_def)
next
  case CheckInFlight
  obtain x r' where "rExists R c (inFlightKey (req_ClientID req) (req_EventID req)) (rdb w) = (x, r')" by force
  with CheckInFlight assms exists_cmd [OF assms(2) this] show ?thesis by (auto simp: on_rdb_def)
next
  case PublishAck
  with publish_cmd [of h c req w pc' w'] assms show ?thesis by auto
next
  case SetAcked
  let ?t = "RFC3339Nano (clock w (reads w))"
  obtain x r' where "rSet R c (ackedKey (req_ClientID req) (req_EventID req)) ?t ackedTTL (rdb w) = (x, r')" by force
  with SetAcked assms set_cmd [OF assms(2) ackedTTL_pos this] show ?thesis
    by (auto simp: on_rdb_def time_now_def Let_def simp del: split_paired_Ex)
next
  case DelInFlight
  obtain x r' where "rDel R c (inFlightKey (req_ClientID req) (req_EventID req)) (rdb w) = (x, r')" by force
  with DelInFlight assms del_cmd [OF assms(2) this] show ?thesis by (auto simp: on_rdb_def Let_def)
next
  case (Answered n)
  with assms show ?thesis by auto
qed

text \<open>A step of the system, seen from the key space: one request moves, or an event is delivered again.\<close>

lemma acks_step_up:
  assumes "acks_step h c reqs (w, pcs) (w', pcs')" and "RDB h = R" and "up c (rdb w)"
  obtains (command) i pc' where "up c (rdb w')" "i < length reqs" "i < length pcs" "pcs' = pcs[i := pc']"
      "ack_effect (req_ClientID (reqs ! i)) (req_EventID (reqs ! i)) (pcs ! i) (ks (rdb w)) pc' (ks (rdb w'))"
  | (redelivery) cl ev v where "up c (rdb w')" "pcs' = pcs" "ks (rdb w') = (ks (rdb w))(inFlightKey cl ev \<mapsto> v)"
  using assms(1)
proof (cases rule: acks_step.cases)
  case (command i pc')
  with ack_cmd_up [OF assms(2,3)] that(1) show ?thesis by blast
next
  case (redelivery cl ev t x)
  obtain y r' where s: "rSet R c (inFlightKey cl ev) (RFC3339Nano t) inFlightTTL (rdb w) = (y, r')" by force
  have "0 \<le> inFlightTTL" by (simp add: inFlightTTL_def hour_def second_def)
  with set_cmd [OF assms(3) _ s] obtain v where "ks r' = (ks (rdb w))(inFlightKey cl ev \<mapsto> v)" "up c r'" by blast
  with s redelivery assms(2) that(2) [of cl ev v] show ?thesis by (auto simp: on_rdb_def InFlight_Register_def)
qed

text \<open>Induction over the runs of the system on a Redis that answers, with an invariant of its own.\<close>

lemma acks_invariant:
  assumes "(acks_step h c reqs)\<^sup>*\<^sup>* (w, pcs) (w', pcs')" and "RDB h = R" and "up c (rdb w)" and "P (ks (rdb w)) pcs"
    and command: "\<And>m m' pcs i pc'. P m pcs \<Longrightarrow> i < length reqs \<Longrightarrow> i < length pcs
      \<Longrightarrow> ack_effect (req_ClientID (reqs ! i)) (req_EventID (reqs ! i)) (pcs ! i) m pc' m' \<Longrightarrow> P m' (pcs[i := pc'])"
    and redelivery: "\<And>m pcs cl ev v. P m pcs \<Longrightarrow> P (m(inFlightKey cl ev \<mapsto> v)) pcs"
  shows "P (ks (rdb w')) pcs' \<and> up c (rdb w')"
  using assms(1)
proof (induction "(w', pcs')" arbitrary: w' pcs' rule: rtranclp_induct)
  case base
  with assms(3,4) show ?case by simp
next
  case (step y)
  obtain w1 pcs1 where y: "y = (w1, pcs1)" by force
  with step have "acks_step h c reqs (w1, pcs1) (w', pcs')" and "P (ks (rdb w1)) pcs1" "up c (rdb w1)" by auto
  then show ?case
    by (cases rule: acks_step_up [OF _ assms(2), consumes 1]) (auto intro: command redelivery)
qed

end

section \<open>Invariants\<close>

lemma acked_not_inflight [simp]: "ackedKey cl ev \<noteq> inFlightKey cl' ev'" "inFlightKey cl' ev' \<noteq> ackedKey cl ev"
  by (simp_all add: key_defs)

definition acked_key :: "AckRequest \<Rightarrow> string" where
  "acked_key req = ackedKey (req_ClientID req) (req_EventID req)"

text \<open>The acked key of an event stays, and a request that starts after it was set stops at its first command.\<close>

definition late_inv :: "AckRequest list \<Rightarrow> nat \<Rightarrow> keyspace \<Rightarrow> ack_pc list \<Rightarrow> bool" where
  "late_inv reqs i m pcs \<longleftrightarrow> m (acked_key (reqs ! i)) \<noteq> None \<and> i < length pcs \<and> pcs ! i \<in> {CheckAcked, Answered 409}"

text \<open>A request that has set the acked key, or has seen it, is right about it.\<close>

definition acked_inv :: "AckRequest list \<Rightarrow> keyspace \<Rightarrow> ack_pc list \<Rightarrow> bool" where
  "acked_inv reqs m pcs \<longleftrightarrow> length pcs = length reqs \<and>
     (\<forall>i < length reqs. pcs ! i \<in> {DelInFlight, Answered 200, Answered 409} \<longrightarrow> m (acked_key (reqs ! i)) \<noteq> None)"

lemma effect_keeps_acked:
  "ack_effect cl ev pc m pc' m' \<Longrightarrow> m (acked_key req) \<noteq> None \<Longrightarrow> m' (acked_key req) \<noteq> None"
  by (cases pc) (auto simp: acked_key_def)

lemma late_inv_step:
  assumes "late_inv reqs i m pcs" and "j < length pcs"
    and "ack_effect (req_ClientID (reqs ! j)) (req_EventID (reqs ! j)) (pcs ! j) m pc' m'"
  shows "late_inv reqs i m' (pcs[j := pc'])"
proof -
  have "m' (acked_key (reqs ! i)) \<noteq> None" using effect_keeps_acked [OF assms(3)] assms(1) by (simp add: late_inv_def)
  moreover have "pc' = Answered 409" if "j = i"
    using that assms by (auto simp: late_inv_def acked_key_def)
  ultimately show ?thesis using assms(1) by (cases "i = j") (auto simp: late_inv_def)
qed

lemma acked_inv_step:
  assumes "acked_inv reqs m pcs" and "j < length reqs"
    and "ack_effect (req_ClientID (reqs ! j)) (req_EventID (reqs ! j)) (pcs ! j) m pc' m'"
  shows "acked_inv reqs m' (pcs[j := pc'])"
proof -
  have "m' (acked_key (reqs ! j)) \<noteq> None" if "pc' \<in> {DelInFlight, Answered 200, Answered 409}"
    using that assms by (cases "pcs ! j") (auto simp: acked_inv_def acked_key_def split: if_splits)
  then have "m' (acked_key (reqs ! i)) \<noteq> None" if "i < length reqs" "pcs[j := pc'] ! i \<in> {DelInFlight, Answered 200, Answered 409}" for i
    using that assms(1,2) effect_keeps_acked [OF assms(3), of "reqs ! i"] by (cases "i = j") (auto simp: acked_inv_def)
  with assms(1) show ?thesis by (simp add: acked_inv_def)
qed

lemma redelivery_keeps:
  "late_inv reqs i m pcs \<Longrightarrow> late_inv reqs i (m(inFlightKey cl ev \<mapsto> v)) pcs"
  "acked_inv reqs m pcs \<Longrightarrow> acked_inv reqs (m(inFlightKey cl ev \<mapsto> v)) pcs"
  by (simp_all add: late_inv_def acked_inv_def acked_key_def)

lemma phase_acked: "phase_of ks r (req_ClientID req) (req_EventID req) = Acked \<longleftrightarrow> ks r (acked_key req) \<noteq> None"
  by (simp add: phase_of_def acked_key_def)

text \<open>With that, no event falls back: the in-flight key is deleted only after the acked key was set.\<close>

lemma phase_of_id: "phase_of id (ks r) = phase_of ks r"
  by (simp add: phase_of_def fun_eq_iff)

definition advance_inv :: "AckRequest list \<Rightarrow> phase \<Rightarrow> string \<Rightarrow> string \<Rightarrow> keyspace \<Rightarrow> ack_pc list \<Rightarrow> bool" where
  "advance_inv reqs p cl ev m pcs \<longleftrightarrow> acked_inv reqs m pcs \<and> p \<le> phase_of id m cl ev"

lemma effect_advances:
  assumes "ack_effect cl' ev' pc m pc' m'" and "pc = DelInFlight \<Longrightarrow> m (ackedKey cl' ev') \<noteq> None"
  shows "phase_of id m cl ev \<le> phase_of id m' cl ev"
proof (cases pc)
  case DelInFlight
  have "inFlightKey cl' ev' = inFlightKey cl ev \<Longrightarrow> ackedKey cl' ev' = ackedKey cl ev" by (simp add: key_defs)
  with DelInFlight assms show ?thesis by (cases "m (ackedKey cl ev) = None") (auto simp: phase_of_def)
qed (use assms in \<open>auto simp: phase_of_def\<close>)

lemma advance_inv_step:
  assumes "advance_inv reqs p cl ev m pcs" and "j < length reqs"
    and "ack_effect (req_ClientID (reqs ! j)) (req_EventID (reqs ! j)) (pcs ! j) m pc' m'"
  shows "advance_inv reqs p cl ev m' (pcs[j := pc'])"
proof -
  have a: "acked_inv reqs m pcs" "p \<le> phase_of id m cl ev" using assms(1) by (simp_all add: advance_inv_def)
  have "phase_of id m cl ev \<le> phase_of id m' cl ev"
    by (rule effect_advances [OF assms(3)]) (use a assms(2) in \<open>auto simp: acked_inv_def acked_key_def\<close>)
  with a acked_inv_step [OF a(1) assms(2,3)] show ?thesis by (simp add: advance_inv_def)
qed

lemma redelivery_advances:
  assumes "advance_inv reqs p cl ev m pcs"
  shows "advance_inv reqs p cl ev (m(inFlightKey cl' ev' \<mapsto> v)) pcs"
proof -
  have "phase_of id m cl ev \<le> phase_of id (m(inFlightKey cl' ev' \<mapsto> v)) cl ev" by (cases v) (auto simp: phase_of_def)
  with assms show ?thesis by (auto simp: advance_inv_def redelivery_keeps(2))
qed

section \<open>Schedules\<close>

text \<open>The commands in the order of a schedule, which names the request that moves next.\<close>

fun acks_run :: "('r, 'n) HTTPHandlers \<Rightarrow> go_context \<Rightarrow> AckRequest list \<Rightarrow> nat list \<Rightarrow> ('r, 'n) world \<times> ack_pc list \<Rightarrow> ('r, 'n) world \<times> ack_pc list" where
  "acks_run h c reqs [] s = s"
| "acks_run h c reqs (i # is) (w, pcs) =
     (case ack_cmd h c (reqs ! i) (pcs ! i) w of (pc', w') \<Rightarrow> acks_run h c reqs is (w', pcs[i := pc']))"

lemma acks_run_steps:
  "\<forall>i \<in> set is. i < length reqs \<and> i < length (snd s) \<Longrightarrow> (acks_step h c reqs)\<^sup>*\<^sup>* s (acks_run h c reqs is s)"
proof (induction "is" arbitrary: s)
  case (Cons i "is")
  obtain w pcs pc' w' where s: "s = (w, pcs)" "ack_cmd h c (reqs ! i) (pcs ! i) w = (pc', w')" by (metis prod.collapse)
  with Cons.prems have "acks_step h c reqs s (w', pcs[i := pc'])" by (auto intro: acks_step.command)
  moreover have "(acks_step h c reqs)\<^sup>*\<^sup>* (w', pcs[i := pc']) (acks_run h c reqs is (w', pcs[i := pc']))"
    using Cons s by simp
  ultimately show ?case using s by simp
qed simp

text \<open>Two requests that both look before either marks.\<close>

lemma race:
  fixes w :: "('r, 'n) world"
  assumes "redis_laws (RDB h) ks up" and "up c (rdb w)"
    and "req_ClientID q1 = cl" "req_EventID q1 = ev" "req_ClientID q2 = cl" "req_EventID q2 = ev"
    and "phase_of ks (rdb w) cl ev = Delivered"
    and pub: "\<forall>a n. \<not> isl (fst (Publish (NatsConn h) (lib_marshalAck (Libs h)) (AckPublisher h) a n))"
  shows "\<exists>w' a1 a2. (acks_step h c [q1, q2])\<^sup>*\<^sup>* (w, [CheckAcked, CheckAcked]) (w', [Answered 200, Answered 200])
    \<and> record_for q1 a1 \<and> record_for q2 a2
    \<and> nats w' = snd (Publish (NatsConn h) (lib_marshalAck (Libs h)) (AckPublisher h) a2
        (snd (Publish (NatsConn h) (lib_marshalAck (Libs h)) (AckPublisher h) a1 (nats w))))"
proof -
  let ?cmd = "ack_cmd h c"
  let ?pub = "Publish (NatsConn h) (lib_marshalAck (Libs h)) (AckPublisher h)"
  note up = redis_laws.ack_cmd_up [OF assms(1) refl]
  have k: "ks (rdb w) (ackedKey cl ev) = None" "ks (rdb w) (inFlightKey cl ev) \<noteq> None"
    using assms(7) by (cases "ks (rdb w) (ackedKey cl ev)"; auto simp: phase_of_def split: if_splits)+
  obtain p1 w1 where c1: "?cmd q1 CheckAcked w = (p1, w1)" by force
  obtain p2 w2 where c2: "?cmd q1 CheckInFlight w1 = (p2, w2)" by force
  obtain p3 w3 where c3: "?cmd q2 CheckAcked w2 = (p3, w3)" by force
  obtain p4 w4 where c4: "?cmd q2 CheckInFlight w3 = (p4, w4)" by force
  obtain p5 w5 where c5: "?cmd q1 PublishAck w4 = (p5, w5)" by force
  obtain p6 w6 where c6: "?cmd q2 PublishAck w5 = (p6, w6)" by force
  obtain p7 w7 where c7: "?cmd q1 SetAcked w6 = (p7, w7)" by force
  obtain p8 w8 where c8: "?cmd q1 DelInFlight w7 = (p8, w8)" by force
  obtain p9 w9 where c9: "?cmd q2 SetAcked w8 = (p9, w9)" by force
  obtain p10 w10 where c10: "?cmd q2 DelInFlight w9 = (p10, w10)" by force
  note u1 = up [OF assms(2) c1]
  note u2 = up [OF conjunct2 [OF u1] c2]
  note u3 = up [OF conjunct2 [OF u2] c3]
  note u4 = up [OF conjunct2 [OF u3] c4]
  from publish_cmd [OF c5] obtain a1 x1 where a1: "record_for q1 a1" "?pub a1 (nats w4) = (x1, nats w5)" "p5 = (if isl x1 then Answered 502 else SetAcked)" by blast
  from publish_cmd [OF c6] obtain a2 x2 where a2: "record_for q2 a2" "?pub a2 (nats w5) = (x2, nats w6)" "p6 = (if isl x2 then Answered 502 else SetAcked)" by blast
  have p: "p1 = CheckInFlight" "p2 = PublishAck" "p3 = CheckInFlight" "p4 = PublishAck" "p5 = SetAcked" "p6 = SetAcked"
    "p7 = DelInFlight" "p8 = Answered 200" "p9 = DelInFlight" "p10 = Answered 200"
    using u1 u2 u3 u4 k assms(3-6) a1 a2 pub c7 c8 c9 c10 by (auto simp: Let_def split_beta) (metis fst_conv)+
  have n: "nats w4 = nats w" "nats w10 = nats w6"
    using c1 c2 c3 c4 c7 c8 c9 c10 by (auto simp: Let_def on_rdb_def time_now_def split: prod.splits sum.splits)
  have "acks_run h c [q1, q2] [0, 0, 1, 1, 0, 1, 0, 0, 1, 1] (w, [CheckAcked, CheckAcked]) = (w10, [Answered 200, Answered 200])"
    using c1 c2 c3 c4 c5 c6 c7 c8 c9 c10 p by (simp del: ack_cmd.simps)
  with acks_run_steps [of "[0, 0, 1, 1, 0, 1, 0, 0, 1, 1]" "[q1, q2]" "(w, [CheckAcked, CheckAcked])" h c] a1 a2 n show ?thesis
    by (intro exI [of _ w10] exI [of _ a1] exI [of _ a2]) (simp del: ack_cmd.simps)
qed

section \<open>Properties\<close>

text \<open>
  Adequacy of the commands, which the steps below interleave: an acknowledgement that has passed the checks of publisher, fields and client is five
  of them. Run without interruption they answer with the handler's status and leave Redis and NATS as the handler does, on every
  branch, errors included.
\<close>

theorem ack_commands_are_handler:
  assumes "ack_admitted h c w req" and "V1AckEvent h c w = (res, w')"
  shows "\<exists>w1. ack_alone 5 h (rq_ctx (ctx_req c)) req CheckAcked (snd (time_now w)) = (Answered (status_of res), w1)
    \<and> rdb w1 = rdb w' \<and> nats w1 = nats w'"
  by (rule ack_alone_is_handler [OF assms])

theorem ack_commands_are_handler_witness:
  "\<exists>res w1. fst (V1AckEvent demo_handlers (demo_ctx ack_body) (demo_state mem_delivered)) = res
     \<and> ack_alone 5 demo_handlers ReqCtx demo_ack CheckAcked (snd (time_now (demo_state mem_delivered))) = (Answered (status_of res), w1)"
proof -
  obtain res w' where r: "V1AckEvent demo_handlers (demo_ctx ack_body) (demo_state mem_delivered) = (res, w')" by force
  from ack_commands_are_handler [OF demo_admitted r] r show ?thesis by auto
qed

text \<open>
  C11: A late duplicate is refused. However the commands of any number of requests and redeliveries interleave on a Redis that answers,
  a request that has not yet sent its first command when its event is acknowledged can only end with 409, as long as the key
  of the acknowledgement has not expired, 72 hours after it was set.
\<close>

theorem late_ack_refused:
  assumes "redis_laws (RDB h) ks up" and "(acks_step h c reqs)\<^sup>*\<^sup>* (w, pcs) (w', pcs')" and "up c (rdb w)"
    and "i < length pcs" and "pcs ! i = CheckAcked"
    and "phase_of ks (rdb w) (req_ClientID (reqs ! i)) (req_EventID (reqs ! i)) = Acked"
  shows "pcs' ! i \<in> {CheckAcked, Answered 409}"
proof -
  have "late_inv reqs i (ks (rdb w)) pcs" using assms(4-6) by (simp add: late_inv_def phase_acked)
  then have "late_inv reqs i (ks (rdb w')) pcs' \<and> up c (rdb w')"
    by (rule redis_laws.acks_invariant [OF assms(1,2) refl assms(3)]) (blast intro: late_inv_step redelivery_keeps(1))+
  then show ?thesis by (simp add: late_inv_def)
qed

text \<open>A Redis in which \<open>u1\<close> has acknowledged \<open>e1\<close>, and handlers that publish to the log.\<close>

definition mem_acked :: mem where
  "mem_acked = \<lparr>entries = [(ackedKey ''u1'' ''e1'', RStr ''5'', None)], reachable = True\<rparr>"

definition log_handlers :: "(mem, memnats) HTTPHandlers" where
  "log_handlers = demo_handlers\<lparr>AckPublisher := LogPublisher\<rparr>"

lemma log_redis: "redis_laws (RDB log_handlers) mks mup"
  using demo_redis by (simp add: log_handlers_def)

lemma log_race:
  "\<exists>w'. (acks_step log_handlers ReqCtx [demo_ack, demo_ack])\<^sup>*\<^sup>* (demo_state mem_delivered, [CheckAcked, CheckAcked])
     (w', [Answered 200, Answered 200])"
  using race [OF log_redis, of ReqCtx "demo_state mem_delivered" demo_ack "''u1''" "''e1''" demo_ack]
  by (auto simp: mem_delivered_phase log_handlers_def)

theorem late_ack_refused_witness:
  "\<exists>w'. (acks_step log_handlers ReqCtx [demo_ack])\<^sup>*\<^sup>* (demo_state mem_acked, [CheckAcked]) (w', [Answered 409])"
proof -
  obtain pc w' where r: "ack_cmd log_handlers ReqCtx demo_ack CheckAcked (demo_state mem_acked) = (pc, w')" by force
  then have s: "(acks_step log_handlers ReqCtx [demo_ack])\<^sup>*\<^sup>* (demo_state mem_acked, [CheckAcked]) (w', [pc])"
    using acks_run_steps [of "[0]" "[demo_ack]" "(demo_state mem_acked, [CheckAcked])" log_handlers ReqCtx] by (simp del: ack_cmd.simps)
  have m: "mup ReqCtx mem_acked" "phase_of mks mem_acked ''u1'' ''e1'' = Acked"
    by (simp_all add: mup_def phase_of_def mem_acked_def mks_def)
  from late_ack_refused [OF log_redis s, of 0] m have "pc = CheckAcked \<or> pc = Answered 409" by simp
  moreover have "pc \<noteq> CheckAcked" using r by (auto split: prod.splits sum.splits if_splits)
  ultimately show ?thesis using s by auto
qed

text \<open>
  C12: The phase of an event only advances, from unknown over delivered to acknowledged: between any two moments of any
  interleaving of acknowledgements and redeliveries on a Redis that answers, no event falls back, and an event
  whose request was answered with 200 or 409 is acknowledged; all this before the keys of the event expire, after 72 hours.
\<close>

theorem phases_only_advance:
  assumes "redis_laws (RDB h) ks up" and "(acks_step h c reqs)\<^sup>*\<^sup>* (w, replicate (length reqs) CheckAcked) (w1, pcs1)" and "up c (rdb w)"
    and "(acks_step h c reqs)\<^sup>*\<^sup>* (w1, pcs1) (w2, pcs2)"
  shows "phase_of ks (rdb w1) cl ev \<le> phase_of ks (rdb w2) cl ev
    \<and> (\<forall>i < length reqs. pcs2 ! i \<in> {Answered 200, Answered 409} \<longrightarrow>
         phase_of ks (rdb w2) (req_ClientID (reqs ! i)) (req_EventID (reqs ! i)) = Acked)"
proof -
  have "acked_inv reqs (ks (rdb w)) (replicate (length reqs) CheckAcked)" by (simp add: acked_inv_def)
  then have 1: "acked_inv reqs (ks (rdb w1)) pcs1 \<and> up c (rdb w1)"
    by (rule redis_laws.acks_invariant [OF assms(1,2) refl assms(3)]) (blast intro: acked_inv_step redelivery_keeps(2))+
  then have "advance_inv reqs (phase_of id (ks (rdb w1)) cl ev) cl ev (ks (rdb w1)) pcs1" by (simp add: advance_inv_def)
  then have 2: "advance_inv reqs (phase_of id (ks (rdb w1)) cl ev) cl ev (ks (rdb w2)) pcs2 \<and> up c (rdb w2)"
    by (rule redis_laws.acks_invariant [OF assms(1,4) refl conjunct2 [OF 1]]) (blast intro: advance_inv_step redelivery_advances)+
  then have "acked_inv reqs (ks (rdb w2)) pcs2" "phase_of id (ks (rdb w1)) cl ev \<le> phase_of id (ks (rdb w2)) cl ev"
    by (simp_all add: advance_inv_def)
  then show ?thesis by (auto simp: phase_of_id acked_inv_def phase_acked)
qed

theorem phases_only_advance_witness:
  "\<exists>w'. (acks_step log_handlers ReqCtx [demo_ack, demo_ack])\<^sup>*\<^sup>* (demo_state mem_delivered, [CheckAcked, CheckAcked]) (w', [Answered 200, Answered 200])
     \<and> phase_of mks (rdb w') ''u1'' ''e1'' = Acked \<and> phase_of mks mem_delivered ''u1'' ''e2'' \<le> phase_of mks (rdb w') ''u1'' ''e2''"
proof -
  from log_race obtain w' where s: "(acks_step log_handlers ReqCtx [demo_ack, demo_ack])\<^sup>*\<^sup>* (demo_state mem_delivered, [CheckAcked, CheckAcked])
      (w', [Answered 200, Answered 200])" ..
  have "(acks_step log_handlers ReqCtx [demo_ack, demo_ack])\<^sup>*\<^sup>* (demo_state mem_delivered, replicate (length [demo_ack, demo_ack]) CheckAcked)
      (demo_state mem_delivered, [CheckAcked, CheckAcked])" by simp
  from phases_only_advance [OF log_redis this _ s, of "''u1''" "''e2''"] have
    "phase_of mks mem_delivered ''u1'' ''e2'' \<le> phase_of mks (rdb w') ''u1'' ''e2''"
    "phase_of mks (rdb w') (req_ClientID ([demo_ack, demo_ack] ! 0)) (req_EventID ([demo_ack, demo_ack] ! 0)) = Acked"
    using mem_delivered_phase(2) by auto
  with s show ?thesis by auto
qed

text \<open>
  C40: Two acknowledgements can race. \<open>Validate\<close> and \<open>MarkAcked\<close> are separate commands, so for a delivered event and a publisher
  that accepts records two requests can both be answered with 200, and both records are published.
\<close>

theorem racing_acks_both_published:
  fixes w :: "('r, 'n) world"
  assumes "redis_laws (RDB h) ks up" and "up c (rdb w)"
    and "req_ClientID q1 = cl" "req_EventID q1 = ev" "req_ClientID q2 = cl" "req_EventID q2 = ev"
    and "phase_of ks (rdb w) cl ev = Delivered"
    and pub: "\<forall>a n. \<not> isl (fst (Publish (NatsConn h) (lib_marshalAck (Libs h)) (AckPublisher h) a n))"
  shows "\<exists>w' a1 a2. (acks_step h c [q1, q2])\<^sup>*\<^sup>* (w, [CheckAcked, CheckAcked]) (w', [Answered 200, Answered 200])
    \<and> record_for q1 a1 \<and> record_for q2 a2
    \<and> nats w' = snd (Publish (NatsConn h) (lib_marshalAck (Libs h)) (AckPublisher h) a2
        (snd (Publish (NatsConn h) (lib_marshalAck (Libs h)) (AckPublisher h) a1 (nats w))))"
  by (rule race [OF assms])

theorem racing_acks_both_published_witness:
  "\<exists>w' a1 a2. (acks_step log_handlers ReqCtx [demo_ack, demo_ack])\<^sup>*\<^sup>* (demo_state mem_delivered, [CheckAcked, CheckAcked])
     (w', [Answered 200, Answered 200]) \<and> record_for demo_ack a1 \<and> record_for demo_ack a2"
  using racing_acks_both_published [OF log_redis, of ReqCtx "demo_state mem_delivered" demo_ack "''u1''" "''e1''" demo_ack]
  by (auto simp: mem_delivered_phase log_handlers_def)

end
