(* ===== verification/Event_Handlers.thy ===== *)
theory Event_Handlers
  imports Http_Context
begin

text \<open>
  The event endpoints and the health checks: \<open>V1InsertEvent\<close> (\<open>handlers/event.go\<close>), \<open>V1Poll\<close>
  (\<open>handlers/poll.go\<close>), \<open>Healthz\<close> and \<open>Readyz\<close> (\<open>handlers/health.go\<close>). The tracing span of an insert
  only logs and passes the request's context on.
\<close>

section \<open>Operations\<close>

text \<open>The request body, limited to \<open>max_event_bytes\<close> when that is positive.\<close>

definition limited_body :: "int \<Rightarrow> string \<Rightarrow> reader" where
  "limited_body limit b = (if 0 < limit then MaxBytesReader b limit else Reader b False)"

definition V1InsertEvent :: "('r, 'n) HTTPHandlers \<Rightarrow> ('r, 'n) handler" where
  "V1InsertEvent h c w =
     (let callerID = get_ok c ClientID;
          clientID = ctx_params c ''client_id'';
          L = Libs h;
          rd = limited_body (MaxEventBytes (CfgSSE (Cfg h))) (rq_Body (ctx_req c))
      in if clientID = [] then (Ret (errorResponse StatusBadRequest ''bad_request'' ''Missing client_id.''), w)
         else if callerID \<noteq> clientID
         then (Ret (errorResponse StatusForbidden ''forbidden'' ''You may only push events to your own queue.''), w)
         else case lib_Bind L (ctx_req c) rd of
           Inl _ \<Rightarrow> (Ret (errorResponse StatusBadRequest ''bad_request'' ''Invalid request body or payload too large.''), w)
         | Inr req \<Rightarrow>
             if er_Type req = [] then (Ret (errorResponse StatusBadRequest ''bad_request'' ''Field 'type' is required.''), w)
             else
               let (uid, w1) = NewString w;
                   payload = \<lparr>ev_ID = uid, ev_Type = er_Type req, ev_Data = er_Data req\<rparr>
               in case lib_marshalEvent L payload of
                    Inl _ \<Rightarrow> (Ret (errorResponse StatusInternalServerError ''internal_error'' ''Failed to encode event.''), w1)
                  | Inr raw \<Rightarrow>
                      (case on_rdb (Push (RDB h) (Events h) (rq_ctx (ctx_req c)) clientID raw) w1 of
                         (Some _, w2) \<Rightarrow> (Ret (errorResponse StatusInternalServerError ''internal_error'' ''Failed to push event.''), w2)
                       | (None, w2) \<Rightarrow> (Ret (JSON StatusCreated (PayloadBody payload)), w2)))"

text \<open>The batch size of a poll: the query parameter when it is a number between 1 and the configured size.\<close>

definition poll_batch :: "int \<Rightarrow> string \<Rightarrow> int" where
  "poll_batch limit raw =
     (if raw \<noteq> [] then (case Atoi raw of None \<Rightarrow> limit | Some n \<Rightarrow> if 0 < n \<and> n \<le> limit then n else limit) else limit)"

definition V1Poll :: "('r, 'n) HTTPHandlers \<Rightarrow> ('r, 'n) handler" where
  "V1Poll h c w =
     (let callerID = get_ok c ClientID;
          clientID = ctx_params c ''client_id'';
          batchSize = poll_batch (BatchSize (CfgSSE (Cfg h))) (ctx_query c ''batch_size'')
      in if clientID = [] then (Ret (errorResponse StatusBadRequest ''bad_request'' ''Missing client_id.''), w)
         else if callerID \<noteq> clientID
         then (Ret (errorResponse StatusForbidden ''forbidden'' ''You may only poll your own event queue.''), w)
         else case on_rdb (Drain (RDB h) (Events h) (rq_ctx (ctx_req c)) clientID batchSize) w of
           (Inl _, w1) \<Rightarrow> (Ret (errorResponse StatusInternalServerError ''internal_error'' ''Failed to read events.''), w1)
         | (Inr (rawEvents, _), w1) \<Rightarrow>
             let payloads = List.map_filter (lib_sonicEvent (Libs h)) rawEvents
             in (Ret (JSON StatusOK (EventsBody payloads (int (length payloads)))), w1))"

text \<open>Both checks ping Redis with a context that times out after two seconds; a timeout is an error of the ping.\<close>

definition Healthz :: "('r, 'n) HTTPHandlers \<Rightarrow> (go_error \<Rightarrow> string) \<Rightarrow> ('r, 'n) handler" where
  "Healthz h text c w =
     (case on_rdb (rPing (RDB h) (rq_ctx (ctx_req c))) w of
        (Inl e, w1) \<Rightarrow> (Ret (JSON StatusServiceUnavailable
            (StatusBody [(''status'', ''degraded''), (''repository'', ''disconnected''), (''error'', text e)])), w1)
      | (Inr _, w1) \<Rightarrow> (Ret (JSON StatusOK (StatusBody [(''status'', ''ok'')])), w1))"

definition Readyz :: "('r, 'n) HTTPHandlers \<Rightarrow> ('r, 'n) handler" where
  "Readyz h c w =
     (let (x, w1) = on_rdb (rPing (RDB h) (rq_ctx (ctx_req c))) w;
          redis_ok = \<not> isl x;
          nats_ok = Connected (NatsConn h) (AckPublisher h) (nats w1);
          status = [(''redis'', if redis_ok then ''ok'' else ''disconnected''),
                    (''nats'', if nats_ok then ''ok'' else ''disconnected'')]
      in if \<not> (redis_ok \<and> nats_ok) then (Ret (JSON StatusServiceUnavailable (ReadyBody ''not_ready'' status)), w1)
         else (Ret (JSON StatusOK (ReadyBody ''ready'' status)), w1))"

section \<open>Lemmas\<close>

lemma limited_body_prefix:
  "\<exists>b fails. limited_body m body = Reader b fails \<and> prefix b body \<and> (0 < m \<longrightarrow> int (length b) \<le> m)"
  by (auto simp: limited_body_def MaxBytesReader_def take_is_prefix)

lemma poll_batch_range: "0 < b \<Longrightarrow> 0 < poll_batch b raw \<and> poll_batch b raw \<le> b"
  by (auto simp: poll_batch_def split: option.split)

text \<open>Every way an insert can end: refused with Redis untouched, failed to push, or pushed.\<close>

lemma V1InsertEvent_cases:
  obtains "status_of (fst (V1InsertEvent h c w)) \<in> {400, 403, 500}"
      "rdb (snd (V1InsertEvent h c w)) = rdb w"
  | raw e r where "ctx_params c ''client_id'' \<noteq> []" "get_ok c ClientID = ctx_params c ''client_id''"
      "status_of (fst (V1InsertEvent h c w)) = 500"
      "Push (RDB h) (Events h) (rq_ctx (ctx_req c)) (ctx_params c ''client_id'') raw (rdb w) = (Some e, r)"
      "rdb (snd (V1InsertEvent h c w)) = r"
  | p raw r where "ctx_params c ''client_id'' \<noteq> []" "get_ok c ClientID = ctx_params c ''client_id''"
      "ev_ID p = uuids w (drawn w)" "ev_Type p \<noteq> []" "lib_marshalEvent (Libs h) p = Inr raw"
      "Push (RDB h) (Events h) (rq_ctx (ctx_req c)) (ctx_params c ''client_id'') raw (rdb w) = (None, r)"
      "fst (V1InsertEvent h c w) = Ret (JSON StatusCreated (PayloadBody p))"
      "rdb (snd (V1InsertEvent h c w)) = r"
proof -
  let ?cl = "ctx_params c ''client_id''" and ?rd = "limited_body (MaxEventBytes (CfgSSE (Cfg h))) (rq_Body (ctx_req c))"
  show thesis
  proof (cases "?cl = [] \<or> get_ok c ClientID \<noteq> ?cl")
    case True
    then have "status_of (fst (V1InsertEvent h c w)) \<in> {400, 403} \<and> snd (V1InsertEvent h c w) = w"
      by (cases "?cl = []") (simp_all add: V1InsertEvent_def Let_def)
    then show ?thesis by (intro that(1)) auto
  next
    case False
    show ?thesis
    proof (cases "lib_Bind (Libs h) (ctx_req c) ?rd")
      case (Inl e)
      with False show ?thesis by (intro that(1)) (simp_all add: V1InsertEvent_def Let_def)
    next
      case req: (Inr req)
      let ?p = "\<lparr>ev_ID = uuids w (drawn w), ev_Type = er_Type req, ev_Data = er_Data req\<rparr>"
      show ?thesis
      proof (cases "er_Type req = [] \<or> isl (lib_marshalEvent (Libs h) ?p)")
        case True
        with False req show ?thesis
          by (intro that(1)) (auto simp add: V1InsertEvent_def NewString_def Let_def split: sum.splits)
      next
        case ok: False
        then obtain raw where raw: "lib_marshalEvent (Libs h) ?p = Inr raw" by (cases "lib_marshalEvent (Libs h) ?p") auto
        obtain x r where p: "Push (RDB h) (Events h) (rq_ctx (ctx_req c)) ?cl raw (rdb w) = (x, r)" by force
        show ?thesis
        proof (cases x)
          case None
          with False req ok raw p show ?thesis
            by (intro that(3) [of ?p raw r]) (simp_all add: V1InsertEvent_def NewString_def on_rdb_def Let_def)
        next
          case (Some e)
          with False req ok raw p show ?thesis
            by (intro that(2) [of raw e r]) (simp_all add: V1InsertEvent_def NewString_def on_rdb_def Let_def)
        qed
      qed
    qed
  qed
qed

section \<open>Properties\<close>

text \<open>
  Inserting an event. A 201 answer means that the caller is the client named in the path and that
  exactly the encoded event, with the next fresh identifier and a non-empty type, was appended to that
  client's queue (which keeps its newest \<open>max_queue_depth\<close> entries) and nothing else in Redis changed. A
  caller that names another client is refused and Redis is untouched.
\<close>

theorem insert_event_correct:
  assumes "redis_events (RDB h) ks up (Events h)" and "V1InsertEvent h c w = (res, w')"
    and "cl = ctx_params c ''client_id''"
  shows "(status_of res = 201 \<longrightarrow> cl = get_ok c ClientID \<and>
      (\<exists>p raw. res = Ret (JSON StatusCreated (PayloadBody p)) \<and> lib_marshalEvent (Libs h) p = Inr raw
         \<and> ev_ID p = uuids w (drawn w) \<and> ev_Type p \<noteq> []
         \<and> queue_of ks (rdb w') cl = last_n (nat (maxQueueDepth (Events h))) (queue_of ks (rdb w) cl @ [raw]))
      \<and> (\<forall>k. k \<noteq> eventsKey cl \<longrightarrow> ks (rdb w') k = ks (rdb w) k))
    \<and> (cl \<noteq> get_ok c ClientID \<longrightarrow> status_of res \<in> {400, 403} \<and> rdb w' = rdb w)"
proof (intro conjI impI)
  assume ok: "status_of res = 201"
  note laws = redis_events.axioms(1) [OF assms(1)]
  show "cl = get_ok c ClientID"
    "\<exists>p raw. res = Ret (JSON StatusCreated (PayloadBody p)) \<and> lib_marshalEvent (Libs h) p = Inr raw
         \<and> ev_ID p = uuids w (drawn w) \<and> ev_Type p \<noteq> []
         \<and> queue_of ks (rdb w') cl = last_n (nat (maxQueueDepth (Events h))) (queue_of ks (rdb w) cl @ [raw])"
    "\<forall>k. k \<noteq> eventsKey cl \<longrightarrow> ks (rdb w') k = ks (rdb w) k"
    using ok assms(2,3) redis_events.Push_spec [OF assms(1)]
      redis_laws.Push_effect [OF laws]
    by (cases rule: V1InsertEvent_cases [of h c w]; fastforce simp: put_list_other)+
next
  assume "cl \<noteq> get_ok c ClientID"
  with assms(2,3) show "status_of res \<in> {400, 403}" and "rdb w' = rdb w"
    by (cases "cl = []"; auto simp: V1InsertEvent_def Let_def)+
qed

theorem insert_event_correct_witness:
  "\<exists>p w. V1InsertEvent demo_handlers (demo_ctx demo_body) (demo_state mem0) = (Ret (JSON StatusCreated (PayloadBody p)), w)
     \<and> ev_ID p = ''i0'' \<and> length (queue_of mks (rdb w) ''u1'') = 1"
proof -
  obtain res w where r: "V1InsertEvent demo_handlers (demo_ctx demo_body) (demo_state mem0) = (res, w)" by force
  have s: "status_of res = 201"
    using r by (auto simp: V1InsertEvent_def demo_defs demo_state_def limited_body_def MaxBytesReader_def default_config_def
        get_ok_def ClientID_def ClientIP_def NewString_def on_rdb_def Push_def mem_eval)
  from insert_event_correct [OF demo_events r, of "''u1''"] s r show ?thesis by auto
qed

text \<open>
  Polling. A 200 answer means that the caller is the client named in the path; it holds the oldest
  events of that client's queue that can be decoded, taken from a batch between one and the configured
  size, which has been removed from the queue. A caller that names another client is refused and
  Redis is untouched.
\<close>

theorem poll_correct:
  assumes "redis_events (RDB h) ks up (Events h)" and "V1Poll h c w = (res, w')"
    and "cl = ctx_params c ''client_id''" and "0 < BatchSize (CfgSSE (Cfg h))" and "BatchSize (CfgSSE (Cfg h)) < 2 ^ 63"
  shows "(status_of res = 200 \<longrightarrow> cl = get_ok c ClientID \<and>
      (\<exists>n ps. 0 < n \<and> int n \<le> BatchSize (CfgSSE (Cfg h)) \<and> ps = List.map_filter (lib_sonicEvent (Libs h)) (take n (queue_of ks (rdb w) cl))
         \<and> res = Ret (JSON StatusOK (EventsBody ps (int (length ps)))) \<and> queue_of ks (rdb w') cl = drop n (queue_of ks (rdb w) cl)))
    \<and> (cl \<noteq> get_ok c ClientID \<longrightarrow> status_of res \<in> {400, 403} \<and> rdb w' = rdb w)"
proof (intro conjI impI)
  let ?b = "poll_batch (BatchSize (CfgSSE (Cfg h))) (ctx_query c ''batch_size'')"
  assume ok: "status_of res = 200"
  then show "cl = get_ok c ClientID" using assms(2,3) by (auto simp: V1Poll_def Let_def split: if_splits)
  with ok assms(2,3) obtain xs n r where d: "Drain (RDB h) (Events h) (rq_ctx (ctx_req c)) cl ?b (rdb w) = (Inr (xs, n), r)"
    and res: "res = Ret (JSON StatusOK (EventsBody (List.map_filter (lib_sonicEvent (Libs h)) xs) (int (length (List.map_filter (lib_sonicEvent (Libs h)) xs)))))"
    and w': "rdb w' = r"
    by (auto simp: V1Poll_def on_rdb_def Let_def split: if_splits sum.splits prod.splits)
  have b: "0 < ?b" "?b \<le> BatchSize (CfgSSE (Cfg h))" using poll_batch_range [OF assms(4)] by auto
  from redis_events.Drain_spec [OF assms(1) d] b assms(5) w' res
  show "\<exists>n ps. 0 < n \<and> int n \<le> BatchSize (CfgSSE (Cfg h)) \<and> ps = List.map_filter (lib_sonicEvent (Libs h)) (take n (queue_of ks (rdb w) cl))
         \<and> res = Ret (JSON StatusOK (EventsBody ps (int (length ps)))) \<and> queue_of ks (rdb w') cl = drop n (queue_of ks (rdb w) cl)"
    by (intro exI [of _ "nat ?b"]) auto
next
  assume "cl \<noteq> get_ok c ClientID"
  with assms(2,3) show "status_of res \<in> {400, 403}" and "rdb w' = rdb w"
    by (cases "cl = []"; auto simp: V1Poll_def Let_def)+
qed

theorem poll_correct_witness:
  "\<exists>ps n w. V1Poll demo_handlers (demo_ctx []) (demo_state mem3) = (Ret (JSON StatusOK (EventsBody ps n)), w)"
proof -
  obtain res w where r: "V1Poll demo_handlers (demo_ctx []) (demo_state mem3) = (res, w)" by force
  have s: "status_of res = 200"
    using r by (auto simp: V1Poll_def on_rdb_def Drain_def poll_batch_def demo_ctx_def get_ok_def ClientID_def ClientIP_def
        demo_handlers_def demo_state_def default_config_def mem_eval)
  from poll_correct [OF demo_events r, of "''u1''"] s r show ?thesis by (auto simp: demo_handlers_def default_config_def)
qed

text \<open>
  What is accepted is bounded. If the decoder's data is part of what it has read, the data of an accepted event is no
  longer than \<open>max_event_bytes\<close>, however long the body is.
\<close>

theorem accepted_event_bounded:
  assumes "V1InsertEvent h c w = (Ret (JSON StatusCreated (PayloadBody p)), w')" and "0 < MaxEventBytes (CfgSSE (Cfg h))"
    and "\<forall>rq b fails req. lib_Bind (Libs h) rq (Reader b fails) = Inr req \<longrightarrow> length (er_Data req) \<le> length b"
  shows "int (length (ev_Data p)) \<le> MaxEventBytes (CfgSSE (Cfg h))
    \<and> length (ev_Data p) \<le> length (rq_Body (ctx_req c))"
proof -
  let ?m = "MaxEventBytes (CfgSSE (Cfg h))" and ?b = "rq_Body (ctx_req c)"
  obtain b fails where rd: "limited_body ?m ?b = Reader b fails" "int (length b) \<le> ?m" "length b \<le> length ?b"
    using assms(2) by (cases "int (length ?b) \<le> ?m") (auto simp: limited_body_def MaxBytesReader_def)
  obtain req where "lib_Bind (Libs h) (ctx_req c) (Reader b fails) = Inr req" "ev_Type p = er_Type req" "ev_Data p = er_Data req"
    using assms(1) rd(1) by (auto simp: V1InsertEvent_def Let_def JSON_def NewString_def split: if_splits sum.splits prod.splits option.splits)
  with assms(3) rd show ?thesis by fastforce
qed

theorem accepted_event_bounded_witness:
  "\<exists>p w. V1InsertEvent demo_handlers (demo_ctx demo_body) (demo_state mem0) = (Ret (JSON StatusCreated (PayloadBody p)), w)
     \<and> int (length (ev_Data p)) \<le> 65536"
proof -
  obtain p w where r: "V1InsertEvent demo_handlers (demo_ctx demo_body) (demo_state mem0) = (Ret (JSON StatusCreated (PayloadBody p)), w)"
    by (simp add: V1InsertEvent_def demo_defs demo_state_def limited_body_def MaxBytesReader_def default_config_def
        get_ok_def ClientID_def ClientIP_def NewString_def on_rdb_def Push_def mem_eval)
  have "int (length (ev_Data p)) \<le> MaxEventBytes (CfgSSE (Cfg demo_handlers)) \<and> length (ev_Data p) \<le> length (rq_Body (ctx_req (demo_ctx demo_body)))"
    by (rule accepted_event_bounded [OF r]) (auto simp: demo_defs default_config_def split: if_splits option.splits dest: decoded_request_valid)
  then have "int (length (ev_Data p)) \<le> 65536" by (simp add: demo_handlers_def default_config_def)
  with r show ?thesis by blast
qed

text \<open>
  C26: An accepted event keeps its content from the producer's body to the stream. The caller is the client named in the path. When the binder reads a JSON body with the standard
  decoder and the codec writes the event as an object of its members, a 201 answer means that the body starts with a JSON value that
  was read as a request, that the answer holds its type and data under a fresh identifier, with data no longer than \<open>max_event_bytes\<close>, and that the text
  appended to the client's queue is read by the stream loop as exactly this event, data byte by byte; data that was left out becomes \<open>null\<close>.
  No other key of Redis changes.
\<close>

theorem accepted_event_keeps_content:
  assumes "redis_events (RDB h) ks up (Events h)" and "V1InsertEvent h c w = (Ret (JSON StatusCreated (PayloadBody p)), w1)"
    and "cl = ctx_params c ''client_id''" and "valid_utf8 (uuids w (drawn w))"
    and "\<forall>b fails r. lib_Bind (Libs h) (ctx_req c) (Reader b fails) = Inr r \<longrightarrow> (\<exists>v. prefix v b \<and> Unmarshal_EventRequest v = Some r)"
    and "\<forall>e raw. lib_marshalEvent (Libs h) e = Inr raw \<longrightarrow> valid_utf8 (ev_ID e) \<longrightarrow> valid_utf8 (ev_Type e) \<longrightarrow> text_of_event e raw"
  shows "\<exists>v r raw. prefix v (rq_Body (ctx_req c)) \<and> Unmarshal_EventRequest v = Some r
    \<and> p = \<lparr>ev_ID = uuids w (drawn w), ev_Type = er_Type r, ev_Data = er_Data r\<rparr>
    \<and> (0 < MaxEventBytes (CfgSSE (Cfg h)) \<longrightarrow> int (length (er_Data r)) \<le> MaxEventBytes (CfgSSE (Cfg h)))
    \<and> queue_of ks (rdb w1) cl = last_n (nat (maxQueueDepth (Events h))) (queue_of ks (rdb w) cl @ [raw])
    \<and> Unmarshal_EventPayload raw = Some (p\<lparr>ev_Data := raw_member (er_Data r)\<rparr>)
    \<and> cl = get_ok c ClientID \<and> (\<forall>k. k \<noteq> eventsKey cl \<longrightarrow> ks (rdb w1) k = ks (rdb w) k)"
proof -
  let ?m = "MaxEventBytes (CfgSSE (Cfg h))"
  obtain b fails where rd: "limited_body ?m (rq_Body (ctx_req c)) = Reader b fails" "prefix b (rq_Body (ctx_req c))" "0 < ?m \<longrightarrow> int (length b) \<le> ?m"
    using limited_body_prefix by metis
  have "cl = get_ok c ClientID" "\<forall>k. k \<noteq> eventsKey cl \<longrightarrow> ks (rdb w1) k = ks (rdb w) k"
    using insert_event_correct [OF assms(1-3)] by (simp_all add: JSON_def)
  moreover obtain r raw where r: "lib_Bind (Libs h) (ctx_req c) (Reader b fails) = Inr r" "lib_marshalEvent (Libs h) p = Inr raw"
    "p = \<lparr>ev_ID = uuids w (drawn w), ev_Type = er_Type r, ev_Data = er_Data r\<rparr>"
    "Push (RDB h) (Events h) (rq_ctx (ctx_req c)) cl raw (rdb w) = (None, rdb w1)"
    using assms(2,3) rd(1) by (auto simp: V1InsertEvent_def Let_def JSON_def NewString_def on_rdb_def
        split: if_splits sum.splits prod.splits option.splits)
  obtain v where v: "prefix v b" "Unmarshal_EventRequest v = Some r" using assms(5) r(1) by blast
  note d = decoded_request_valid [OF v(2)]
  have "text_of_event p raw" using assms(4,6) r(2,3) request_type_valid [OF v(2)] by simp
  from event_text_read [OF this] d r(3) have "Unmarshal_EventPayload raw = Some (p\<lparr>ev_Data := raw_member (er_Data r)\<rparr>)" by simp
  moreover have "length (er_Data r) \<le> length b" using d prefix_length_le [OF v(1)] by simp
  ultimately show ?thesis
    using v rd(2,3) r(3) redis_events.Push_spec [OF assms(1) r(4)] prefix_order.trans [OF v(1) rd(2)] by fastforce
qed

theorem accepted_event_keeps_content_witness:
  "\<exists>p w raw. V1InsertEvent demo_handlers (demo_ctx demo_body) (demo_state mem0) = (Ret (JSON StatusCreated (PayloadBody p)), w)
     \<and> queue_of mks (rdb w) ''u1'' = [raw] \<and> Unmarshal_EventPayload raw = Some p"
proof -
  obtain res w where r: "V1InsertEvent demo_handlers (demo_ctx demo_body) (demo_state mem0) = (res, w)" by force
  then obtain p where i: "res = Ret (JSON StatusCreated (PayloadBody p))" and p: "ev_Data p = ''{}''"
    by (auto simp: V1InsertEvent_def demo_defs demo_state_def limited_body_def MaxBytesReader_def default_config_def
        get_ok_def ClientID_def ClientIP_def NewString_def on_rdb_def Push_def mem_eval)
  have "\<forall>b fails r. lib_Bind (Libs demo_handlers) (ctx_req (demo_ctx demo_body)) (Reader b fails) = Inr r \<longrightarrow> (\<exists>v. prefix v b \<and> Unmarshal_EventRequest v = Some r)"
    "\<forall>e raw. lib_marshalEvent (Libs demo_handlers) e = Inr raw \<longrightarrow> valid_utf8 (ev_ID e) \<longrightarrow> valid_utf8 (ev_Type e) \<longrightarrow> text_of_event e raw"
    by (auto simp: demo_handlers_def demo_libs_def event_text_stands split: if_splits option.splits)
  from accepted_event_keeps_content [OF demo_events r [unfolded i] _ _ this] p r i show ?thesis
    by (force simp: NewEventStore_def)
qed

end
