(* ===== verification/Ticket_Handler.thy ===== *)
theory Ticket_Handler
  imports Http_Context
begin

text \<open>
  Issuing a ticket: \<open>V1AuthTicket\<close> (\<open>handlers/ticket.go\<close>). \<open>ctx.Get(...).(string)\<close> without the comma-ok form
  panics when the middleware did not set the value. A failing rate limiter is only logged, the handler
  goes on with the zero result.
\<close>

section \<open>Operations\<close>

text \<open>\<open>int(d.Seconds())\<close> truncates towards zero.\<close>

definition whole_seconds :: "duration \<Rightarrow> int" where
  "whole_seconds d = (if d < 0 then - ((- d) div second) else d div second)"

definition ratelimit_headers :: "rl_result \<Rightarrow> (string \<times> string) list" where
  "ratelimit_headers rl =
     [(''X-RateLimit-Limit'', Itoa (Limit rl)), (''X-RateLimit-Remaining'', Itoa (Remaining rl)),
      (''X-RateLimit-Reset'', Itoa (Unix (ResetAt rl)))]"

text \<open>After the rate limit: generate the ticket, store its identifier, answer.\<close>

definition issue_ticket ::
  "('r, 'n) HTTPHandlers \<Rightarrow> echo_ctx \<Rightarrow> string \<Rightarrow> string \<Rightarrow> (string \<times> string) list \<Rightarrow> ('r, 'n) world \<Rightarrow> response outcome \<times> ('r, 'n) world" where
  "issue_ticket h c clientID clientIP hdrs w =
     (case GenerateTicket (lib_jwt (Libs h)) (CfgAuth (Cfg h)) clientID clientIP w of
        (Inl _, w1) \<Rightarrow> (Ret ((errorResponse StatusInternalServerError ''internal_error'' ''Failed to generate ticket.'')\<lparr>rs_headers := hdrs\<rparr>), w1)
      | (Inr (ticketStr, jti), w1) \<Rightarrow>
          (case on_rdb (Store (RDB h) (rq_ctx (ctx_req c)) clientID clientIP jti (TicketTTL (CfgAuth (Cfg h)))) w1 of
             (Some _, w2) \<Rightarrow> (Ret ((errorResponse StatusInternalServerError ''internal_error'' ''Failed to store ticket.'')\<lparr>rs_headers := hdrs\<rparr>), w2)
           | (None, w2) \<Rightarrow>
               (Ret ((JSON StatusOK (TicketBody ticketStr (whole_seconds (TicketTTL (CfgAuth (Cfg h))))))\<lparr>rs_headers := hdrs\<rparr>),
                count (\<lambda>m. m\<lparr>TicketsIssuedTotal := Suc (TicketsIssuedTotal m)\<rparr>) w2)))"

definition V1AuthTicket :: "('r, 'n) HTTPHandlers \<Rightarrow> ('r, 'n) handler" where
  "V1AuthTicket h c w =
     (case ctx_vals c ClientIP of
        None \<Rightarrow> (Panic, w)
      | Some clientIP \<Rightarrow>
          if clientIP = []
          then (Ret (errorResponse StatusInternalServerError ''internal_error'' ''Failed to determine client IP.''), w)
          else
            let (now, w1) = time_now w;
                (x, w2) = on_rdb (Allow (RDB h) (CfgRateLimit (Cfg h)) now (rq_ctx (ctx_req c)) clientIP) w1;
                rl = (case x of Inl _ \<Rightarrow> zero_result | Inr res \<Rightarrow> res);
                hdrs = ratelimit_headers rl
            in if \<not> Allowed rl
               then (Ret ((errorResponse StatusTooManyRequests ''rate_limit_exceeded'' ''Too many ticket requests. Try again later.'')\<lparr>rs_headers := hdrs\<rparr>),
                     count (\<lambda>m. m\<lparr>RateLimitExceededTotal := Suc (RateLimitExceededTotal m),
                                  TicketsRejectedTotal := inc_at [''rate_limited''] (TicketsRejectedTotal m)\<rparr>) w2)
               else (case ctx_vals c ClientID of
                       None \<Rightarrow> (Panic, w2)
                     | Some clientID \<Rightarrow> issue_ticket h c clientID clientIP hdrs w2))"

section \<open>Lemmas\<close>

lemma status_headers [simp]: "rs_status (resp\<lparr>rs_headers := hs\<rparr>) = rs_status resp" "rs_body (resp\<lparr>rs_headers := hs\<rparr>) = rs_body resp"
  by simp_all

text \<open>A ticket is issued only after the limiter said yes and the ticket was generated and stored.\<close>

lemma V1AuthTicket_issued:
  fixes h :: "('r, 'n) HTTPHandlers"
  assumes "V1AuthTicket h c w = (res, w')" and "status_of res = 200"
  obtains cl ip rl r1 tok jti and w1 :: "('r, 'n) world" where "ctx_vals c ClientIP = Some ip" "ip \<noteq> []" "ctx_vals c ClientID = Some cl"
    "Allow (RDB h) (CfgRateLimit (Cfg h)) (clock w (reads w)) (rq_ctx (ctx_req c)) ip (rdb w) = (Inr rl, r1)" "Allowed rl"
    "rdb w1 = r1" "clock w1 = clock w" "reads w1 = Suc (reads w)"
    "fst (GenerateTicket (lib_jwt (Libs h)) (CfgAuth (Cfg h)) cl ip w1) = Inr (tok, jti)"
    "Store (RDB h) (rq_ctx (ctx_req c)) cl ip jti (TicketTTL (CfgAuth (Cfg h))) r1 = (None, rdb w')"
    "rs_body (case res of Ret x \<Rightarrow> x) = TicketBody tok (whole_seconds (TicketTTL (CfgAuth (Cfg h))))"
proof -
  obtain ip where ip: "ctx_vals c ClientIP = Some ip" "ip \<noteq> []"
    using assms by (auto simp: V1AuthTicket_def split: option.splits if_splits)
  obtain x r1 where al: "Allow (RDB h) (CfgRateLimit (Cfg h)) (clock w (reads w)) (rq_ctx (ctx_req c)) ip (rdb w) = (x, r1)" by force
  let ?w2 = "w\<lparr>reads := Suc (reads w), rdb := r1\<rparr>"
  obtain rl where rl: "x = Inr rl" "Allowed rl"
    using assms ip al by (cases x) (auto simp: V1AuthTicket_def time_now_def on_rdb_def zero_result_def Let_def split: if_splits)
  obtain cl where cl: "ctx_vals c ClientID = Some cl"
    and run: "issue_ticket h c cl ip (ratelimit_headers rl) ?w2 = (res, w')"
    using assms ip al rl by (auto simp: V1AuthTicket_def time_now_def on_rdb_def Let_def split: option.splits)
  obtain y w3 where g: "GenerateTicket (lib_jwt (Libs h)) (CfgAuth (Cfg h)) cl ip ?w2 = (y, w3)" by force
  have w3: "rdb w3 = r1" using g by (auto simp: GenerateTicket_def NewString_def time_now_def Let_def split: sum.splits)
  obtain tok jti where y: "y = Inr (tok, jti)"
    using run g assms(2) by (cases y) (auto simp: issue_ticket_def)
  obtain e r2 where st: "Store (RDB h) (rq_ctx (ctx_req c)) cl ip jti (TicketTTL (CfgAuth (Cfg h))) r1 = (e, r2)" by force
  have "e = None" using run g y st w3 assms(2) by (cases e) (auto simp: issue_ticket_def on_rdb_def)
  with run g y st w3 have "rdb w' = r2" "rs_body (case res of Ret x \<Rightarrow> x) = TicketBody tok (whole_seconds (TicketTTL (CfgAuth (Cfg h))))"
    by (auto simp: issue_ticket_def on_rdb_def)
  with ip cl al rl g y st \<open>e = None\<close> show thesis by (intro that [of ip cl rl r1 ?w2 tok jti]) auto
qed

text \<open>What an issued ticket is good for.\<close>

definition usable_ticket :: "jwt_lib \<Rightarrow> auth_cfg \<Rightarrow> time \<Rightarrow> string \<Rightarrow> string \<Rightarrow> string \<Rightarrow> string \<Rightarrow> ('r, 'n) world \<Rightarrow> bool" where
  "usable_ticket J cfg issued tok cl ip jti w \<longleftrightarrow> clock w (reads w) < (issued + TicketTTL cfg) div second * second \<longrightarrow>
     (\<exists>claims. fst (ValidateTicket J cfg tok w) = Inr claims \<and> cl_Subject claims = cl \<and> cl_IP claims = ip \<and> cl_ID claims = jti)"

lemma V1AuthTicket_pending:
  fixes h :: "('r, 'n) HTTPHandlers"
  assumes "redis_laws (RDB h) ks up" and "jwt_laws (lib_jwt (Libs h)) signed_by"
    and "V1AuthTicket h c w = (res, w')" and "status_of res = 200"
  shows "\<exists>cl ip jti tok n. ctx_vals c ClientID = Some cl \<and> ctx_vals c ClientIP = Some ip
    \<and> rs_body (case res of Ret x \<Rightarrow> x) = TicketBody tok n \<and> pending_ticket ks (rdb w') cl ip = Some jti
    \<and> (\<forall>w2 :: ('r, 'n) world. usable_ticket (lib_jwt (Libs h)) (CfgAuth (Cfg h)) (clock w (Suc (reads w))) tok cl ip jti w2)"
proof -
  from V1AuthTicket_issued [OF assms(3,4)] obtain cl ip rl r1 tok jti and w1 :: "('r, 'n) world" where
    vals: "ctx_vals c ClientIP = Some ip" "ctx_vals c ClientID = Some cl"
    and w1: "clock w1 = clock w" "reads w1 = Suc (reads w)"
    and g: "fst (GenerateTicket (lib_jwt (Libs h)) (CfgAuth (Cfg h)) cl ip w1) = Inr (tok, jti)"
    and st: "Store (RDB h) (rq_ctx (ctx_req c)) cl ip jti (TicketTTL (CfgAuth (Cfg h))) r1 = (None, rdb w')"
    and b: "rs_body (case res of Ret x \<Rightarrow> x) = TicketBody tok (whole_seconds (TicketTTL (CfgAuth (Cfg h))))" by metis
  have "pending_ticket ks (rdb w') cl ip = Some jti"
    using redis_laws.Store_effect [OF assms(1) st] by (auto simp: pending_ticket_def)
  moreover obtain w3 where g3: "GenerateTicket (lib_jwt (Libs h)) (CfgAuth (Cfg h)) cl ip w1 = (Inr (tok, jti), w3)"
    using g by (metis prod.collapse)
  have "usable_ticket (lib_jwt (Libs h)) (CfgAuth (Cfg h)) (clock w (Suc (reads w))) tok cl ip jti w2" for w2 :: "('r, 'n) world"
    unfolding usable_ticket_def using jwt_laws.GenerateTicket_validates [OF assms(2) g3, of w2] w1 by simp
  ultimately show ?thesis using vals b by blast
qed

section \<open>Properties\<close>

text \<open>
  A 200 answer of the ticket endpoint carries a token that \<open>ValidateTicket\<close> accepts for the
  caller's identity and address until it expires, and the identifier inside it is now the one pending
  ticket of that client and address.
\<close>

theorem ticket_issued_and_pending:
  fixes h :: "('r, 'n) HTTPHandlers"
  assumes "redis_laws (RDB h) ks up" and "jwt_laws (lib_jwt (Libs h)) signed_by"
    and "V1AuthTicket h c w = (res, w')" and "status_of res = 200"
  shows "\<exists>cl ip jti tok n. ctx_vals c ClientID = Some cl \<and> ctx_vals c ClientIP = Some ip
    \<and> rs_body (case res of Ret x \<Rightarrow> x) = TicketBody tok n \<and> pending_ticket ks (rdb w') cl ip = Some jti
    \<and> (\<forall>w2 :: ('r, 'n) world. usable_ticket (lib_jwt (Libs h)) (CfgAuth (Cfg h)) (clock w (Suc (reads w))) tok cl ip jti w2)"
  by (rule V1AuthTicket_pending [OF assms])

lemma demo_issues:
  "status_of (fst (V1AuthTicket demo_handlers (demo_ctx []) (demo_state mem0))) = 200"
  by (simp add: V1AuthTicket_def demo_ctx_def ClientID_def ClientIP_def demo_handlers_def demo_libs_def demo_state_def time_now_def
      on_rdb_def Allow_def atomic_ratelimit_def mem_ops windowSeconds_def default_config_def issue_ticket_def GenerateTicket_def
      NewString_def demo_jwt_def demo_sign_def line_free_def second_def Store_def nats1_def nats0_def ratelimitKey_def ticketKey_def)

theorem ticket_issued_and_pending_witness:
  "\<exists>res w jti. V1AuthTicket demo_handlers (demo_ctx []) (demo_state mem0) = (res, w) \<and> status_of res = 200
     \<and> pending_ticket mks (rdb w) ''u1'' ''1.2.3.4'' = Some jti"
proof -
  obtain res w where r: "V1AuthTicket demo_handlers (demo_ctx []) (demo_state mem0) = (res, w)" by force
  with demo_issues have s: "status_of res = 200" by simp
  from ticket_issued_and_pending [OF demo_redis demo_jwt_ok r s] r s show ?thesis
    by (auto simp: demo_ctx_def ClientID_def ClientIP_def)
qed

text \<open>
  When the rate limiter itself fails, the handler only logs the error and goes on with the zero
  result, which is \<open>not allowed\<close>: the client is refused with 429 and \<open>X-RateLimit-Limit: 0\<close>, and no ticket is issued.
\<close>

theorem limiter_failure_denies:
  assumes "ctx_vals c ClientIP = Some ip" and "ip \<noteq> []"
    and "Allow (RDB h) (CfgRateLimit (Cfg h)) (clock w (reads w)) (rq_ctx (ctx_req c)) ip (rdb w) = (Inl e, r')"
    and "V1AuthTicket h c w = (res, w')"
  shows "status_of res = 429 \<and> rdb w' = r' \<and> (''X-RateLimit-Limit'', Itoa 0) \<in> set (rs_headers (case res of Ret x \<Rightarrow> x))"
  using assms by (auto simp: V1AuthTicket_def time_now_def on_rdb_def zero_result_def ratelimit_headers_def Let_def)

theorem limiter_failure_denies_witness:
  "\<exists>res w. V1AuthTicket demo_handlers (demo_ctx []) (demo_state (mem0\<lparr>reachable := False\<rparr>)) = (res, w) \<and> status_of res = 429"
proof -
  let ?w = "demo_state (mem0\<lparr>reachable := False\<rparr>)"
  obtain res w where r: "V1AuthTicket demo_handlers (demo_ctx []) ?w = (res, w)" by force
  obtain e r' where a: "Allow (RDB demo_handlers) (CfgRateLimit (Cfg demo_handlers)) (clock ?w (reads ?w))
      (rq_ctx (ctx_req (demo_ctx []))) ''1.2.3.4'' (rdb ?w) = (Inl e, r')"
    by (simp add: Allow_def atomic_ratelimit_def mem_redis_def mem_defs mup_def)
  from limiter_failure_denies [OF _ _ a r] r show ?thesis by (simp add: demo_ctx_def ClientID_def ClientIP_def)
qed

end
