(* ===== verification/Redis_Invariant.thy ===== *)
theory Redis_Invariant
  imports Event_Store Ticket_Store Rate_Limiter Stream_Loop
begin

text \<open>
  What the repository may do to the server, as an interface: it writes strings under the keys of tickets,
  connections, delivered and acknowledged events, counters under the keys of the rate limiter and lists under the keys
  of event queues; it removes tickets and delivered events, and connections only when a stream ends or an
  instance stops. The locale \<open>redis_stable\<close> takes any predicate on the server that the other commands keep (with
  times to live for which \<open>D\<close> holds) and shows that the stores and the whole stream loop keep it, whatever fails; the
  locale \<open>redis_invariant\<close> adds the removal of connections. They are used for a server that stays up, for the types
  of the key space, and for connection slots that stay taken.
\<close>

definition string_key :: "string \<Rightarrow> bool" where
  "string_key k \<longleftrightarrow> (\<exists>a b. k = connKey a b \<or> k = ticketKey a b \<or> k = inFlightKey a b \<or> k = ackedKey a b)"

lemma string_keys [simp]:
  "string_key (connKey a b)" "string_key (ticketKey a b)" "string_key (inFlightKey a b)" "string_key (ackedKey a b)"
  by (auto simp: string_key_def)

locale redis_stable =
  fixes R :: "'r redis" and I :: "'r \<Rightarrow> bool" and D :: "duration \<Rightarrow> bool"
  assumes reads_keep: "I r \<Longrightarrow> I (snd (rGet R c k r)) \<and> I (snd (rExists R c k r)) \<and> I (snd (rLRange R c k i j r))
      \<and> I (snd (rLLen R c k r)) \<and> I (snd (rScan R c cur p n r)) \<and> I (snd (rPing R c r))"
    and removals_keep: "I r \<Longrightarrow> I (snd (rDel R c (ticketKey cl ip) r)) \<and> I (snd (rDel R c (inFlightKey cl ev) r))"
    and strings_keep: "I r \<Longrightarrow> I (snd (rSet R c (ticketKey cl ip) v d r)) \<and> I (snd (rSet R c (inFlightKey cl ev) v d r))
      \<and> I (snd (rSet R c (ackedKey cl ev) v d r)) \<and> I (snd (rSetNX R c (connKey cl ip) v d r))"
    and leases_keep: "I r \<Longrightarrow> D d \<Longrightarrow> I (snd (rExpire R c (connKey cl ip) d r))"
    and windows_keep: "I r \<Longrightarrow> I (snd (rExpire R c (ratelimitKey ip) (windowSeconds * second) r))"
    and counters_keep: "I r \<Longrightarrow> I (snd (rIncr R c (ratelimitKey ip) r))"
    and lists_keep: "I r \<Longrightarrow> I (snd (rRPush R c (eventsKey cl) v r)) \<and> I (snd (rLTrim R c (eventsKey cl) i j r))"
begin

lemmas commands_keep = reads_keep removals_keep strings_keep leases_keep windows_keep counters_keep lists_keep

section \<open>The stores\<close>

lemma Push_keeps: "I r \<Longrightarrow> I (snd (Push R s c cl e r))"
  by (simp add: Push_def split_beta Let_def commands_keep)

lemma Drain_keeps: "I r \<Longrightarrow> I (snd (Drain R s c cl b r))"
  by (simp add: Drain_def split_beta Let_def commands_keep split: option.split)

lemma Store_keeps: "I r \<Longrightarrow> I (snd (Store R c cl ip jti d r))"
  by (simp add: Store_def commands_keep)

lemma ValidateAndConsume_keeps: "I r \<Longrightarrow> I (snd (ValidateAndConsume R c cl ip jti r))"
  by (simp add: ValidateAndConsume_def atomic_ticket_validate_def split_beta commands_keep split: sum.split prod.split)

lemma Conn_Register_keeps: "I r \<Longrightarrow> I (snd (Conn_Register R s c cl ip d r))"
  by (simp add: Conn_Register_def split_beta commands_keep split: sum.split prod.split)

lemma Refresh_keeps: "I r \<Longrightarrow> D d \<Longrightarrow> I (snd (Refresh R c cl ip d r))"
  by (simp add: Refresh_def commands_keep)

lemma InFlight_Register_keeps: "I r \<Longrightarrow> I (snd (InFlight_Register R c cl ev t r))"
  by (simp add: InFlight_Register_def commands_keep)

lemma Validate_keeps: "I r \<Longrightarrow> I (snd (Validate R c cl ev r))"
  by (simp add: Validate_def split_beta commands_keep split: sum.split prod.split)

lemma MarkAcked_keeps: "I r \<Longrightarrow> I (snd (MarkAcked R t c cl ev r))"
  by (simp add: MarkAcked_def split_beta Let_def commands_keep split: option.split)

lemma Allow_keeps: "I r \<Longrightarrow> I (snd (Allow R cfg now c ip r))"
  by (simp add: Allow_def atomic_ratelimit_def split_beta Let_def commands_keep split: sum.split prod.split)

section \<open>The stream loop\<close>

lemma deliver_keeps: "se_redis env = R \<Longrightarrow> I (rdb (sw st)) \<Longrightarrow> I (rdb (sw (snd (deliver env c batch st))))"
proof (induction batch arbitrary: st)
  case (Cons raw batch)
  then show ?case
    by (cases "Unmarshal_EventPayload raw") (auto simp: split_beta Let_def InFlight_Register_keeps split: option.split prod.split)
qed simp

lemma drainAndFlush_keeps: "se_redis env = R \<Longrightarrow> I (rdb (sw st)) \<Longrightarrow> I (rdb (sw (drainAndFlush env c st)))"
  using Drain_keeps [of "rdb (sw st)" "se_events env" c "se_client env" "BatchSize (se_cfg env)"]
  by (auto simp: drainAndFlush_def split_beta Let_def on_rdb_def intro!: deliver_keeps split: sum.split prod.split)

lemma select_loop_keeps: "se_redis env = R \<Longrightarrow> D (ConnTTL (se_cfg env)) \<Longrightarrow> I (rdb (sw st)) \<Longrightarrow> I (rdb (sw (snd (select_loop env es st))))"
proof (induction es arbitrary: st)
  case (Cons ev es)
  have "rdb (sw (snd (sendHeartbeat st))) = rdb (sw st)"
    by (simp add: sendHeartbeat_def split_beta Let_def split: option.split prod.split)
  with Cons show ?case
    by (cases ev) (auto simp: drainAndFlush_keeps Refresh_keeps split_beta split: option.split prod.split)
qed simp

lemma RunLoop_keeps: "se_redis env = R \<Longrightarrow> D (ConnTTL (se_cfg env)) \<Longrightarrow> I (rdb w) \<Longrightarrow> I (rdb (sw (snd (RunLoop env c es w wr))))"
  by (simp add: RunLoop_def Let_def select_loop_keeps drainAndFlush_keeps)

end

section \<open>The removal of connections\<close>

locale redis_invariant = redis_stable R I "\<lambda>_. True" for R :: "'r redis" and I +
  assumes deletes_keep: "I r \<Longrightarrow> I (snd (rDel R c k r))"
begin

lemma Delete_keeps: "I r \<Longrightarrow> I (snd (Delete R c cl ip r))"
  by (simp add: Delete_def commands_keep deletes_keep)

lemma DeleteWithValue_keeps: "I r \<Longrightarrow> I (snd (DeleteWithValue R s c cl ip r))"
  by (simp add: DeleteWithValue_def delete_if_owner_def split_beta commands_keep deletes_keep split: sum.split prod.split)

lemma cleanup_keys_keeps: "I r \<Longrightarrow> I (cleanup_keys R s c keys r)"
  by (induction keys arbitrary: r) (auto simp: commands_keep deletes_keep split_beta split: sum.split prod.split)

lemma cleanup_loop_keeps:
  assumes "cleanup_loop R s c cursor r = Some r'" and "I r"
  shows "I r'"
proof -
  have "R' = R \<longrightarrow> I r \<longrightarrow> I r'" if "cleanup_loop R' s c cursor r = Some r'" for R' s c cursor r r'
  proof (rule cleanup_loop.raw_induct [OF _ that, where P = "\<lambda>R' s c cursor r r'. R' = R \<longrightarrow> I r \<longrightarrow> I r'"], intro impI)
    fix loop R' s c cursor r r'
    assume IH: "\<And>R' s c cursor r r'. loop R' s c cursor r = Some r' \<Longrightarrow> R' = R \<longrightarrow> I r \<longrightarrow> I r'"
      and body: "(case rScan R' c cursor ''scorpion:conn:*'' 100 r of (Inl _, r1) \<Rightarrow> Some r1
          | (Inr (keys, nextCursor), r1) \<Rightarrow> let r2 = cleanup_keys R' s c keys r1
              in if nextCursor = 0 then Some r2 else loop R' s c nextCursor r2) = Some r'"
      and "R' = R" and "I r"
    moreover from \<open>I r\<close> have "I (snd (rScan R c cursor ''scorpion:conn:*'' 100 r))" by (simp add: commands_keep deletes_keep)
    ultimately show "I r'"
      using cleanup_keys_keeps [of "snd (rScan R c cursor ''scorpion:conn:*'' 100 r)" s c]
      by (auto simp: Let_def split: prod.splits sum.splits if_splits)
  qed
  with assms show ?thesis by blast
qed

lemma CleanupInstance_keeps: "CleanupInstance R s c r = Some r' \<Longrightarrow> I r \<Longrightarrow> I r'"
  by (auto simp: CleanupInstance_def intro: cleanup_loop_keeps)

end

text \<open>A server that is up for a context stays up for it.\<close>

sublocale redis_laws \<subseteq> ui: redis_invariant R "up c" for c
  by unfold_locales (use up_stable in blast)+

context redis_laws
begin

lemmas consume_stable = ui.ValidateAndConsume_keeps

lemma stream_stays_up: "up c r \<Longrightarrow> se_redis env = R \<Longrightarrow> rdb w = r \<Longrightarrow> up c (rdb (sw (snd (RunLoop env c' es w wr))))"
  by (rule ui.RunLoop_keeps) simp_all

end

text \<open>A connection slot stays taken until it is deleted.\<close>

sublocale redis_atomic \<subseteq> slot: redis_stable R "\<lambda>r. conn_taken ks r cl ip" "\<lambda>d. 0 < d" for cl ip
proof unfold_locales
  fix r c v d cl' ip' ev i j assume t: "conn_taken ks r cl ip"
  have kept: "conn_taken ks r' cl ip" if "touches k Q (ks r) (ks r')" "\<And>y. connKey cl ip = k \<Longrightarrow> Q y \<Longrightarrow> y \<noteq> None" for k Q r'
    unfolding conn_taken_def by (rule touches_present [OF that(1)]) (use t that(2) in \<open>auto simp: conn_taken_def\<close>)
  show "conn_taken ks (snd (rSet R c (ticketKey cl' ip') v d r)) cl ip \<and> conn_taken ks (snd (rSet R c (inFlightKey cl' ev) v d r)) cl ip
      \<and> conn_taken ks (snd (rSet R c (ackedKey cl' ev) v d r)) cl ip \<and> conn_taken ks (snd (rSetNX R c (connKey cl' ip') v d r)) cl ip"
    by (intro conjI kept [OF write_atomic(1)] kept [OF write_atomic(2)]) (auto dest: present_values(1))
  show "conn_taken ks (snd (rDel R c (ticketKey cl' ip') r)) cl ip \<and> conn_taken ks (snd (rDel R c (inFlightKey cl' ev) r)) cl ip"
    by (intro conjI kept [OF write_atomic(3)]) simp_all
  show "conn_taken ks (snd (rExpire R c (connKey cl' ip') d r)) cl ip" if "0 < d"
    by (rule kept [OF write_atomic(4)]) (use that t present_values(3) in \<open>auto simp: conn_taken_def\<close>)
  show "conn_taken ks (snd (rExpire R c (ratelimitKey ip') (windowSeconds * second) r)) cl ip" by (rule kept [OF write_atomic(4)]) simp
  show "conn_taken ks (snd (rIncr R c (ratelimitKey ip') r)) cl ip" by (rule kept [OF write_atomic(5)]) simp
  show "conn_taken ks (snd (rRPush R c (eventsKey cl') v r)) cl ip \<and> conn_taken ks (snd (rLTrim R c (eventsKey cl') i j r)) cl ip"
    by (intro conjI kept [OF write_atomic(6)] kept [OF write_atomic(7)]) simp_all
qed (simp_all add: conn_taken_def read_atomic)

end
