(* ===== verification/Stream_Handler.thy ===== *)
theory Stream_Handler
  imports Ticket_Handler Redis_Invariant
begin

text \<open>
  Opening a stream: \<open>V1SSEStreamEvents\<close> (\<open>handlers/stream.go\<close>). The handler takes the response writer, whether
  it can flush, and the sequence of ready channels for the loop. Its deferred calls (release of the
  connection slot, decrement of the gauge) run when the loop has returned or panicked, not while it runs.
\<close>

section \<open>Operations\<close>

datatype stream_result = Refused "response outcome" | Streamed loop_end

definition stream_env_of :: "('r, 'n) HTTPHandlers \<Rightarrow> string \<Rightarrow> string \<Rightarrow> 'r stream_env" where
  "stream_env_of h clientID ip =
     \<lparr>se_redis = RDB h, se_events = Events h,
      se_inFlight = True, se_cfg = CfgSSE (Cfg h), se_client = clientID, se_ip = ip\<rparr>"

text \<open>The channels that can become ready: the \<open>Done\<close> channel of a background context never does.\<close>

definition ready_channels :: "go_context \<Rightarrow> select list \<Rightarrow> select list" where
  "ready_channels appCtx es = (if appCtx = Background then filter (\<lambda>e. e \<noteq> AppDone) es else es)"

definition rejected :: "metrics \<Rightarrow> metrics" where
  "rejected m = m\<lparr>ConnectionsTotal := inc_at [''rejected''] (ConnectionsTotal m)\<rparr>"

text \<open>From the registration of the connection on.\<close>

definition run_stream ::
  "('r, 'n) HTTPHandlers \<Rightarrow> go_context \<Rightarrow> string \<Rightarrow> string \<Rightarrow> select list \<Rightarrow> respw \<Rightarrow> ('r, 'n) world
     \<Rightarrow> stream_result \<times> respw \<times> ('r, 'n) world" where
  "run_stream h c clientID ip es wr w =
     (case on_rdb (Conn_Register (RDB h) (Conns h) c clientID ip (ConnTTL (CfgSSE (Cfg h)))) w of
        (Inl _, w1) \<Rightarrow> (Refused (Ret (errorResponse StatusInternalServerError ''internal_error'' ''Failed to register connection.'')), wr, w1)
      | (Inr False, w1) \<Rightarrow>
          (Refused (Ret (errorResponse StatusTooManyRequests ''duplicate_connection'' ''An active stream already exists for this user and IP.'')),
           wr, count (\<lambda>m. rejected (m\<lparr>DuplicateConnectionsTotal := Suc (DuplicateConnectionsTotal m)\<rparr>)) w1)
      | (Inr True, w1) \<Rightarrow>
          let w2 = count (\<lambda>m. m\<lparr>ConnectionsTotal := inc_at [''ok''] (ConnectionsTotal m), ActiveConnections := ActiveConnections m + 1\<rparr>) w1;
              (how, st) = RunLoop (stream_env_of h clientID ip) c (ready_channels (AppCTX h) es) w2 (w_Flush wr)
          in if how = Running then (Streamed how, swr st, sw st)
             else let (_, w3) = on_rdb (Delete (RDB h) Background clientID ip) (sw st)
                  in (Streamed how, swr st, count (\<lambda>m. m\<lparr>ActiveConnections := ActiveConnections m - 1\<rparr>) w3))"

abbreviation access_denied :: response where
  "access_denied \<equiv> errorResponse StatusForbidden ''access_denied'' ''Ticket is invalid, expired, or IP mismatch.''"

definition V1SSEStreamEvents ::
  "('r, 'n) HTTPHandlers \<Rightarrow> bool \<Rightarrow> select list \<Rightarrow> echo_ctx \<Rightarrow> respw \<Rightarrow> ('r, 'n) world \<Rightarrow> stream_result \<times> respw \<times> ('r, 'n) world" where
  "V1SSEStreamEvents h flusher es c wr w =
     (let ticketStr = ctx_query c ''ticket''
      in if \<not> flusher then (Refused (Ret (errorResponse StatusInternalServerError ''internal_error'' ''Streaming not supported.'')), wr, w)
         else if ticketStr = [] then (Refused (Ret access_denied), wr, w)
         else case ValidateTicket (lib_jwt (Libs h)) (CfgAuth (Cfg h)) ticketStr w of
           (Inl _, w1) \<Rightarrow> (Refused (Ret access_denied), wr, count rejected w1)
         | (Inr claims, w1) \<Rightarrow>
             (case ctx_vals c ClientIP of
                None \<Rightarrow> (Refused Panic, wr, w1)
              | Some requestIP \<Rightarrow>
                  if requestIP = [] then (Refused (Ret (errorResponse StatusInternalServerError ''internal_error'' ''Failed to determine client IP.'')), wr, w1)
                  else if requestIP \<noteq> cl_IP claims
                  then (Refused (Ret access_denied), wr,
                        count (\<lambda>m. rejected (m\<lparr>AuthIPMismatchTotal := Suc (AuthIPMismatchTotal m)\<rparr>)) w1)
                  else (case on_rdb (ValidateAndConsume (RDB h) (rq_ctx (ctx_req c)) (cl_Subject claims) requestIP (cl_ID claims)) w1 of
                    (Inl _, w2) \<Rightarrow> (Refused (Ret (errorResponse StatusInternalServerError ''internal_error'' ''Ticket validation failed.'')), wr, w2)
                  | (Inr False, w2) \<Rightarrow> (Refused (Ret access_denied), wr, count rejected w2)
                  | (Inr True, w2) \<Rightarrow> run_stream h (rq_ctx (ctx_req c)) (cl_Subject claims) requestIP es wr w2)))"

section \<open>Lemmas\<close>

text \<open>What it takes to get past the ticket.\<close>

lemma stream_passes_ticket:
  assumes "jwt_laws (lib_jwt (Libs h)) signed_by" and "redis_laws (RDB h) ks up"
    and "V1SSEStreamEvents h flusher es c wr w = (Streamed how, wr', w')"
  obtains claims ip w2 where "fst (ValidateTicket (lib_jwt (Libs h)) (CfgAuth (Cfg h)) (ctx_query c ''ticket'') w) = Inr claims"
    "\<exists>alg. signed_by (HMAC alg) (TicketSecret (CfgAuth (Cfg h))) (ctx_query c ''ticket'')"
    "ctx_vals c ClientIP = Some ip" "ip = cl_IP claims"
    "pending_ticket ks (rdb w) (cl_Subject claims) ip = Some (cl_ID claims)"
    "ks (rdb w2) = (ks (rdb w))(ticketKey (cl_Subject claims) ip := None)" "\<forall>c'. up c' (rdb w) \<longrightarrow> up c' (rdb w2)"
    "run_stream h (rq_ctx (ctx_req c)) (cl_Subject claims) ip es wr w2 = (Streamed how, wr', w')"
proof -
  let ?tok = "ctx_query c ''ticket''"
  obtain x w1 where v: "ValidateTicket (lib_jwt (Libs h)) (CfgAuth (Cfg h)) ?tok w = (x, w1)" by force
  obtain claims where x: "x = Inr claims" "flusher" "?tok \<noteq> []"
    using assms(3) v by (cases x) (auto simp: V1SSEStreamEvents_def Let_def split: if_splits)
  note auth = jwt_laws.ValidateTicket_authentic [OF assms(1) v [unfolded x]]
  obtain ip where ip: "ctx_vals c ClientIP = Some ip" "ip \<noteq> []" "ip = cl_IP claims"
    using assms(3) v x by (auto simp: V1SSEStreamEvents_def Let_def split: if_splits option.splits)
  obtain y r where t: "ValidateAndConsume (RDB h) (rq_ctx (ctx_req c)) (cl_Subject claims) ip (cl_ID claims) (rdb w1) = (y, r)" by force
  have y: "y = Inr True" and run: "run_stream h (rq_ctx (ctx_req c)) (cl_Subject claims) ip es wr (w1\<lparr>rdb := r\<rparr>) = (Streamed how, wr', w')"
    using assms(3) v x ip t by (auto simp: V1SSEStreamEvents_def on_rdb_def Let_def split: sum.splits bool.splits)
  have "\<forall>c'. up c' (rdb w) \<longrightarrow> up c' r"
    using redis_laws.consume_stable [OF assms(2), of _ "rdb w1" "rq_ctx (ctx_req c)" "cl_Subject claims" ip "cl_ID claims"] t auth by auto
  with redis_laws.consume_effect [OF assms(2) t [unfolded y]] auth v x ip run show thesis
    by (intro that [of claims ip "w1\<lparr>rdb := r\<rparr>"]) auto
qed

section \<open>What the loop leaves alone\<close>

lemma deliver_gauge: "ActiveConnections (mtr (sw (snd (deliver env c batch st)))) = ActiveConnections (mtr (sw st))"
proof (induction batch arbitrary: st)
  case (Cons raw batch)
  then show ?case
    by (cases "Unmarshal_EventPayload raw") (simp_all add: split_beta Let_def split: option.split prod.split)
qed simp

lemma drain_gauge: "ActiveConnections (mtr (sw (drainAndFlush env c st))) = ActiveConnections (mtr (sw st))"
  by (simp add: drainAndFlush_def split_beta Let_def deliver_gauge split: sum.split prod.split)

lemma heartbeat_gauge: "ActiveConnections (mtr (sw (snd (sendHeartbeat st)))) = ActiveConnections (mtr (sw st))"
  by (simp add: sendHeartbeat_def split_beta Let_def split: option.split prod.split)

lemma select_loop_gauge: "ActiveConnections (mtr (sw (snd (select_loop env es st)))) = ActiveConnections (mtr (sw st))"
proof (induction es arbitrary: st)
  case (Cons ev es)
  then show ?case using heartbeat_gauge [of st]
    by (cases ev) (auto simp: drain_gauge split_beta split: option.split prod.split)
qed simp

lemma RunLoop_gauge: "ActiveConnections (mtr (sw (snd (RunLoop env c es w wr)))) = ActiveConnections (mtr w)"
  by (simp add: RunLoop_def Let_def select_loop_gauge drain_gauge)

lemma run_stream_gauge:
  "run_stream h c cl ip es wr w = (res, wr', w') \<Longrightarrow>
     ActiveConnections (mtr w') = ActiveConnections (mtr w) + (if res = Streamed Running then 1 else 0)"
  by (auto simp: RunLoop_gauge run_stream_def rejected_def Let_def split_beta split: sum.splits bool.splits if_splits prod.splits)

lemma run_stream_returns:
  fixes h :: "('a, 'b) HTTPHandlers"
  assumes "run_stream h c cl ip es wr w = (Streamed how, wr', w')" and "CtxDone \<in> set es"
    and "0 < PollInterval (CfgSSE (Cfg h))" and "0 < HeartbeatInterval (CfgSSE (Cfg h))"
  shows "how = Returned"
proof -
  have "fst (RunLoop (stream_env_of h cl ip) c (ready_channels (AppCTX h) es) w1 wr1) = Returned" for w1 :: "('a, 'b) world" and wr1
    using assms(2-4) by (auto simp: RunLoop_def stream_env_of_def ready_channels_def Let_def intro!: select_loop_done)
  with assms(1) show ?thesis
    by (auto simp: run_stream_def Let_def split_beta split: sum.splits bool.splits if_splits prod.splits)
qed

context redis_laws
begin

lemma run_stream_slot:
  assumes "RDB h = R" and "run_stream h c cl ip es wr w = (Streamed how, wr', w')"
  shows "\<not> conn_taken ks (rdb w) cl ip"
    and "how \<noteq> Running \<Longrightarrow> up Background (rdb w) \<Longrightarrow> \<not> conn_taken ks (rdb w') cl ip"
proof -
  let ?env = "stream_env_of h cl ip" and ?d = "ConnTTL (CfgSSE (Cfg h))"
  obtain x r1 where g: "Conn_Register R (Conns h) c cl ip ?d (rdb w) = (x, r1)" by force
  have x: "x = Inr True" using assms g by (auto simp: run_stream_def on_rdb_def split: sum.splits bool.splits)
  from Conn_Register_effect [OF g [unfolded x]] show "\<not> conn_taken ks (rdb w) cl ip" by (simp add: conn_taken_def)
  assume how: "how \<noteq> Running" and u: "up Background (rdb w)"
  define w2 where "w2 = count (\<lambda>m. m\<lparr>ConnectionsTotal := inc_at [''ok''] (ConnectionsTotal m),
    ActiveConnections := ActiveConnections m + 1\<rparr>) (w\<lparr>rdb := r1\<rparr>)"
  have w2: "rdb w2 = r1" by (simp add: w2_def)
  obtain how' st where rl': "RunLoop ?env c (ready_channels (AppCTX h) es) w2 (w_Flush wr) = (how', st)" by force
  have rl: "RunLoop ?env c (ready_channels (AppCTX h) es) w2 (w_Flush wr) = (how, st)"
    and w': "rdb w' = snd (Delete R Background cl ip (rdb (sw st)))"
    using assms g x how rl' by (auto simp: run_stream_def on_rdb_def Let_def w2_def split_beta split: if_splits)
  have "up Background r1" using ui.Conn_Register_keeps [OF u, of "Conns h" c cl ip ?d] g by simp
  then have us: "up Background (rdb (sw st))"
    using ui.RunLoop_keeps [of ?env Background w2 c "ready_channels (AppCTX h) es" "w_Flush wr"] rl w2 assms(1)
    by (simp add: stream_env_of_def)
  obtain y r2 where d: "rDel R Background (connKey cl ip) (rdb (sw st)) = (y, r2)" by force
  with del_up us obtain n where "y = Inr n" by (cases y) auto
  with d del_ok [of Background _ "rdb (sw st)" n r2] w' show "\<not> conn_taken ks (rdb w') cl ip"
    by (simp add: Delete_def conn_taken_def)
qed

text \<open>On a Redis that answers, a pending ticket is consumed, and the slot decides.\<close>

lemma stream_after_consume:
  assumes "RDB h = R" and "flusher" and "ctx_query c ''ticket'' \<noteq> []" and "ctx_vals c ClientIP = Some ip" and "ip \<noteq> []"
    and "fst (ValidateTicket (lib_jwt (Libs h)) (CfgAuth (Cfg h)) (ctx_query c ''ticket'') w) = Inr claims"
    and "cl_IP claims = ip" and "pending_ticket ks (rdb w) (cl_Subject claims) ip = Some (cl_ID claims)"
    and "up (rq_ctx (ctx_req c)) (rdb w)" and "0 \<le> ConnTTL (CfgSSE (Cfg h))"
  shows "(\<not> conn_taken ks (rdb w) (cl_Subject claims) ip \<longrightarrow> (\<exists>how. fst (V1SSEStreamEvents h flusher es c wr w) = Streamed how))
    \<and> (conn_taken ks (rdb w) (cl_Subject claims) ip \<longrightarrow>
        (\<exists>resp. fst (V1SSEStreamEvents h flusher es c wr w) = Refused (Ret resp) \<and> rs_status resp = 429)
        \<and> pending_ticket ks (rdb (snd (snd (V1SSEStreamEvents h flusher es c wr w)))) (cl_Subject claims) ip = None)"
proof -
  let ?c = "rq_ctx (ctx_req c)" and ?cl = "cl_Subject claims"
  obtain w1 where v: "ValidateTicket (lib_jwt (Libs h)) (CfgAuth (Cfg h)) (ctx_query c ''ticket'') w = (Inr claims, w1)"
    using assms(6) by (metis prod.collapse)
  then have r1: "rdb w1 = rdb w" by (auto simp: ValidateTicket_def time_now_def Let_def)
  have "str_or_none (ks (rdb w) (ticketKey ?cl ip))"
    using assms(8) by (cases "ks (rdb w) (ticketKey ?cl ip)") (auto simp: pending_ticket_def elim: str_at.elims)
  from ValidateAndConsume_up [OF assms(9) this, of "cl_ID claims"] obtain b r2 where
    t: "ValidateAndConsume R ?c ?cl ip (cl_ID claims) (rdb w) = (Inr b, r2)" and u2: "up ?c r2" by blast
  from consume_effect [OF t] assms(8) have b: "b" "ks r2 = (ks (rdb w))(ticketKey ?cl ip := None)" by auto
  from Conn_Register_up [OF u2 assms(10), of "Conns h" ?cl ip] obtain b' r3 where
    g: "Conn_Register R (Conns h) ?c ?cl ip (ConnTTL (CfgSSE (Cfg h))) r2 = (Inr b', r3)" by blast
  from Conn_Register_effect [OF g] b(2) have b': "b' \<longleftrightarrow> \<not> conn_taken ks (rdb w) ?cl ip" "\<not> b' \<longrightarrow> ks r3 = ks r2"
    by (auto simp: conn_taken_def)
  have "V1SSEStreamEvents h flusher es c wr w = run_stream h ?c ?cl ip es wr (w1\<lparr>rdb := r2\<rparr>)"
    using assms(1-5,7) v r1 t b(1) by (simp add: V1SSEStreamEvents_def on_rdb_def Let_def)
  with assms(1) g b b' show ?thesis
    by (auto simp: run_stream_def on_rdb_def Let_def split_beta pending_ticket_def)
qed

lemmas stream_opens = stream_after_consume [THEN conjunct1, rule_format]

end

section \<open>Properties\<close>

text \<open>
  C9: A stream is opened only for a ticket that carries a valid HMAC signature under \<open>ticket_secret\<close>, names
  the address the request comes from, and whose identifier is the pending one of its client and
  address, and only if that client and address have no other stream.
\<close>

theorem stream_needs_pending_ticket:
  assumes "jwt_laws (lib_jwt (Libs h)) signed_by" and "redis_laws (RDB h) ks up"
    and "V1SSEStreamEvents h flusher es c wr w = (Streamed how, wr', w')"
  shows "\<exists>claims ip. fst (ValidateTicket (lib_jwt (Libs h)) (CfgAuth (Cfg h)) (ctx_query c ''ticket'') w) = Inr claims
    \<and> (\<exists>alg. signed_by (HMAC alg) (TicketSecret (CfgAuth (Cfg h))) (ctx_query c ''ticket''))
    \<and> ctx_vals c ClientIP = Some ip \<and> cl_IP claims = ip
    \<and> pending_ticket ks (rdb w) (cl_Subject claims) ip = Some (cl_ID claims)
    \<and> \<not> conn_taken ks (rdb w) (cl_Subject claims) ip"
proof -
  from stream_passes_ticket [OF assms] obtain claims ip w2 where
    c: "fst (ValidateTicket (lib_jwt (Libs h)) (CfgAuth (Cfg h)) (ctx_query c ''ticket'') w) = Inr claims"
      "\<exists>alg. signed_by (HMAC alg) (TicketSecret (CfgAuth (Cfg h))) (ctx_query c ''ticket'')"
      "ctx_vals c ClientIP = Some ip" "ip = cl_IP claims" "pending_ticket ks (rdb w) (cl_Subject claims) ip = Some (cl_ID claims)"
    and k: "ks (rdb w2) = (ks (rdb w))(ticketKey (cl_Subject claims) ip := None)"
    and run: "run_stream h (rq_ctx (ctx_req c)) (cl_Subject claims) ip es wr w2 = (Streamed how, wr', w')" by metis
  from redis_laws.run_stream_slot(1) [OF assms(2) refl run] k have "\<not> conn_taken ks (rdb w) (cl_Subject claims) ip"
    by (simp add: conn_taken_def)
  with c show ?thesis by auto
qed

text \<open>A ticket of \<open>u1\<close> for the demo library, a Redis in which it is pending, and a request that presents it.\<close>

definition demo_ticket :: string where
  "demo_ticket = TicketSecret (CfgAuth default_config) @ sep # ''1.2.3.4'' @ sep # ''u1'' @ sep # Itoa 0 @ sep # Itoa second @ sep # ''j1''"

definition demo_claims :: TicketClaims where
  "demo_claims = \<lparr>cl_IP = ''1.2.3.4'', cl_Subject = ''u1'', cl_IssuedAt = Some 0, cl_ExpiresAt = Some second, cl_ID = ''j1''\<rparr>"

definition mem_pending :: mem where
  "mem_pending = \<lparr>entries = [(ticketKey ''u1'' ''1.2.3.4'', RStr ''j1'', None)], reachable = True\<rparr>"

definition demo_stream_ctx :: echo_ctx where
  "demo_stream_ctx = (demo_ctx [])\<lparr>ctx_query := (\<lambda>_. demo_ticket)\<rparr>"

lemma demo_stream_simps [simp]:
  "ctx_vals demo_stream_ctx ClientIP = Some ''1.2.3.4''" "ctx_query demo_stream_ctx k = demo_ticket" "demo_ticket \<noteq> []"
  "rq_ctx (ctx_req demo_stream_ctx) = ReqCtx" "cl_IP demo_claims = ''1.2.3.4''" "cl_Subject demo_claims = ''u1''" "cl_ID demo_claims = ''j1''"
  "pending_ticket mks mem_pending ''u1'' ''1.2.3.4'' = Some ''j1''" "\<not> conn_taken mks mem_pending ''u1'' ''1.2.3.4''" "mup ReqCtx mem_pending"
  "mup Background mem_pending" "0 \<le> ConnTTL (CfgSSE (Cfg demo_handlers))"
  by (simp_all add: demo_stream_ctx_def demo_ctx_def demo_ticket_def demo_claims_def pending_ticket_def conn_taken_def mem_pending_def
      mks_def mup_def ClientID_def ClientIP_def demo_handlers_def default_config_def second_def key_defs)

lemma demo_ticket_valid:
  "fst (ValidateTicket (lib_jwt (Libs demo_handlers)) (CfgAuth (Cfg demo_handlers)) demo_ticket (demo_state r)) = Inr demo_claims"
proof -
  have "demo_sign (TicketSecret (CfgAuth default_config)) demo_claims = Inr demo_ticket"
    by (simp add: demo_sign_def demo_claims_def demo_ticket_def line_free_def default_config_def second_def)
  then have "jParseTicket demo_jwt 0 demo_ticket (hmac_key (TicketSecret (CfgAuth default_config))) = Inr (demo_claims, True)"
    by (intro dj.parse_signed_ticket) (simp_all add: demo_jwt_def demo_claims_def second_def)
  then show ?thesis by (simp add: ValidateTicket_def time_now_def demo_handlers_def demo_libs_def)
qed

lemma demo_stream_opens:
  "\<exists>how. fst (V1SSEStreamEvents demo_handlers True es demo_stream_ctx wr (demo_state mem_pending)) = Streamed how"
  by (rule redis_laws.stream_opens [OF demo_redis refl, where claims = demo_claims and ip = "''1.2.3.4''"])
    (use demo_ticket_valid [of mem_pending] in simp_all)

theorem stream_needs_pending_ticket_witness:
  "\<exists>how wr' w'. V1SSEStreamEvents demo_handlers True [CtxDone] demo_stream_ctx demo_writer (demo_state mem_pending) = (Streamed how, wr', w')
     \<and> pending_ticket mks mem_pending ''u1'' ''1.2.3.4'' = Some ''j1''"
proof -
  obtain how wr' w' where r: "V1SSEStreamEvents demo_handlers True [CtxDone] demo_stream_ctx demo_writer (demo_state mem_pending) = (Streamed how, wr', w')"
    using demo_stream_opens [of "[CtxDone]" demo_writer] by (metis prod.collapse)
  from stream_needs_pending_ticket [OF demo_jwt_ok demo_redis r] r demo_ticket_valid [of mem_pending] show ?thesis by auto
qed

text \<open>
  C10: When a stream has ended, by return or by panic, on a Redis that answers the background context, the connection
  slot of its client and address is free again: the release uses that context, so it works after the client has gone. (A release
  that Redis does not answer is only logged, and the slot then stays taken until its lifetime ends.)
\<close>

theorem stream_slot_released:
  assumes "jwt_laws (lib_jwt (Libs h)) signed_by" and "redis_laws (RDB h) ks up"
    and "V1SSEStreamEvents h flusher es c wr w = (Streamed how, wr', w')" and "how \<noteq> Running" and "up Background (rdb w)"
  shows "\<exists>claims ip. fst (ValidateTicket (lib_jwt (Libs h)) (CfgAuth (Cfg h)) (ctx_query c ''ticket'') w) = Inr claims
    \<and> ctx_vals c ClientIP = Some ip \<and> \<not> conn_taken ks (rdb w') (cl_Subject claims) ip"
proof -
  from stream_passes_ticket [OF assms(1-3)] obtain claims ip w2 where
    c: "fst (ValidateTicket (lib_jwt (Libs h)) (CfgAuth (Cfg h)) (ctx_query c ''ticket'') w) = Inr claims" "ctx_vals c ClientIP = Some ip"
    and u: "\<forall>c'. up c' (rdb w) \<longrightarrow> up c' (rdb w2)"
    and run: "run_stream h (rq_ctx (ctx_req c)) (cl_Subject claims) ip es wr w2 = (Streamed how, wr', w')" by metis
  from redis_laws.run_stream_slot(2) [OF assms(2) refl run assms(4)] u assms(5) c show ?thesis by blast
qed

theorem stream_slot_released_witness:
  "\<exists>wr' w'. V1SSEStreamEvents demo_handlers True [CtxDone] demo_stream_ctx demo_writer (demo_state mem_pending) = (Streamed Returned, wr', w')
     \<and> \<not> conn_taken mks (rdb w') ''u1'' ''1.2.3.4''"
proof -
  obtain how wr' w' where r: "V1SSEStreamEvents demo_handlers True [CtxDone] demo_stream_ctx demo_writer (demo_state mem_pending) = (Streamed how, wr', w')"
    using demo_stream_opens [of "[CtxDone]" demo_writer] by (metis prod.collapse)
  obtain claims :: TicketClaims and ip w2 where run: "run_stream demo_handlers (rq_ctx (ctx_req demo_stream_ctx)) (cl_Subject claims) ip [CtxDone] demo_writer w2
      = (Streamed how, wr', w')"
    by (rule stream_passes_ticket [OF demo_jwt_ok demo_redis r]) blast
  have how: "how = Returned"
    by (rule run_stream_returns [OF run]) (simp_all add: demo_handlers_def default_config_def second_def)
  from stream_slot_released [OF demo_jwt_ok demo_redis r] how r demo_ticket_valid [of mem_pending] show ?thesis by auto
qed

text \<open>
  The gauge of active connections is balanced: whatever the ticket library, Redis and the connection do, a
  request leaves it as it was, except that it counts one more while the stream is running.
\<close>

theorem active_connections_balanced:
  assumes "V1SSEStreamEvents h flusher es c wr w = (res, wr', w')"
  shows "ActiveConnections (mtr w') = ActiveConnections (mtr w) + (if res = Streamed Running then 1 else 0)"
proof -
  let ?tok = "ctx_query c ''ticket''"
  obtain x w1 where v: "ValidateTicket (lib_jwt (Libs h)) (CfgAuth (Cfg h)) ?tok w = (x, w1)" by force
  then have m1: "mtr w1 = mtr w" by (auto simp: ValidateTicket_def time_now_def Let_def)
  show ?thesis
  proof (cases "flusher \<and> ?tok \<noteq> [] \<and> \<not> isl x \<and> ctx_vals c ClientIP = Some (cl_IP (projr x)) \<and> cl_IP (projr x) \<noteq> []")
    case False
    with assms v m1 show ?thesis
      by (cases x; cases "ctx_vals c ClientIP") (auto simp: V1SSEStreamEvents_def rejected_def Let_def split: if_splits)
  next
    case True
    then obtain claims where x: "x = Inr claims" "ctx_vals c ClientIP = Some (cl_IP claims)" by (cases x) auto
    obtain y w2 where t: "on_rdb (ValidateAndConsume (RDB h) (rq_ctx (ctx_req c)) (cl_Subject claims) (cl_IP claims) (cl_ID claims)) w1 = (y, w2)" by force
    then have "mtr w2 = mtr w" using m1 by (metis on_rdb_simps(4) snd_conv)
    moreover have "res = (case y of Inl _ \<Rightarrow> res | Inr b \<Rightarrow> res)" by (cases y) auto
    ultimately show ?thesis
      using assms v x True t run_stream_gauge [of h "rq_ctx (ctx_req c)" "cl_Subject claims" "cl_IP claims" es wr w2 res wr' w']
      by (cases "y = Inr True"; cases y) (auto simp: V1SSEStreamEvents_def rejected_def Let_def split: bool.splits)
  qed
qed

theorem active_connections_balanced_witness:
  "ActiveConnections (mtr (snd (snd (V1SSEStreamEvents demo_handlers True [CtxDone] demo_stream_ctx demo_writer (demo_state mem0))))) \<le> 1"
  using active_connections_balanced [of demo_handlers True "[CtxDone]" demo_stream_ctx demo_writer "demo_state mem0"]
  by (cases "V1SSEStreamEvents demo_handlers True [CtxDone] demo_stream_ctx demo_writer (demo_state mem0)")
    (simp add: demo_state_def zero_metrics_def)

text \<open>
  A request from another address than the ticket's is refused with 403 before Redis is asked, so a
  stolen ticket is neither usable nor lost to its owner.
\<close>

theorem wrong_address_keeps_ticket:
  assumes "fst (ValidateTicket (lib_jwt (Libs h)) (CfgAuth (Cfg h)) (ctx_query c ''ticket'') w) = Inr claims"
    and "ctx_vals c ClientIP = Some ip" and "ip \<noteq> []" and "ip \<noteq> cl_IP claims" and "flusher" and "ctx_query c ''ticket'' \<noteq> []"
    and "V1SSEStreamEvents h flusher es c wr w = (res, wr', w')"
  shows "res = Refused (Ret access_denied) \<and> rdb w' = rdb w \<and> wr' = wr"
proof -
  obtain w1 where v: "ValidateTicket (lib_jwt (Libs h)) (CfgAuth (Cfg h)) (ctx_query c ''ticket'') w = (Inr claims, w1)"
    using assms(1) by (metis prod.collapse)
  then have "rdb w1 = rdb w" by (auto simp: ValidateTicket_def time_now_def Let_def)
  with v assms show ?thesis by (auto simp: V1SSEStreamEvents_def Let_def)
qed

theorem wrong_address_keeps_ticket_witness:
  "\<exists>w. V1SSEStreamEvents demo_handlers True [] (demo_stream_ctx\<lparr>ctx_vals := [ClientIP \<mapsto> ''6.6.6.6'']\<rparr>) demo_writer (demo_state mem_pending)
     = (Refused (Ret access_denied), demo_writer, w) \<and> pending_ticket mks (rdb w) ''u1'' ''1.2.3.4'' = Some ''j1''"
proof -
  let ?c = "demo_stream_ctx\<lparr>ctx_vals := [ClientIP \<mapsto> ''6.6.6.6'']\<rparr>"
  obtain res wr w where r: "V1SSEStreamEvents demo_handlers True [] ?c demo_writer (demo_state mem_pending) = (res, wr, w)" by (metis prod.collapse)
  have "res = Refused (Ret access_denied) \<and> rdb w = rdb (demo_state mem_pending) \<and> wr = demo_writer"
    by (rule wrong_address_keeps_ticket [OF _ _ _ _ _ _ r, where claims = demo_claims and ip = "''6.6.6.6''"])
      (use demo_ticket_valid [of mem_pending] in simp_all)
  with r show ?thesis by simp
qed

text \<open>
  The ticket is consumed before the connection slot is claimed: on a Redis that answers, a request for which a
  stream already exists is refused with 429 and its ticket is gone all the same.
\<close>

theorem duplicate_connection_burns_ticket:
  assumes "redis_laws (RDB h) ks up" and "flusher" and "ctx_query c ''ticket'' \<noteq> []" and "ctx_vals c ClientIP = Some ip" and "ip \<noteq> []"
    and "fst (ValidateTicket (lib_jwt (Libs h)) (CfgAuth (Cfg h)) (ctx_query c ''ticket'') w) = Inr claims"
    and "cl_IP claims = ip" and "pending_ticket ks (rdb w) (cl_Subject claims) ip = Some (cl_ID claims)"
    and "up (rq_ctx (ctx_req c)) (rdb w)" and "conn_taken ks (rdb w) (cl_Subject claims) ip" and "0 \<le> ConnTTL (CfgSSE (Cfg h))"
    and "V1SSEStreamEvents h flusher es c wr w = (res, wr', w')"
  shows "\<exists>resp. res = Refused (Ret resp) \<and> rs_status resp = 429 \<and> pending_ticket ks (rdb w') (cl_Subject claims) ip = None"
  using redis_laws.stream_after_consume [OF assms(1) refl assms(2-9,11), of es wr] assms(10,12) by auto

theorem duplicate_connection_burns_ticket_witness:
  "\<exists>resp wr w. V1SSEStreamEvents demo_handlers True [] demo_stream_ctx demo_writer
        (demo_state (mput (connKey ''u1'' ''1.2.3.4'') (RStr ''i2'', None) mem_pending)) = (Refused (Ret resp), wr, w)
     \<and> rs_status resp = 429 \<and> pending_ticket mks (rdb w) ''u1'' ''1.2.3.4'' = None"
proof -
  let ?r = "mput (connKey ''u1'' ''1.2.3.4'') (RStr ''i2'', None) mem_pending"
  obtain res wr w where r: "V1SSEStreamEvents demo_handlers True [] demo_stream_ctx demo_writer (demo_state ?r) = (res, wr, w)" by (metis prod.collapse)
  have p: "pending_ticket mks ?r ''u1'' ''1.2.3.4'' = Some ''j1''" "conn_taken mks ?r ''u1'' ''1.2.3.4''" "mup ReqCtx ?r"
    by (simp_all add: pending_ticket_def conn_taken_def mup_def) (simp_all add: mem_pending_def mks_def)
  have "\<exists>resp. res = Refused (Ret resp) \<and> rs_status resp = 429 \<and> pending_ticket mks (rdb w) (cl_Subject demo_claims) ''1.2.3.4'' = None"
    by (rule duplicate_connection_burns_ticket [OF demo_redis _ _ _ _ _ _ _ _ _ _ r, where claims = demo_claims])
      (use demo_ticket_valid [of ?r] p in simp_all)
  with r show ?thesis by auto
qed

end
