(* ===== verification/Server.thy ===== *)
theory Server
  imports Event_Handlers Ack_Handler Stream_Handler
begin

text \<open>
  The HTTP server (\<open>internal/http/server.go\<close>): its settings and its route table, with the middleware in
  front of each handler. Which route a request matches is echo's business; the model starts from a route
  and a fresh context, in which no middleware has set a value yet. Of \<open>Serve\<close>, which starts the listeners, it keeps what is logged.
\<close>

section \<open>Operations\<close>

datatype endpoint = EHealthz | ETicket | EInsert | EAck | EPoll | EStream

datatype guard = NoGuard | TokenGuard | IPGuard

record route =
  rt_method :: string
  rt_path :: string
  rt_guard :: guard
  rt_handler :: endpoint

record server =
  srv_Addr :: string
  srv_MinVersion :: string
  srv_ReadTimeout :: duration
  srv_IdleTimeout :: duration
  srv_metricsAddr :: string
  srv_routes :: "route list"

definition NewServer :: "config \<Rightarrow> server" where
  "NewServer cfg =
     \<lparr>srv_Addr = '':'' @ Itoa (Port (CfgServer cfg)), srv_MinVersion = ''TLS12'',
      srv_ReadTimeout = ReadTimeout (CfgServer cfg), srv_IdleTimeout = IdleTimeout (CfgServer cfg),
      srv_metricsAddr = '':'' @ Itoa (MetricsPort (CfgObservability cfg)),
      srv_routes =
        [\<lparr>rt_method = ''GET'', rt_path = ''/healthz'', rt_guard = NoGuard, rt_handler = EHealthz\<rparr>,
         \<lparr>rt_method = ''POST'', rt_path = ''/v1/auth/ticket'', rt_guard = TokenGuard, rt_handler = ETicket\<rparr>,
         \<lparr>rt_method = ''POST'', rt_path = ''/v1/events/:client_id'', rt_guard = TokenGuard, rt_handler = EInsert\<rparr>,
         \<lparr>rt_method = ''POST'', rt_path = ''/v1/ack'', rt_guard = TokenGuard, rt_handler = EAck\<rparr>,
         \<lparr>rt_method = ''GET'', rt_path = ''/v1/events/:client_id'', rt_guard = IPGuard, rt_handler = EPoll\<rparr>,
         \<lparr>rt_method = ''GET'', rt_path = ''/v1/stream/events'', rt_guard = IPGuard, rt_handler = EStream\<rparr>]\<rparr>"

text \<open>The connection of a stream request: its writer, whether it can flush, and the loop's ready channels.\<close>

record stream_io =
  io_flusher :: bool
  io_ready :: "select list"
  io_writer :: respw

definition sse_headers :: "(string \<times> string) list" where
  "sse_headers = [(''Content-Type'', ''text/event-stream''), (''Cache-Control'', ''no-cache''),
     (''Connection'', ''keep-alive''), (''X-Accel-Buffering'', ''no'')]"

fun stream_response :: "stream_result \<Rightarrow> response outcome" where
  "stream_response (Refused r) = r"
| "stream_response (Streamed _) = Ret \<lparr>rs_status = StatusOK, rs_headers = sse_headers, rs_body = StatusBody []\<rparr>"

fun run_endpoint :: "('r, 'n) HTTPHandlers \<Rightarrow> (go_error \<Rightarrow> string) \<Rightarrow> stream_io \<Rightarrow> endpoint \<Rightarrow> ('r, 'n) handler" where
  "run_endpoint h text io EHealthz c w = Healthz h text c w"
| "run_endpoint h text io ETicket c w = V1AuthTicket h c w"
| "run_endpoint h text io EInsert c w = V1InsertEvent h c w"
| "run_endpoint h text io EAck c w = V1AckEvent h c w"
| "run_endpoint h text io EPoll c w = V1Poll h c w"
| "run_endpoint h text io EStream c w =
     (case V1SSEStreamEvents h (io_flusher io) (io_ready io) c (io_writer io) w of (x, _, w') \<Rightarrow> (stream_response x, w'))"

fun guarded_by :: "('r, 'n) HTTPHandlers \<Rightarrow> guard \<Rightarrow> ('r, 'n) handler \<Rightarrow> ('r, 'n) handler" where
  "guarded_by h NoGuard next = next"
| "guarded_by h TokenGuard next = TokenMiddleware (Libs h) (CfgAuth (Cfg h)) next"
| "guarded_by h IPGuard next = IPMiddleware (Libs h) next"

definition serve_route :: "('r, 'n) HTTPHandlers \<Rightarrow> (go_error \<Rightarrow> string) \<Rightarrow> stream_io \<Rightarrow> route \<Rightarrow> ('r, 'n) handler" where
  "serve_route h text io r = guarded_by h (rt_guard r) (run_endpoint h text io (rt_handler r))"

text \<open>
  \<open>Serve\<close>: each of two goroutines logs that it listens and, unless its listener was closed by a shutdown, the error it
  ends with; the arguments are what the two listeners return. The lines of one may stand anywhere between those of the other.
\<close>

fun errors_Is :: "go_error \<Rightarrow> go_error \<Rightarrow> bool" where
  "errors_Is (Wrap s e) target \<longleftrightarrow> Wrap s e = target \<or> errors_Is e target"
| "errors_Is e target \<longleftrightarrow> e = target"

definition ErrServerClosed :: go_error where
  "ErrServerClosed = Err ''http: Server closed''"

definition goroutine_log :: "string \<Rightarrow> string \<Rightarrow> go_error option \<Rightarrow> string list" where
  "goroutine_log starting failed result = starting # (case result of
     None \<Rightarrow> [] | Some e \<Rightarrow> if errors_Is e ErrServerClosed then [] else [failed])"

definition Serve :: "go_error option \<Rightarrow> go_error option \<Rightarrow> string list set" where
  "Serve metricsErr mainErr =
     shuffles (goroutine_log ''metrics server starting'' ''metrics server error'' metricsErr)
              (goroutine_log ''scorpion listening'' ''server error'' mainErr)"

text \<open>\<open>Shutdown\<close> stops the metrics server first and returns the error of the main server.\<close>

definition Shutdown :: "('s \<Rightarrow> go_error option \<times> 's) \<Rightarrow> ('s \<Rightarrow> go_error option \<times> 's) \<Rightarrow> 's \<Rightarrow> go_error option \<times> 's" where
  "Shutdown metricsSrv mainSrv s = mainSrv (snd (metricsSrv s))"

section \<open>Lemmas\<close>

text \<open>Listeners that are shut down leave no error in the log; any other error of a listener is there.\<close>

lemma errors_Is_refl [simp]: "errors_Is e e"
  by (cases e) simp_all

lemma Serve_errors:
  assumes "ls \<in> Serve metricsErr mainErr"
  shows "''server error'' \<in> set ls \<longleftrightarrow> (\<exists>e. mainErr = Some e \<and> \<not> errors_Is e ErrServerClosed)"
    and "''metrics server error'' \<in> set ls \<longleftrightarrow> (\<exists>e. metricsErr = Some e \<and> \<not> errors_Is e ErrServerClosed)"
  using assms set_shuffles [of ls] by (auto simp: Serve_def goroutine_log_def split: option.splits if_splits)

lemma ctx_Set_vals [simp]:
  "ctx_vals (ctx_Set k v c) = (ctx_vals c)(k \<mapsto> v)" "ctx_params (ctx_Set k v c) = ctx_params c"
  "ctx_req (ctx_Set k v c) = ctx_req c" "ctx_query (ctx_Set k v c) = ctx_query c"
  by (simp_all add: ctx_Set_def)

lemma ClientID_ClientIP [simp]: "ClientID \<noteq> ClientIP" "ClientIP \<noteq> ClientID"
  by (simp_all add: ClientID_def ClientIP_def)

lemma poll_refused:
  assumes "ctx_vals c ClientID = None"
  shows "status_of (fst (V1Poll h c w)) \<in> {400, 403} \<and> snd (V1Poll h c w) = w"
  using assms by (cases "ctx_params c ''client_id'' = []") (simp_all add: V1Poll_def get_ok_def Let_def)

lemma poll_no_panic: "fst (V1Poll h c w) \<noteq> Panic"
  by (simp add: V1Poll_def Let_def split: prod.split sum.split)

lemma health_no_panic: "fst (Healthz h text c w) \<noteq> Panic"
  by (simp add: Healthz_def split: prod.split sum.split)

lemma insert_no_panic: "fst (V1InsertEvent h c w) \<noteq> Panic"
  by (simp add: V1InsertEvent_def Let_def split: prod.split sum.split option.split)

lemma ack_publish_no_panic: "fst (ack_publish h c start req w) \<noteq> Panic"
  by (simp add: ack_publish_def Let_def split: prod.split sum.split)

lemma ack_no_panic: "fst (V1AckEvent h c w) \<noteq> Panic"
  by (simp add: V1AckEvent_def ack_publish_no_panic Let_def split: prod.split sum.split option.split)

lemma ticket_no_panic:
  assumes "ctx_vals c ClientIP = Some ip" and "ctx_vals c ClientID = Some cl"
  shows "fst (V1AuthTicket h c w) \<noteq> Panic"
  using assms by (simp add: V1AuthTicket_def issue_ticket_def Let_def split: prod.split sum.split option.split)

lemma run_stream_no_panic: "fst (run_stream h c cl ip es wr w) \<noteq> Refused Panic"
  by (auto simp: run_stream_def Let_def split: prod.split sum.split bool.split)

lemma stream_no_panic:
  assumes "ctx_vals c ClientIP = Some ip"
  shows "fst (V1SSEStreamEvents h flusher es c wr w) \<noteq> Refused Panic"
  using assms by (auto simp: run_stream_no_panic V1SSEStreamEvents_def Let_def split: prod.split sum.split bool.split)

lemmas no_panics = poll_no_panic health_no_panic insert_no_panic ack_no_panic ticket_no_panic

lemma stream_response_Panic [simp]: "stream_response x = Panic \<longleftrightarrow> x = Refused Panic"
  by (cases x) auto

section \<open>Properties\<close>

text \<open>
  C28: Every route that issues tickets, inserts events or takes acknowledgements is behind the token check: a
  request without a bearer token signed under \<open>token_secret\<close> is answered with 401 (or 500) and neither Redis
  nor NATS is touched.
\<close>

theorem unauthenticated_refused:
  assumes "jwt_laws (lib_jwt (Libs h)) signed_by" and "r \<in> set (srv_routes (NewServer cfg))"
    and "rt_handler r \<in> {ETicket, EInsert, EAck}" and "\<not> authenticated (Libs h) (CfgAuth (Cfg h)) signed_by c"
    and "serve_route h text io r c w = (res, w')"
  shows "status_of res \<in> {401, 500} \<and> rdb w' = rdb w \<and> nats w' = nats w"
proof -
  have "rt_guard r = TokenGuard" using assms(2,3) by (auto simp: NewServer_def)
  with assms(5) have t: "TokenMiddleware (Libs h) (CfgAuth (Cfg h)) (run_endpoint h text io (rt_handler r)) c w = (res, w')"
    by (simp add: serve_route_def)
  show ?thesis
    by (rule TokenMiddleware_cases [OF assms(1), of "CfgAuth (Cfg h)" "run_endpoint h text io (rt_handler r)" c w])
      (use t assms(4) in auto)
qed

definition demo_io :: stream_io where "demo_io = \<lparr>io_flusher = True, io_ready = [CtxDone], io_writer = demo_writer\<rparr>"

text \<open>A request as it arrives, before any middleware.\<close>

definition fresh_ctx :: "string \<Rightarrow> echo_ctx" where "fresh_ctx b = (demo_ctx b)\<lparr>ctx_vals := Map.empty\<rparr>"

theorem unauthenticated_refused_witness:
  "\<exists>res w. serve_route demo_handlers (\<lambda>_. []) demo_io \<lparr>rt_method = ''POST'', rt_path = ''/v1/ack'', rt_guard = TokenGuard, rt_handler = EAck\<rparr>
      (fresh_ctx []) (demo_state mem0) = (res, w) \<and> status_of res \<in> {401, 500} \<and> rdb w = mem0"
proof -
  let ?r = "\<lparr>rt_method = ''POST'', rt_path = ''/v1/ack'', rt_guard = TokenGuard, rt_handler = EAck\<rparr>"
  obtain res w where r: "serve_route demo_handlers (\<lambda>_. []) demo_io ?r (fresh_ctx []) (demo_state mem0) = (res, w)" by force
  have "\<not> authenticated (Libs demo_handlers) (CfgAuth (Cfg demo_handlers)) demo_signed (fresh_ctx [])"
    by (simp add: authenticated_def header_get_def fresh_ctx_def demo_ctx_def)
  from unauthenticated_refused [OF demo_jwt_ok _ _ this r, of default_config] r show ?thesis by (auto simp: NewServer_def)
qed

text \<open>
  C36: The poll route can never succeed: it is registered behind the address middleware only, which does not
  set the client identity the handler compares with, so whatever token the request carries it is answered
  with 400, 403 or 500 and Redis is untouched.
\<close>

theorem poll_route_never_succeeds:
  assumes "r \<in> set (srv_routes (NewServer cfg))" and "rt_handler r = EPoll" and "ctx_vals c = Map.empty"
    and "serve_route h text io r c w = (res, w')"
  shows "status_of res \<in> {400, 403, 500} \<and> rdb w' = rdb w"
proof -
  have "rt_guard r = IPGuard" using assms(1,2) by (auto simp: NewServer_def)
  with assms(2,4) have i: "IPMiddleware (Libs h) (run_endpoint h text io EPoll) c w = (res, w')" by (simp add: serve_route_def)
  show ?thesis
  proof (rule IPMiddleware_cases [of "Libs h" "run_endpoint h text io EPoll" c w])
    fix ip
    assume "IPMiddleware (Libs h) (run_endpoint h text io EPoll) c w = run_endpoint h text io EPoll (ctx_Set ClientIP ip c) w"
    with i assms(3) poll_refused [of "ctx_Set ClientIP ip c" h w] show ?thesis by auto
  qed (use i in auto)
qed

theorem poll_route_never_succeeds_witness:
  "\<exists>res w. serve_route demo_handlers (\<lambda>_. []) demo_io \<lparr>rt_method = ''GET'', rt_path = ''/v1/events/:client_id'', rt_guard = IPGuard, rt_handler = EPoll\<rparr>
      (fresh_ctx []) (demo_state mem3) = (res, w) \<and> status_of res \<noteq> 200"
proof -
  let ?r = "\<lparr>rt_method = ''GET'', rt_path = ''/v1/events/:client_id'', rt_guard = IPGuard, rt_handler = EPoll\<rparr>"
  obtain res w where r: "serve_route demo_handlers (\<lambda>_. []) demo_io ?r (fresh_ctx []) (demo_state mem3) = (res, w)" by force
  from poll_route_never_succeeds [OF _ _ _ r, of default_config] r show ?thesis by (auto simp: NewServer_def fresh_ctx_def)
qed

text \<open>
  C32: No route panics before it answers: the unchecked type assertions of the ticket and the stream handler are
  safe because the middleware in front of each has set the values they read.
\<close>

theorem routes_never_panic:
  fixes h :: "('a, 'b) HTTPHandlers"
  assumes "r \<in> set (srv_routes (NewServer cfg))"
  shows "fst (serve_route h text io r c w) \<noteq> Panic"
proof -
  have token: "fst (TokenMiddleware (Libs h) (CfgAuth (Cfg h)) f c w) \<noteq> Panic"
    if "\<And>cl ip. fst (f (ctx_Set ClientIP ip (ctx_Set ClientID cl c)) (snd (time_now w))) \<noteq> Panic" for f :: "('a, 'b) handler"
    using that by (auto simp: TokenMiddleware_def ValidateRealToken_def time_now_def Let_def split: sum.splits prod.splits)
  have ip: "fst (IPMiddleware (Libs h) f c w) \<noteq> Panic"
    if "\<And>ip. fst (f (ctx_Set ClientIP ip c) w) \<noteq> Panic" for f :: "('a, 'b) handler"
    using that by (simp add: IPMiddleware_def Let_def)
  from assms consider "rt_guard r = NoGuard \<and> rt_handler r = EHealthz"
    | "rt_guard r = TokenGuard \<and> rt_handler r \<in> {ETicket, EInsert, EAck}"
    | "rt_guard r = IPGuard \<and> rt_handler r \<in> {EPoll, EStream}" by (auto simp: NewServer_def)
  then show ?thesis
  proof cases
    case 1
    then show ?thesis by (simp add: serve_route_def health_no_panic)
  next
    case 2
    then show ?thesis by (auto simp: serve_route_def no_panics intro!: token)
  next
    case 3
    then show ?thesis by (auto simp: serve_route_def no_panics stream_no_panic split_beta intro!: ip)
  qed
qed

theorem routes_never_panic_witness:
  "fst (serve_route demo_handlers (\<lambda>_. []) demo_io \<lparr>rt_method = ''POST'', rt_path = ''/v1/auth/ticket'', rt_guard = TokenGuard, rt_handler = ETicket\<rparr>
     (fresh_ctx []) (demo_state mem0)) \<noteq> Panic"
  by (rule routes_never_panic [of _ default_config]) (simp add: NewServer_def)

end
