(* ===== verification/Observability.thy ===== *)
theory Observability
  imports World Config
begin

text \<open>
  Logger construction (\<open>internal/log/log.go\<close>), the tracing layer (\<open>internal/telemetry/tracer.go\<close>) and the
  instrumented Redis client (\<open>internal/app/redis.go\<close>). A log is the list of the lines written; the slog
  handlers format them, which is not modelled.
\<close>

section \<open>Logging\<close>

datatype slog_level = LevelDebug | LevelInfo | LevelWarn | LevelError

fun level_num :: "slog_level \<Rightarrow> int" where
  "level_num LevelDebug = - 4" | "level_num LevelInfo = 0" | "level_num LevelWarn = 4" | "level_num LevelError = 8"

record logger =
  lg_level :: slog_level
  lg_text :: bool
  lg_addSource :: bool

definition NewLogger :: "observability_cfg \<Rightarrow> logger" where
  "NewLogger cfg =
     \<lparr>lg_level = (if LogLevel cfg = ''debug'' then LevelDebug else if LogLevel cfg = ''warn'' then LevelWarn
        else if LogLevel cfg = ''error'' then LevelError else LevelInfo),
      lg_text = (LogFormat cfg = ''text''), lg_addSource = True\<rparr>"

type_synonym log_line = "slog_level \<times> string \<times> (string \<times> string) list"

text \<open>A line below the logger's level is dropped.\<close>

definition log_at :: "logger \<Rightarrow> slog_level \<Rightarrow> string \<Rightarrow> (string \<times> string) list \<Rightarrow> log_line list \<Rightarrow> log_line list" where
  "log_at l lvl msg args out = (if level_num (lg_level l) \<le> level_num lvl then out @ [(lvl, msg, args)] else out)"

section \<open>Tracing\<close>

type_synonym Attr = "string \<times> string"

definition StringAttr :: "string \<Rightarrow> string \<Rightarrow> Attr" where "StringAttr key val = (key, val)"

datatype tracer = NoopTracer | LogTracer logger

datatype span = NoopSpan | LogSpan string time "Attr list" logger

fun tracer_Start :: "tracer \<Rightarrow> go_context \<Rightarrow> string \<Rightarrow> Attr list \<Rightarrow> time \<Rightarrow> go_context \<times> span" where
  "tracer_Start NoopTracer c name attrs now = (c, NoopSpan)"
| "tracer_Start (LogTracer l) c name attrs now = (c, LogSpan name now attrs l)"

fun span_End :: "span \<Rightarrow> time \<Rightarrow> log_line list \<Rightarrow> log_line list" where
  "span_End NoopSpan now out = out"
| "span_End (LogSpan name start attrs l) now out =
     log_at l LevelDebug ''span'' ([(''span'', name), (''duration_ms'', Itoa (sgn (now - start) * (\<bar>now - start\<bar> div millisecond)))] @ attrs) out"

fun span_SetError :: "span \<Rightarrow> string option \<Rightarrow> log_line list \<Rightarrow> log_line list" where
  "span_SetError NoopSpan err out = out"
| "span_SetError (LogSpan name start attrs l) None out = out"
| "span_SetError (LogSpan name start attrs l) (Some err) out =
     log_at l LevelDebug ''span error'' [(''span'', name), (''error'', err)] out"

definition InitTracer :: "observability_cfg \<Rightarrow> logger \<Rightarrow> tracer" where
  "InitTracer cfg l = (if \<not> TracingEnabled cfg then NoopTracer else LogTracer l)"

section \<open>The instrumented Redis client\<close>

record redis_options =
  opt_Addr :: string
  opt_Password :: string
  opt_DB :: int
  opt_MaxRetries :: int
  opt_MinRetryBackoff :: duration
  opt_MaxRetryBackoff :: duration
  opt_PoolSize :: int
  opt_MinIdleConns :: int

text \<open>The latency hook around one command, and around a pipeline.\<close>

definition ProcessHook :: "string \<Rightarrow> ('r \<Rightarrow> 'a \<times> 'r) \<Rightarrow> ('r, 'n) world \<Rightarrow> 'a \<times> ('r, 'n) world" where
  "ProcessHook name next w =
     (let (start, w1) = time_now w; (x, w2) = on_rdb next w1; (ended, w3) = time_now w2
      in (x, count (\<lambda>m. m\<lparr>RedisLatencySeconds := observe_at [name] (ended - start) (RedisLatencySeconds m)\<rparr>) w3))"

definition ProcessPipelineHook :: "('r \<Rightarrow> 'a \<times> 'r) \<Rightarrow> ('r, 'n) world \<Rightarrow> 'a \<times> ('r, 'n) world" where
  "ProcessPipelineHook next w = ProcessHook ''pipeline'' next w"

definition NewClient :: "'r redis \<Rightarrow> redis_cfg \<Rightarrow> bool \<Rightarrow> ('r, 'n) world \<Rightarrow> (go_error + redis_options) \<times> ('r, 'n) world" where
  "NewClient R cfg instrumented w =
     (let opts = \<lparr>opt_Addr = Address cfg, opt_Password = Password cfg, opt_DB = DB cfg, opt_MaxRetries = RedisMaxRetries cfg,
                  opt_MinRetryBackoff = 8 * millisecond, opt_MaxRetryBackoff = 512 * millisecond,
                  opt_PoolSize = PoolSize cfg, opt_MinIdleConns = MinIdleConns cfg\<rparr>;
          (x, w1) = (if instrumented then ProcessHook ''ping'' (rPing R Background) w else on_rdb (rPing R Background) w)
      in case x of
           Inl e \<Rightarrow> (Inl (Wrap ''failed to connect to repository'' e), w1)
         | Inr _ \<Rightarrow> (Inr opts, w1))"

section \<open>Properties\<close>

text \<open>
  The latency hook is transparent: an instrumented command returns the same result and leaves the same Redis
  state as the plain one, and adds exactly one observation, to the histogram of its own name.
\<close>

theorem latency_hook_transparent:
  "fst (ProcessHook name f w) = fst (f (rdb w)) \<and> rdb (snd (ProcessHook name f w)) = snd (f (rdb w))
   \<and> (\<exists>d. mtr (snd (ProcessHook name f w)) = (mtr w)\<lparr>RedisLatencySeconds := observe_at [name] d (RedisLatencySeconds (mtr w))\<rparr>)"
  by (auto simp: ProcessHook_def time_now_def on_rdb_def split_beta)

text \<open>
  A finished span is written to the log exactly when tracing is enabled and the log level is \<open>debug\<close>;
  enabling tracing alone, at the default level, produces no spans at all.
\<close>

theorem spans_need_debug_level:
  "span_End (snd (tracer_Start (InitTracer cfg (NewLogger cfg)) c name attrs t)) t' out \<noteq> out
     \<longleftrightarrow> TracingEnabled cfg \<and> LogLevel cfg = ''debug''"
  by (auto simp: InitTracer_def NewLogger_def log_at_def)

end
