(* ===== verification/Net_Cidr.thy ===== *)
theory Net_Cidr
  imports Prelude
begin

text \<open>
  Address ranges: \<open>net.ParseCIDR\<close>, which \<open>internal/app/ip.go\<close> reads the trusted ranges with, and \<open>IPNet.Contains\<close>, which
  says what such a range trusts, on addresses as lists of bytes. An IPv4 address may also be written as an IPv4-mapped one
  of sixteen bytes; both functions bring it to four. A range contains the addresses that share its first bits.
\<close>

unbundle bit_operations_syntax

type_synonym byte = "8 word"

section \<open>Addresses\<close>

text \<open>\<open>netip.Addr\<close> without a zone; an address with one is refused by \<open>ParseCIDR\<close>.\<close>

datatype addr = V4 "byte list" | V6 "byte list"

text \<open>A field of a dotted address: decimal, without a leading zero, at most 255.\<close>

definition parse_octet :: "string \<Rightarrow> byte option" where
  "parse_octet f =
     (if f \<noteq> [] \<and> list_all is_digit f \<and> (f = ''0'' \<or> hd f \<noteq> CHR ''0'') \<and> digits_val f \<le> 255
      then Some (of_nat (digits_val f)) else None)"

fun all_some :: "'a option list \<Rightarrow> 'a list option" where
  "all_some [] = Some []"
| "all_some (None # _) = None"
| "all_some (Some x # xs) = map_option (Cons x) (all_some xs)"

definition parse_ipv4 :: "string \<Rightarrow> byte list option" where
  "parse_ipv4 s = (let fs = split_on (CHR ''.'') s in if length fs = 4 then all_some (map parse_octet fs) else None)"

definition hex_digit_val :: "char \<Rightarrow> nat option" where
  "hex_digit_val c = (let n = of_char c :: nat in
     if 0x30 \<le> n \<and> n \<le> 0x39 then Some (n - 0x30) else if 0x61 \<le> n \<and> n \<le> 0x66 then Some (n - 0x57)
     else if 0x41 \<le> n \<and> n \<le> 0x46 then Some (n - 0x37) else None)"

definition is_hex :: "char \<Rightarrow> bool" where "is_hex c \<longleftrightarrow> hex_digit_val c \<noteq> None"

definition hex_number :: "string \<Rightarrow> nat" where
  "hex_number s = foldl (\<lambda>acc c. acc * 16 + the (hex_digit_val c)) 0 s"

text \<open>
  The loop of \<open>parseIPv6\<close>: the bytes so far, where the ellipsis was seen, the text that is left. Its result has the bytes and
  the ellipsis.
\<close>

function parse_groups :: "byte list \<Rightarrow> nat option \<Rightarrow> string \<Rightarrow> (byte list \<times> nat option) option" where
  "parse_groups ip ell s =
     (if 16 \<le> length ip then (if s = [] then Some (ip, ell) else None)
      else let g = takeWhile is_hex s; rest = dropWhile is_hex s
        in if g = [] \<or> 4 < length g then None
           else if rest \<noteq> [] \<and> hd rest = CHR ''.'' then
             (if ell = None \<and> length ip \<noteq> 12 then None
              else if 16 < length ip + 4 then None
              else map_option (\<lambda>bs. (ip @ bs, ell)) (parse_ipv4 s))
           else let ip' = ip @ [of_nat (hex_number g div 256), of_nat (hex_number g mod 256)]
             in case rest of
                  [] \<Rightarrow> Some (ip', ell)
                | c # s1 \<Rightarrow>
                    if c \<noteq> CHR '':'' \<or> s1 = [] then None
                    else if hd s1 = CHR '':'' then
                      (if ell \<noteq> None then None
                       else if tl s1 = [] then Some (ip', Some (length ip'))
                       else parse_groups ip' (Some (length ip')) (tl s1))
                    else parse_groups ip' ell s1)"
  by pat_completeness auto
termination
proof (relation "measure (\<lambda>(_, _, s). length s)", goal_cases)
  case (2 ip ell s g rest ip' c s1)
  have "length (dropWhile is_hex s) \<le> length s" by (rule length_dropWhile_le)
  moreover have "length (dropWhile is_hex s) = Suc (length s1)" using 2 by (metis length_Cons)
  ultimately show ?case by simp
next
  case (3 ip ell s g rest ip' c s1)
  have "length (dropWhile is_hex s) \<le> length s" by (rule length_dropWhile_le)
  moreover have "length (dropWhile is_hex s) = Suc (length s1)" using 3 by (metis length_Cons)
  ultimately show ?case by simp
qed simp

declare parse_groups.simps [simp del]

definition expand :: "byte list \<times> nat option \<Rightarrow> byte list option" where
  "expand r = (case r of (ip, ell) \<Rightarrow>
     if length ip < 16 then map_option (\<lambda>e. take e ip @ replicate (16 - length ip) 0 @ drop e ip) ell
     else if ell = None then Some ip else None)"

definition parse_ipv6 :: "string \<Rightarrow> byte list option" where
  "parse_ipv6 s =
     (if take 2 s = ''::'' then
        (if drop 2 s = [] then Some (replicate 16 0) else Option.bind (parse_groups [] (Some 0) (drop 2 s)) expand)
      else Option.bind (parse_groups [] None s) expand)"

text \<open>\<open>netip.ParseAddr\<close>: the first point or colon decides.\<close>

definition ParseAddr :: "string \<Rightarrow> addr option" where
  "ParseAddr s =
     (if CHR ''%'' \<in> set s then None
      else case dropWhile (\<lambda>c. c \<noteq> CHR ''.'' \<and> c \<noteq> CHR '':'') s of
        [] \<Rightarrow> None
      | c # _ \<Rightarrow> if c = CHR ''.'' then map_option V4 (parse_ipv4 s) else map_option V6 (parse_ipv6 s))"

section \<open>Ranges\<close>

record ip_net =
  net_IP :: "byte list"
  net_Mask :: "byte list"

definition full_byte :: byte where "full_byte = 0xFF"

fun CIDRMask :: "nat \<Rightarrow> nat \<Rightarrow> byte list" where
  "CIDRMask ones 0 = []"
| "CIDRMask ones (Suc l) =
     (if 8 \<le> ones then full_byte # CIDRMask (ones - 8) l else NOT (drop_bit ones full_byte) # CIDRMask 0 l)"

definition mask_ip :: "byte list \<Rightarrow> byte list \<Rightarrow> byte list" where
  "mask_ip ip m = map2 (\<lambda>a b. a AND b) ip m"

text \<open>\<open>net.ParseCIDR\<close>; \<open>dtoi\<close> gives up at 0xFFFFFF, far above any length.\<close>

definition ParseCIDR :: "string \<Rightarrow> go_error + ip_net" where
  "ParseCIDR s =
     (let text = takeWhile (\<lambda>c. c \<noteq> CHR ''/'') s; rest = dropWhile (\<lambda>c. c \<noteq> CHR ''/'') s; ones = tl rest
      in if rest = [] then Inl (Err ''invalid CIDR address'')
         else case ParseAddr text of
           None \<Rightarrow> Inl (Err ''invalid CIDR address'')
         | Some a \<Rightarrow>
             let bytes = (case a of V4 bs \<Rightarrow> bs | V6 bs \<Rightarrow> bs); n = digits_val ones
             in if ones = [] \<or> \<not> list_all is_digit ones \<or> 8 * length bytes < n then Inl (Err ''invalid CIDR address'')
                else Inr \<lparr>net_IP = mask_ip bytes (CIDRMask n (length bytes)), net_Mask = CIDRMask n (length bytes)\<rparr>)"

text \<open>The address of a range in its text, and the length of its prefix.\<close>

definition cidr_parts :: "string \<Rightarrow> (byte list \<times> nat) option" where
  "cidr_parts s =
     (let rest = dropWhile (\<lambda>c. c \<noteq> CHR ''/'') s; ones = tl rest
      in if rest = [] \<or> ones = [] \<or> \<not> list_all is_digit ones then None
         else map_option (\<lambda>a. (case a of V4 bs \<Rightarrow> bs | V6 bs \<Rightarrow> bs, digits_val ones)) (ParseAddr (takeWhile (\<lambda>c. c \<noteq> CHR ''/'') s)))"

text \<open>
  \<open>IP.To4\<close>: the four bytes of an IPv4 address, which may be written in the last four of sixteen (\<open>::ffff:a.b.c.d\<close>). \<open>as_v4\<close>
  is the choice both functions below make with it.
\<close>

definition v4_in_v6_prefix :: "byte list" where
  "v4_in_v6_prefix = replicate 10 0 @ [full_byte, full_byte]"

definition To4 :: "byte list \<Rightarrow> byte list option" where
  "To4 ip = (if length ip = 4 then Some ip
             else if length ip = 16 \<and> take 12 ip = v4_in_v6_prefix then Some (drop 12 ip) else None)"

definition as_v4 :: "byte list \<Rightarrow> byte list" where
  "as_v4 ip = (case To4 ip of Some x \<Rightarrow> x | None \<Rightarrow> ip)"

text \<open>\<open>IPNet.Contains\<close>, which decides whether an address is in a range, and its helper; two empty slices stand for two nils.\<close>

definition networkNumberAndMask :: "ip_net \<Rightarrow> byte list \<times> byte list" where
  "networkNumberAndMask n =
     (let ip = as_v4 (net_IP n); m = net_Mask n
      in if To4 (net_IP n) = None \<and> length ip \<noteq> 16 then ([], [])
         else if length m = 4 then (if length ip \<noteq> 4 then ([], []) else (ip, m))
         else if length m = 16 then (ip, if length ip = 4 then drop 12 m else m)
         else ([], []))"

definition Contains :: "ip_net \<Rightarrow> byte list \<Rightarrow> bool" where
  "Contains n ip =
     (case networkNumberAndMask n of (nn, m) \<Rightarrow>
        let x = as_v4 ip in length x = length nn \<and> mask_ip nn m = mask_ip x m)"

text \<open>The bits of an address, the first byte's highest bit first.\<close>

definition byte_bits :: "byte \<Rightarrow> bool list" where
  "byte_bits b = map (bit b) (rev [0..<8])"

definition addr_bits :: "byte list \<Rightarrow> bool list" where
  "addr_bits bs = concat (map byte_bits bs)"

text \<open>
  What a range means: the address of its text and the number of bits that count, those of the four bytes if it is a range
  of IPv4 addresses, which an IPv4-mapped address with 96 bits or more is too.
\<close>

definition range_prefix :: "byte list \<times> nat \<Rightarrow> byte list \<times> nat" where
  "range_prefix r = (case r of (bs, n) \<Rightarrow>
     if length bs = 16 \<and> take 12 bs = v4_in_v6_prefix \<and> 96 \<le> n then (drop 12 bs, n - 96) else (bs, n))"

definition in_range :: "byte list \<times> nat \<Rightarrow> byte list \<Rightarrow> bool" where
  "in_range r ip \<longleftrightarrow> (case range_prefix r of (bs, n) \<Rightarrow>
     length (as_v4 ip) = length bs \<and> take n (addr_bits (as_v4 ip)) = take n (addr_bits bs))"

section \<open>Masks and bits\<close>

lemma byte_bits_length [simp]: "length (byte_bits b) = 8"
  by (simp add: byte_bits_def)

lemma full_byte_bit [simp]: "bit full_byte t \<longleftrightarrow> t < 8"
proof -
  have m: "full_byte = mask 8" by (simp add: full_byte_def mask_eq_exp_minus_1)
  show ?thesis unfolding m bit_mask_iff by auto
qed

lemma byte_eqI: "(\<And>t. t < 8 \<Longrightarrow> bit a t \<longleftrightarrow> bit b t) \<Longrightarrow> a = (b :: byte)"
  by (simp add: bit_eq_iff)

text \<open>The bits of a mask byte with \<open>k\<close> ones, and what agreement under it means.\<close>

lemma mask_bit: "k \<le> 8 \<Longrightarrow> bit (NOT (drop_bit k full_byte)) t \<longleftrightarrow> t < 8 \<and> 8 \<le> k + t"
  by (auto simp: bit_not_iff bit_drop_bit_eq)

lemma take_byte_bits: "k \<le> 8 \<Longrightarrow> take k (byte_bits a) = take k (byte_bits b) \<longleftrightarrow> (\<forall>t < 8. 8 \<le> k + t \<longrightarrow> bit a t = bit b t)"
proof -
  assume k: "k \<le> 8"
  have "take k (byte_bits a) = take k (byte_bits b) \<longleftrightarrow> (\<forall>i < k. bit a (7 - i) = bit b (7 - i))"
    using k by (simp add: list_eq_iff_nth_eq byte_bits_def rev_nth)
  also have "\<dots> \<longleftrightarrow> (\<forall>t < 8. 8 \<le> k + t \<longrightarrow> bit a t = bit b t)"
  proof safe
    fix t assume "\<forall>i < k. bit a (7 - i) = bit b (7 - i)" "t < 8" "8 \<le> k + t"
    moreover from this have "7 - t < k" "7 - (7 - t) = t" by arith+
    ultimately show "bit a t \<Longrightarrow> bit b t" "bit b t \<Longrightarrow> bit a t" by metis+
  next
    fix i assume "\<forall>t < 8. 8 \<le> k + t \<longrightarrow> bit a t = bit b t" "i < k"
    moreover from this have "7 - i < 8" "8 \<le> k + (7 - i)" using k by arith+
    ultimately show "bit a (7 - i) \<Longrightarrow> bit b (7 - i)" "bit b (7 - i) \<Longrightarrow> bit a (7 - i)" by blast+
  qed
  finally show ?thesis .
qed

lemma masked_byte:
  assumes "k \<le> 8"
  shows "a AND NOT (drop_bit k full_byte) = b AND NOT (drop_bit k full_byte) \<longleftrightarrow> take k (byte_bits a) = take k (byte_bits b)"
proof -
  have "a AND NOT (drop_bit k full_byte) = b AND NOT (drop_bit k full_byte)
      \<longleftrightarrow> (\<forall>t < 8. bit (a AND NOT (drop_bit k full_byte)) t = bit (b AND NOT (drop_bit k full_byte)) t)"
    by (auto intro: byte_eqI)
  also have "\<dots> \<longleftrightarrow> (\<forall>t < 8. 8 \<le> k + t \<longrightarrow> bit a t = bit b t)"
    by (auto simp only: bit_and_iff mask_bit [OF assms])
  finally show ?thesis unfolding take_byte_bits [OF assms] .
qed

lemma masked_full: "a AND full_byte = a"
  by (rule byte_eqI) (simp add: bit_and_iff)

lemma full_mask: "NOT (drop_bit 8 full_byte) = full_byte"
  by (rule byte_eqI) (simp add: mask_bit)

lemma byte_bits_inject: "byte_bits a = byte_bits b \<longleftrightarrow> a = b"
  using masked_byte [of 8 a b] by (simp add: full_mask masked_full)

lemma addr_bits_simps [simp]: "addr_bits [] = []" "addr_bits (b # bs) = byte_bits b @ addr_bits bs" "length (addr_bits bs) = 8 * length bs"
  by (simp_all add: addr_bits_def length_concat comp_def sum_list_triv)

lemma CIDRMask_length [simp]: "length (CIDRMask n l) = l"
  by (induction n l rule: CIDRMask.induct) simp_all

lemma mask_zero: "NOT full_byte = 0"
  by (rule byte_eqI) (simp add: bit_not_iff)

lemma masked_zero: "length a = l \<Longrightarrow> length b = l \<Longrightarrow> mask_ip a (CIDRMask 0 l) = mask_ip b (CIDRMask 0 l)"
proof (induction l arbitrary: a b)
  case (Suc l)
  from Suc.prems obtain x xs y ys where ab: "a = x # xs" "b = y # ys" "length xs = l" "length ys = l" by (cases a; cases b) auto
  have "mask_ip xs (CIDRMask 0 l) = mask_ip ys (CIDRMask 0 l)" by (rule Suc.IH) (use ab in simp_all)
  then show ?case by (simp add: ab mask_ip_def mask_zero)
qed (simp add: mask_ip_def)

lemma masked_prefix:
  assumes "length a = l" and "length b = l" and "n \<le> 8 * l"
  shows "mask_ip a (CIDRMask n l) = mask_ip b (CIDRMask n l) \<longleftrightarrow> take n (addr_bits a) = take n (addr_bits b)"
  using assms
proof (induction n l arbitrary: a b rule: CIDRMask.induct)
  case (2 n l)
  from 2 obtain x xs y ys where ab: "a = x # xs" "b = y # ys" "length xs = l" "length ys = l"
    by (cases a; cases b) auto
  show ?case
  proof (cases "8 \<le> n")
    case True
    with 2(1) [of xs ys] ab 2(5) show ?thesis by (simp add: mask_ip_def masked_full byte_bits_inject)
  next
    case False
    with masked_byte [of n x y] masked_zero [OF ab(3,4)] ab show ?thesis by (simp add: mask_ip_def)
  qed
qed (simp add: mask_ip_def)

lemma mask_idem: "mask_ip (mask_ip a m) m = mask_ip a m"
  by (simp add: mask_ip_def list_eq_iff_nth_eq and.assoc)


lemma all_some_length: "all_some xs = Some ys \<Longrightarrow> length ys = length xs"
  by (induction xs arbitrary: ys rule: all_some.induct) auto

lemma parse_ipv4_length: "parse_ipv4 s = Some bs \<Longrightarrow> length bs = 4"
  by (auto simp: parse_ipv4_def Let_def dest: all_some_length split: if_splits)

lemma parse_groups_length:
  "parse_groups ip ell s = Some (bs, e) \<Longrightarrow> even (length ip) \<Longrightarrow> length ip \<le> 16 \<Longrightarrow> length bs \<le> 16"
proof (induction ip ell s arbitrary: bs e rule: parse_groups.induct)
  case (1 ip ell s)
  let ?g = "takeWhile is_hex s" and ?rest = "dropWhile is_hex s"
  let ?ip = "ip @ [of_nat (hex_number ?g div 256), of_nat (hex_number ?g mod 256)]"
  show ?case
  proof (cases "16 \<le> length ip")
    case True
    with "1.prems" show ?thesis by (subst (asm) parse_groups.simps) (auto split: if_splits)
  next
    case False
    then have ip: "length ?ip \<le> 16" "even (length ?ip)" using "1.prems"(2,3) by auto
    have g: "\<not> (?g = [] \<or> 4 < length ?g)" using "1.prems"(1) False by (subst (asm) parse_groups.simps) (auto simp: Let_def split: if_splits)
    show ?thesis
    proof (cases "?rest \<noteq> [] \<and> hd ?rest = CHR ''.''")
      case True
      with "1.prems"(1) False g show ?thesis
        by (subst (asm) parse_groups.simps) (auto simp: Let_def split: if_splits dest: parse_ipv4_length)
    next
      case dot: False
      show ?thesis
      proof (cases ?rest)
        case Nil
        with "1.prems"(1) False g dot have "bs = ?ip" by (subst (asm) parse_groups.simps) (simp add: Let_def)
        with ip show ?thesis by simp
      next
        case (Cons c s1)
        note IH = "1.IH" [OF False refl refl g dot refl Cons]
        from "1.prems"(1) False g dot Cons have c: "\<not> (c \<noteq> CHR '':'' \<or> s1 = [])"
          by (subst (asm) parse_groups.simps) (auto simp: Let_def split: if_splits)
        show ?thesis
        proof (cases "hd s1 = CHR '':''")
          case True
          with "1.prems"(1) False g dot Cons c have ell: "\<not> ell \<noteq> None" and
            r: "(if tl s1 = [] then Some (?ip, Some (length ?ip)) else parse_groups ?ip (Some (length ?ip)) (tl s1)) = Some (bs, e)"
            by (subst (asm) parse_groups.simps, simp add: Let_def split: if_splits)+
          with IH(1) [OF c True ell _ _ ip(2,1)] ip(1) show ?thesis by (cases "tl s1 = []") auto
        next
          case second: False
          with "1.prems"(1) False g dot Cons c have "parse_groups ?ip ell s1 = Some (bs, e)"
            by (subst (asm) parse_groups.simps) (simp add: Let_def)
          from IH(2) [OF c second this ip(2,1)] show ?thesis .
        qed
      qed
    qed
  qed
qed

lemma expand_length: "expand (ip, ell) = Some bs \<Longrightarrow> length ip \<le> 16 \<Longrightarrow> length bs = 16"
  by (auto simp: expand_def split: if_splits)

lemma parse_ipv6_length: "parse_ipv6 s = Some bs \<Longrightarrow> length bs = 16"
  by (fastforce simp: parse_ipv6_def bind_eq_Some_conv split: if_splits dest: parse_groups_length expand_length)

lemma ParseAddr_length: "ParseAddr s = Some a \<Longrightarrow> length (case a of V4 bs \<Rightarrow> bs | V6 bs \<Rightarrow> bs) = (case a of V4 _ \<Rightarrow> 4 | V6 _ \<Rightarrow> 16)"
  by (auto simp: ParseAddr_def split: list.splits if_splits dest: parse_ipv4_length parse_ipv6_length)

section \<open>What a range is\<close>

text \<open>A text is a range exactly if it is an address, a slash and a decimal number of bits that the address has.\<close>

lemma ParseCIDR_exact:
  "ParseCIDR s = Inr net \<longleftrightarrow> (\<exists>bs n. cidr_parts s = Some (bs, n) \<and> n \<le> 8 * length bs
     \<and> net = \<lparr>net_IP = mask_ip bs (CIDRMask n (length bs)), net_Mask = CIDRMask n (length bs)\<rparr>)"
  by (auto simp: ParseCIDR_def cidr_parts_def Let_def split: option.splits)

lemma cidr_parts_length: "cidr_parts s = Some (bs, n) \<Longrightarrow> length bs = 4 \<or> length bs = 16"
proof -
  assume "cidr_parts s = Some (bs, n)"
  then obtain a where "ParseAddr (takeWhile (\<lambda>c. c \<noteq> CHR ''/'') s) = Some a" "bs = (case a of V4 bs \<Rightarrow> bs | V6 bs \<Rightarrow> bs)"
    by (auto simp: cidr_parts_def Let_def split: if_splits)
  with ParseAddr_length show ?thesis by (cases a) fastforce+
qed

text \<open>The mask of at least as many bits as the mapped prefix keeps it; a shorter one does not.\<close>

lemma CIDRMask_whole: "8 * k \<le> n \<Longrightarrow> CIDRMask n (k + l) = replicate k full_byte @ CIDRMask (n - 8 * k) l"
  by (induction k arbitrary: n) (simp_all add: algebra_simps)

lemma CIDRMask_low_bit: "i < l \<Longrightarrow> n < 8 * i + 8 \<Longrightarrow> \<not> bit (CIDRMask n l ! i) 0"
proof (induction n l arbitrary: i rule: CIDRMask.induct)
  case (2 n l)
  show ?case
  proof (cases i)
    case 0
    with "2.prems" show ?thesis by (simp add: mask_bit)
  next
    case (Suc j)
    with "2.prems" "2.IH" [of j] show ?thesis by (cases "8 \<le> n") (auto simp: mask_zero)
  qed
qed simp

lemma mask_ip_append: "length a = length m \<Longrightarrow> mask_ip (a @ b) (m @ k) = mask_ip a m @ mask_ip b k"
  by (simp add: mask_ip_def)

lemma mask_ip_full: "length a = k \<Longrightarrow> mask_ip a (replicate k full_byte) = a"
  by (induction k arbitrary: a) (auto simp: mask_ip_def length_Suc_conv masked_full)

lemma mask_ip_length [simp]: "length (mask_ip a m) = min (length a) (length m)"
  by (simp add: mask_ip_def)

lemma v4_in_v6_prefix_length [simp]: "length v4_in_v6_prefix = 12"
  by (simp add: v4_in_v6_prefix_def)

lemma mapped_mask:
  assumes "length bs = 16" and "96 \<le> n"
  shows "mask_ip bs (CIDRMask n 16) = take 12 bs @ mask_ip (drop 12 bs) (CIDRMask (n - 96) 4)"
proof -
  have "CIDRMask n 16 = replicate 12 full_byte @ CIDRMask (n - 96) 4" using CIDRMask_whole [of 12 n 4] assms(2) by simp
  moreover have "mask_ip (take 12 bs @ drop 12 bs) (replicate 12 full_byte @ k) = take 12 bs @ mask_ip (drop 12 bs) k" for k
    using assms(1) by (subst mask_ip_append) (simp_all add: mask_ip_full)
  ultimately show ?thesis by simp
qed

lemma unmapped_mask:
  assumes "length bs = 16" and "n < 96"
  shows "take 12 (mask_ip bs (CIDRMask n 16)) \<noteq> v4_in_v6_prefix"
proof
  assume eq: "take 12 (mask_ip bs (CIDRMask n 16)) = v4_in_v6_prefix"
  have "bit (v4_in_v6_prefix ! 11) 0" by (simp add: v4_in_v6_prefix_def nth_append)
  moreover have "take 12 (mask_ip bs (CIDRMask n 16)) ! 11 = bs ! 11 AND CIDRMask n 16 ! 11" using assms(1) by (simp add: mask_ip_def)
  ultimately have "bit (bs ! 11 AND CIDRMask n 16 ! 11) 0" using eq by metis
  then show False using CIDRMask_low_bit [of 11 16 n] assms(2) by (simp add: bit_and_iff)
qed

text \<open>The network number and the mask of a parsed range are those of its prefix.\<close>

lemma network_of_range:
  assumes "length bs = 4 \<or> length bs = 16" and "n \<le> 8 * length bs" and "range_prefix (bs, n) = (cs, k)"
  shows "networkNumberAndMask \<lparr>net_IP = mask_ip bs (CIDRMask n (length bs)), net_Mask = CIDRMask n (length bs)\<rparr>
      = (mask_ip cs (CIDRMask k (length cs)), CIDRMask k (length cs)) \<and> k \<le> 8 * length cs \<and> (length cs = 4 \<or> length cs = 16)"
proof (cases "length bs = 4")
  case True
  with assms show ?thesis by (auto simp: networkNumberAndMask_def range_prefix_def as_v4_def To4_def Let_def)
next
  case False
  with assms(1) have l: "length bs = 16" by simp
  show ?thesis
  proof (cases "take 12 bs = v4_in_v6_prefix \<and> 96 \<le> n")
    case True
    with assms(3) l have c: "cs = drop 12 bs" "k = n - 96" "length (drop 12 bs) = 4" by (auto simp: range_prefix_def)
    have m: "CIDRMask n 16 = replicate 12 full_byte @ CIDRMask (n - 96) 4" using CIDRMask_whole [of 12 n 4] True by simp
    have "mask_ip bs (CIDRMask n 16) = v4_in_v6_prefix @ mask_ip cs (CIDRMask k 4)" using True c mapped_mask [OF l] by simp
    with True l c assms(2) show ?thesis by (simp add: networkNumberAndMask_def as_v4_def To4_def m)
  next
    case False
    with assms(3) l have c: "cs = bs" "k = n" by (auto simp: range_prefix_def split: if_splits)
    have "take 12 (mask_ip bs (CIDRMask n 16)) \<noteq> v4_in_v6_prefix"
    proof (cases "96 \<le> n")
      case True
      with False mapped_mask [OF l] l show ?thesis by simp
    next
      case False
      with unmapped_mask [OF l] show ?thesis by simp
    qed
    with l c assms(2) show ?thesis by (simp add: networkNumberAndMask_def as_v4_def To4_def Let_def)
  qed
qed

text \<open>A parsed range contains exactly the addresses that share the bits of its prefix.\<close>

lemma Contains_prefix:
  assumes "ParseCIDR s = Inr net" and "cidr_parts s = Some r"
  shows "Contains net ip \<longleftrightarrow> in_range r ip"
proof -
  obtain bs n where r: "r = (bs, n)" by (cases r)
  obtain cs k where p: "range_prefix (bs, n) = (cs, k)" by (cases "range_prefix (bs, n)")
  from assms r have n: "n \<le> 8 * length bs" and net: "net = \<lparr>net_IP = mask_ip bs (CIDRMask n (length bs)), net_Mask = CIDRMask n (length bs)\<rparr>"
    by (auto simp: ParseCIDR_exact)
  have "length bs = 4 \<or> length bs = 16" by (rule cidr_parts_length) (use assms(2) r in simp)
  note N = network_of_range [OF this n p]
  show ?thesis
  proof (cases "length (as_v4 ip) = length cs")
    case True
    with N masked_prefix [OF True refl, of k] net show ?thesis
      by (auto simp: Contains_def in_range_def r p mask_idem)
  next
    case False
    with N net show ?thesis by (simp add: Contains_def in_range_def r p)
  qed
qed

lemma digits_all: "list_all is_digit s \<Longrightarrow> CHR ''.'' \<notin> set s \<and> CHR ''/'' \<notin> set s \<and> CHR ''%'' \<notin> set s \<and> CHR '':'' \<notin> set s"
  by (induction s) (auto simp: is_digit_def)

definition dotted :: "byte list \<Rightarrow> string" where
  "dotted bs = (case map (\<lambda>b. nat_digits (unat b)) bs of
     [a, b, c, d] \<Rightarrow> a @ CHR ''.'' # b @ CHR ''.'' # c @ CHR ''.'' # d | _ \<Rightarrow> [])"


lemma parse_octet_back: "parse_octet (nat_digits (unat b)) = Some b" for b :: byte
proof -
  note p = nat_digits_props [of "unat b"]
  have "unat b < 256" using unsigned_less [of b] by simp
  moreover have "hd (nat_digits (unat b)) = CHR ''0'' \<Longrightarrow> nat_digits (unat b) = ''0''"
    using nat_digits_zero [of "unat b"] by (simp add: nat_digits.simps [of 0] digit_def char_of_eq_iff)
  ultimately show ?thesis using p by (auto simp: parse_octet_def)
qed

lemma split_dotted:
  "list_all is_digit a \<Longrightarrow> list_all is_digit b \<Longrightarrow> list_all is_digit c \<Longrightarrow> list_all is_digit d \<Longrightarrow>
    split_on (CHR ''.'') (a @ CHR ''.'' # b @ CHR ''.'' # c @ CHR ''.'' # d) = [a, b, c, d]"
  by (simp add: split_on_append split_on_free digits_all)

lemma dotted_facts:
  assumes "length bs = 4"
  shows "parse_ipv4 (dotted bs) = Some bs" and "CHR ''/'' \<notin> set (dotted bs)" and "ParseAddr (dotted bs) = Some (V4 bs)"
proof -
  obtain a b c d where bs: "bs = [a, b, c, d]"
    using assms by (auto simp: length_Suc_conv eval_nat_numeral)
  have ds: "list_all is_digit (nat_digits (unat x))" for x :: byte using nat_digits_props by blast
  show p: "parse_ipv4 (dotted bs) = Some bs"
    by (simp add: bs dotted_def parse_ipv4_def split_dotted ds parse_octet_back)
  show "CHR ''/'' \<notin> set (dotted bs)" using digits_all [OF ds] by (simp add: bs dotted_def)
  have "CHR ''%'' \<notin> set (dotted bs)" using digits_all [OF ds] by (simp add: bs dotted_def)
  moreover have "dropWhile (\<lambda>c. c \<noteq> CHR ''.'' \<and> c \<noteq> CHR '':'') (dotted bs) \<noteq> [] \<and>
      hd (dropWhile (\<lambda>c. c \<noteq> CHR ''.'' \<and> c \<noteq> CHR '':'') (dotted bs)) = CHR ''.''"
  proof -
    have "\<forall>ch \<in> set (nat_digits (unat a)). ch \<noteq> CHR ''.'' \<and> ch \<noteq> CHR '':''" using digits_all [OF ds] by metis
    then show ?thesis by (simp add: bs dotted_def dropWhile_append)
  qed
  ultimately show "ParseAddr (dotted bs) = Some (V4 bs)" using p by (auto simp: ParseAddr_def split: list.split)
qed

text \<open>The round trip of IPv4 ranges.\<close>

lemma cidr_parts_back:
  assumes "length bs = 4"
  shows "cidr_parts (dotted bs @ CHR ''/'' # nat_digits n) = Some (bs, n)"
proof -
  have "takeWhile (\<lambda>c. c \<noteq> CHR ''/'') (dotted bs @ CHR ''/'' # t) = dotted bs" "dropWhile (\<lambda>c. c \<noteq> CHR ''/'') (dotted bs @ CHR ''/'' # t) = CHR ''/'' # t" for t
    using dotted_facts(2) [OF assms] by (auto simp: takeWhile_append dropWhile_append)
  with nat_digits_props [of n] dotted_facts(3) [OF assms] show ?thesis by (simp add: cidr_parts_def)
qed

end
