(* ===== verification/Ip_Strategy.thy ===== *)
theory Ip_Strategy
  imports Config Net_Cidr
begin

text \<open>
  The choice of the client address strategy (\<open>internal/app/ip.go\<close>). The strategies themselves belong to
  the package \<open>realclientip\<close>: the record \<open>ip_lib\<close> holds the constructors the code calls, over a type \<open>'s\<close> of strategies.
  The ranges are those of \<open>Net_Cidr\<close>.
\<close>

record 's ip_lib =
  NewRightmostTrustedCountStrategy :: "string \<Rightarrow> int \<Rightarrow> go_error + 's"
  NewRightmostTrustedRangeStrategy :: "string \<Rightarrow> ip_net list \<Rightarrow> go_error + 's"
  NewRightmostNonPrivateStrategy :: "string \<Rightarrow> go_error + 's"
  NewSingleIPHeaderStrategy :: "string \<Rightarrow> go_error + 's"
  RemoteAddrStrategy :: 's

text \<open>The loop over \<open>trusted_ranges\<close> stops at the first range that does not parse.\<close>

fun parse_ranges :: "(string \<Rightarrow> go_error + 'net) \<Rightarrow> string list \<Rightarrow> go_error + 'net list" where
  "parse_ranges parse [] = Inr []"
| "parse_ranges parse (cidr # cidrs) =
     (case parse cidr of
        Inl e \<Rightarrow> Inl (Wrap (''invalid trusted range '' @ cidr) e)
      | Inr network \<Rightarrow> (case parse_ranges parse cidrs of Inl e \<Rightarrow> Inl e | Inr ns \<Rightarrow> Inr (network # ns)))"

definition NewIPStrategy :: "'s ip_lib \<Rightarrow> ip_cfg \<Rightarrow> go_error + 's" where
  "NewIPStrategy L cfg =
     (let headerName = (if Header cfg = [] then ''X-Forwarded-For'' else Header cfg)
      in if Strategy cfg = ''rightmost_trusted_count'' then
           (if TrustedCount cfg \<le> 0 then Inl (Err ''trusted_count must be > 0 for rightmost_trusted_count strategy'')
            else NewRightmostTrustedCountStrategy L headerName (TrustedCount cfg))
         else if Strategy cfg = ''rightmost_trusted_range'' then
           (if TrustedRanges cfg = [] then Inl (Err ''trusted_ranges must not be empty for rightmost_trusted_range strategy'')
            else (case parse_ranges (ParseCIDR) (TrustedRanges cfg) of
                    Inl e \<Rightarrow> Inl e
                  | Inr ranges \<Rightarrow> NewRightmostTrustedRangeStrategy L headerName ranges))
         else if Strategy cfg = ''rightmost_non_private'' then NewRightmostNonPrivateStrategy L headerName
         else if Strategy cfg = ''single_ip_header'' then NewSingleIPHeaderStrategy L headerName
         else if Strategy cfg = ''remote_addr'' \<or> Strategy cfg = [] then Inr (RemoteAddrStrategy L)
         else Inl (Err (''unknown IP extraction strategy: '' @ Strategy cfg)))"

lemma parse_ranges_Inr:
  "parse_ranges parse cidrs = Inr ns \<longleftrightarrow> map parse cidrs = map Inr ns"
proof (induction cidrs arbitrary: ns)
  case (Cons cidr cidrs)
  show ?case
  proof (cases "parse_ranges parse cidrs")
    case (Inl e)
    with Cons.IH have "map parse cidrs \<noteq> map Inr ns'" for ns' by auto
    with Inl show ?thesis by (cases ns) (auto split: sum.splits)
  next
    case (Inr ms)
    with Cons.IH [of ms] have "map parse cidrs = map Inr ms" by simp
    moreover have "map Inr ms = map Inr ms' \<longleftrightarrow> ms = ms'" for ms' by (auto simp: inj_map_eq_map inj_def)
    ultimately show ?thesis using Inr by (cases ns) (auto split: sum.splits)
  qed
qed auto

text \<open>
  With the strategy \<open>rightmost_trusted_range\<close> the server starts only if every configured range
  parses, and then trusts exactly those ranges in their order: no range is dropped silently, and an
  empty list is refused rather than trusting nothing or everything.
\<close>

theorem trusted_ranges_all_or_nothing:
  assumes "NewIPStrategy L cfg = Inr s" and "Strategy cfg = ''rightmost_trusted_range''"
  shows "\<exists>ns. ns \<noteq> [] \<and> map (ParseCIDR) (TrustedRanges cfg) = map Inr ns
    \<and> NewRightmostTrustedRangeStrategy L (if Header cfg = [] then ''X-Forwarded-For'' else Header cfg) ns = Inr s"
proof -
  obtain ns where ns: "parse_ranges (ParseCIDR) (TrustedRanges cfg) = Inr ns" "TrustedRanges cfg \<noteq> []"
      "NewRightmostTrustedRangeStrategy L (if Header cfg = [] then ''X-Forwarded-For'' else Header cfg) ns = Inr s"
    using assms by (auto simp: NewIPStrategy_def Let_def split: sum.splits if_splits)
  then have "map (ParseCIDR) (TrustedRanges cfg) = map Inr ns" by (simp add: parse_ranges_Inr)
  moreover from this ns(2) have "ns \<noteq> []" by auto
  ultimately show ?thesis using ns(3) by blast
qed

lemma range_exact:
  assumes "ParseCIDR cidr = Inr net"
  shows "\<exists>bs n. cidr_parts cidr = Some (bs, n) \<and> n \<le> 8 * length bs
    \<and> (\<forall>ip. Contains net ip \<longleftrightarrow> in_range (bs, n) ip)"
proof -
  obtain bs n where b: "cidr_parts cidr = Some (bs, n)" "n \<le> 8 * length bs" using assms by (auto simp: ParseCIDR_exact)
  with Contains_prefix [OF assms b(1)] show ?thesis by blast
qed

text \<open>
  C27: What the trusted ranges trust. With the strategy \<open>rightmost_trusted_range\<close> the server starts only if every configured
  text is an address with a prefix length that fits it; the strategy is then built from as many ranges, in order, and
  \<open>IPNet.Contains\<close> of each holds exactly for the addresses that share the first bits with the address of its text. Address
  and range are compared as IPv4 or as IPv6, and an IPv4-mapped address counts as IPv4, as does a mapped range of 96 bits
  or more: \<open>::ffff:10.0.0.0/104\<close> trusts 10.1.2.3, and \<open>::/0\<close> trusts no IPv4 address.
\<close>

theorem trusted_ranges_exact:
  assumes "NewIPStrategy L cfg = Inr s" and "Strategy cfg = ''rightmost_trusted_range''"
  shows "\<exists>ns. ns \<noteq> [] \<and> NewRightmostTrustedRangeStrategy L (if Header cfg = [] then ''X-Forwarded-For'' else Header cfg) ns = Inr s
    \<and> list_all2 (\<lambda>cidr net. \<exists>bs n. cidr_parts cidr = Some (bs, n) \<and> n \<le> 8 * length bs
          \<and> (\<forall>ip. Contains net ip \<longleftrightarrow> in_range (bs, n) ip)) (TrustedRanges cfg) ns"
proof -
  obtain ns where ns: "parse_ranges ParseCIDR (TrustedRanges cfg) = Inr ns" "TrustedRanges cfg \<noteq> []"
      "NewRightmostTrustedRangeStrategy L (if Header cfg = [] then ''X-Forwarded-For'' else Header cfg) ns = Inr s"
    using assms by (auto simp: NewIPStrategy_def Let_def split: sum.splits if_splits)
  then have m: "map ParseCIDR (TrustedRanges cfg) = map Inr ns" by (simp add: parse_ranges_Inr)
  have "list_all2 (\<lambda>cidr net. ParseCIDR cidr = Inr net) (TrustedRanges cfg) ns"
    using m by (simp add: list_eq_iff_nth_eq list_all2_conv_all_nth)
  then have "list_all2 (\<lambda>cidr net. \<exists>bs n. cidr_parts cidr = Some (bs, n) \<and> n \<le> 8 * length bs
          \<and> (\<forall>ip. Contains net ip \<longleftrightarrow> in_range (bs, n) ip)) (TrustedRanges cfg) ns"
    by (rule list_all2_mono) (rule range_exact)
  moreover have "ns \<noteq> []" using m ns(2) by auto
  ultimately show ?thesis using ns(3) by blast
qed

text \<open>An instance whose strategies record what they were built from.\<close>

definition demo_ip_lib :: "(string \<times> ip_net list) ip_lib" where
  "demo_ip_lib = \<lparr>NewRightmostTrustedCountStrategy = (\<lambda>h n. Inr (h, [])),
     NewRightmostTrustedRangeStrategy = (\<lambda>h ns. Inr (h, ns)), NewRightmostNonPrivateStrategy = (\<lambda>h. Inr (h, [])),
     NewSingleIPHeaderStrategy = (\<lambda>h. Inr (h, [])), RemoteAddrStrategy = ([], [])\<rparr>"

definition demo_ip_cfg :: ip_cfg where
  "demo_ip_cfg = \<lparr>Strategy = ''rightmost_trusted_range'', Header = [], TrustedCount = 0, TrustedRanges = [''10.1.0.0/9'', ''fd00::/8'', ''::ffff:10.0.0.0/104'', ''::/0'']\<rparr>"

lemma demo_cidr_parts:
  "cidr_parts ''10.1.0.0/9'' = Some ([10, 1, 0, 0], 9)" "cidr_parts ''fd00::/8'' = Some (0xFD # replicate 15 0, 8)"
  "cidr_parts ''::ffff:10.0.0.0/104'' = Some (v4_in_v6_prefix @ [10, 0, 0, 0], 104)" "cidr_parts ''::/0'' = Some (replicate 16 0, 0)"
proof -
  have "parse_groups [] None ''fd00::'' = Some ([0xFD, 0], Some 2)"
    by (subst parse_groups.simps) (simp add: is_hex_def hex_digit_val_def hex_number_def)
  then have "parse_ipv6 ''fd00::'' = Some (0xFD # replicate 15 0)"
    by (simp add: parse_ipv6_def expand_def eval_nat_numeral)
  then show "cidr_parts ''fd00::/8'' = Some (0xFD # replicate 15 0, 8)"
    by (simp add: cidr_parts_def ParseAddr_def is_digit_def digits_val_def digit_val_def)
  have q: "parse_ipv4 ''10.0.0.0'' = Some [10, 0, 0, 0]"
    by (simp add: parse_ipv4_def parse_octet_def is_digit_def digits_val_def digit_val_def)
  have "parse_groups [full_byte, full_byte] (Some 0) ''10.0.0.0'' = Some ([full_byte, full_byte, 10, 0, 0, 0], Some 0)"
    by (subst parse_groups.simps) (simp add: is_hex_def hex_digit_val_def q)
  moreover have "parse_groups [] (Some 0) ''ffff:10.0.0.0'' = parse_groups [full_byte, full_byte] (Some 0) ''10.0.0.0''"
    by (subst parse_groups.simps) (simp add: is_hex_def hex_digit_val_def hex_number_def full_byte_def)
  ultimately have "parse_ipv6 ''::ffff:10.0.0.0'' = Some (v4_in_v6_prefix @ [10, 0, 0, 0])"
    by (simp add: parse_ipv6_def expand_def v4_in_v6_prefix_def)
  then show "cidr_parts ''::ffff:10.0.0.0/104'' = Some (v4_in_v6_prefix @ [10, 0, 0, 0], 104)"
    by (simp add: cidr_parts_def ParseAddr_def is_digit_def digits_val_def digit_val_def)
  show "cidr_parts ''::/0'' = Some (replicate 16 0, 0)"
    by (simp add: cidr_parts_def ParseAddr_def parse_ipv6_def is_digit_def digits_val_def digit_val_def)
  show "cidr_parts ''10.1.0.0/9'' = Some ([10, 1, 0, 0], 9)"
    by (simp add: cidr_parts_def ParseAddr_def parse_ipv4_def parse_octet_def is_digit_def digits_val_def digit_val_def)
qed

lemma demo_ip_starts: "\<exists>ns. NewIPStrategy demo_ip_lib demo_ip_cfg = Inr (''X-Forwarded-For'', ns)"
proof -
  obtain n1 n2 n3 n4 where "ParseCIDR ''10.1.0.0/9'' = Inr n1" "ParseCIDR ''fd00::/8'' = Inr n2"
      "ParseCIDR ''::ffff:10.0.0.0/104'' = Inr n3" "ParseCIDR ''::/0'' = Inr n4"
    using demo_cidr_parts by (simp add: ParseCIDR_exact)
  then show ?thesis by (simp add: NewIPStrategy_def demo_ip_lib_def demo_ip_cfg_def)
qed

theorem trusted_ranges_all_or_nothing_witness:
  "\<exists>ns. ns \<noteq> [] \<and> map ParseCIDR (TrustedRanges demo_ip_cfg) = map Inr ns"
proof -
  obtain ns where "NewIPStrategy demo_ip_lib demo_ip_cfg = Inr (''X-Forwarded-For'', ns)" using demo_ip_starts by blast
  from trusted_ranges_all_or_nothing [OF this] show ?thesis by (auto simp: demo_ip_cfg_def)
qed

lemmas range_test = in_range_def range_prefix_def as_v4_def To4_def v4_in_v6_prefix_def

lemma demo_in_range:
  "in_range ([10, 1, 0, 0], 9) [10, 99, 1, 1]" "\<not> in_range ([10, 1, 0, 0], 9) [10, 200, 1, 1]"
  "in_range (0xFD # replicate 15 0, 8) (0xFD # replicate 15 1)"
  "in_range (v4_in_v6_prefix @ [10, 0, 0, 0], 104) [10, 1, 2, 3]"
  "\<not> in_range (replicate 16 0, 0) (v4_in_v6_prefix @ [1, 2, 3, 4])"
proof -
  have "0xFD # replicate 11 1 \<noteq> v4_in_v6_prefix" by (simp add: v4_in_v6_prefix_def replicate_Suc [of 9, simplified])
  then show "in_range (0xFD # replicate 15 0, 8) (0xFD # replicate 15 1)" by (simp add: in_range_def range_prefix_def as_v4_def To4_def)
qed (simp_all add: range_test byte_bits_def upt_rec full_byte_def)

theorem trusted_ranges_exact_witness:
  "\<exists>n1 n2 n3 n4. NewIPStrategy demo_ip_lib demo_ip_cfg = Inr (''X-Forwarded-For'', [n1, n2, n3, n4])
    \<and> Contains n1 [10, 99, 1, 1] \<and> \<not> Contains n1 [10, 200, 1, 1] \<and> Contains n2 (0xFD # replicate 15 1)
    \<and> Contains n3 [10, 1, 2, 3] \<and> \<not> Contains n4 (v4_in_v6_prefix @ [1, 2, 3, 4])"
proof -
  obtain ns where s: "NewIPStrategy demo_ip_lib demo_ip_cfg = Inr (''X-Forwarded-For'', ns)" using demo_ip_starts by blast
  from trusted_ranges_exact [OF s] demo_cidr_parts obtain n1 n2 n3 n4 where "ns = [n1, n2, n3, n4]"
    "\<forall>ip. Contains n1 ip = in_range ([10, 1, 0, 0], 9) ip" "\<forall>ip. Contains n2 ip = in_range (0xFD # replicate 15 0, 8) ip"
    "\<forall>ip. Contains n3 ip = in_range (v4_in_v6_prefix @ [10, 0, 0, 0], 104) ip" "\<forall>ip. Contains n4 ip = in_range (replicate 16 0, 0) ip"
    by (auto simp: demo_ip_cfg_def demo_ip_lib_def list_all2_Cons1)
  with s demo_in_range show ?thesis by blast
qed

end
