(* ===== verification/Start.thy ===== *)
theory Start
  imports Server Observability Ip_Strategy
begin

text \<open>
  Starting and stopping the program (\<open>cmd/scorpion/start.go\<close>, \<open>internal/app/repository.go\<close>). \<open>runStart\<close> is split
  where it waits for a signal: \<open>boot\<close> is everything before, \<open>stop\<close> everything after, and what the server does in
  between is an arbitrary change of the world here and a sequence of requests in \<open>Lifecycle\<close>. The signal and the listeners are not modelled.
\<close>

section \<open>Operations\<close>

record Repository =
  repo_Conns :: connectionStore
  repo_Events :: eventStore

text \<open>The ticket store and the in-flight store have no state besides the Redis client.\<close>

definition WithRepository :: "string \<Rightarrow> int \<Rightarrow> Repository" where
  "WithRepository instID depth = \<lparr>repo_Conns = NewConnectionStore instID, repo_Events = NewEventStore depth\<rparr>"

text \<open>The acknowledgement publisher, with its fallback to the log.\<close>

definition choose_publisher :: "'n nats_api \<Rightarrow> nats_cfg \<Rightarrow> 'n \<Rightarrow> publisher \<times> 'n" where
  "choose_publisher N cfg n =
     (if Enabled cfg then
        (case WithNats N cfg n of
           (Inl _, n1) \<Rightarrow> (LogPublisher, n1)
         | (Inr _, n1) \<Rightarrow>
             (case NewNATSPublisher N cfg n1 of
                (Inl _, n2) \<Rightarrow> (LogPublisher, nDrain N n2)
              | (Inr pub, n2) \<Rightarrow> (NatsPublisher pub, n2)))
      else (LogPublisher, n))"

text \<open>
  The parameters of a start: the configuration loader, the libraries (with the address strategy still to be
  chosen) and the two servers. \<open>reg\<close> is the Prometheus registry.
\<close>

definition boot ::
  "(string \<Rightarrow> config option \<times> go_error option) \<Rightarrow> 's ip_lib \<Rightarrow> ('s \<Rightarrow> (string \<Rightarrow> string list) \<Rightarrow> string \<Rightarrow> string)
     \<Rightarrow> handler_libs \<Rightarrow> 'r redis \<Rightarrow> 'n nats_api \<Rightarrow> string \<Rightarrow> string list \<Rightarrow> ('r, 'n) world
     \<Rightarrow> (go_error + ('r, 'n) HTTPHandlers \<times> server) outcome \<times> ('r, 'n) world" where
  "boot load I clientIP L R N configPath reg w =
     (case load configPath of
        (_, Some e) \<Rightarrow> (Ret (Inl (Wrap ''failed to load config'' e)), w)
      | (None, None) \<Rightarrow> (Panic, w)
      | (Some cfg, None) \<Rightarrow>
         (case NewMetrics reg of
            Panic \<Rightarrow> (Panic, w)
          | Ret (m, _) \<Rightarrow>
              let w1 = w\<lparr>mtr := m\<rparr> in
              (case NewIPStrategy I (CfgIP cfg) of
                 Inl e \<Rightarrow> (Ret (Inl (Wrap ''failed to initialize IP strategy'' e)), w1)
               | Inr strategy \<Rightarrow>
                   (case NewClient R (CfgRedis cfg) True w1 of
                      (Inl e, w2) \<Rightarrow> (Ret (Inl (Wrap ''failed to connect to repository'' e)), w2)
                    | (Inr _, w2) \<Rightarrow>
                        let (instID, w3) = NewString w2;
                            repo = WithRepository instID (MaxQueueDepth (CfgSSE cfg));
                            (pub, w4) = on_nats (choose_publisher N (CfgNATS cfg)) w3;
                            h = \<lparr>AppCTX = Background, RDB = R, Events = repo_Events repo, Conns = repo_Conns repo,
                                 AckPublisher = pub, NatsConn = N, Cfg = cfg, Libs = L\<lparr>lib_ClientIP := clientIP strategy\<rparr>\<rparr>
                        in (Ret (Inr (h, NewServer cfg)), w4)))))"

text \<open>
  After the signal. \<open>appCtx.Done()\<close> only returns a channel. An error of the shutdown is logged; the cleanup
  scans Redis with the background context; the deferred close of the publisher runs at the end. \<open>None\<close> is a
  cleanup that does not end.
\<close>

definition stop ::
  "('r, 'n) HTTPHandlers \<Rightarrow> (('r, 'n) world \<Rightarrow> go_error option \<times> ('r, 'n) world) \<Rightarrow> ('r, 'n) world \<Rightarrow> ('r, 'n) world option" where
  "stop h shutdownServers w =
     (let (_, w1) = shutdownServers w
      in map_option (\<lambda>r. w1\<lparr>rdb := r, nats := Close (NatsConn h) (AckPublisher h) (nats w1)\<rparr>)
           (CleanupInstance (RDB h) (Conns h) Background (rdb w1)))"

section \<open>Lemmas\<close>

lemma boot_handlers:
  assumes "boot load I clientIP L R N path reg w = (Ret (Inr (h, srv)), w')"
  shows "AppCTX h = Background \<and> RDB h = R \<and> NatsConn h = N \<and> srv = NewServer (Cfg h) \<and> load path = (Some (Cfg h), None)
    \<and> maxQueueDepth (Events h) = MaxQueueDepth (CfgSSE (Cfg h))"
  using assms by (auto simp: boot_def WithRepository_def NewEventStore_def Let_def split: prod.splits option.splits outcome.splits sum.splits)

lemma ready_without_app:
  "c = Background \<Longrightarrow> ready_channels c (filter (\<lambda>e. e \<noteq> AppDone) es) = ready_channels c es"
  by (simp add: ready_channels_def)

section \<open>Properties\<close>

text \<open>
  C35: The application context that \<open>runStart\<close> hands to the handlers is the background context, which is never
  cancelled: a stream behaves as if the shutdown channel did not exist, so on a signal no running stream drains
  its queue or ends by itself.
\<close>

theorem shutdown_not_seen_by_streams:
  assumes "boot load I clientIP L R N path reg w0 = (Ret (Inr (h, srv)), w1)"
  shows "V1SSEStreamEvents h flusher es c wr w = V1SSEStreamEvents h flusher (filter (\<lambda>e. e \<noteq> AppDone) es) c wr w"
proof -
  have "AppCTX h = Background" using boot_handlers [OF assms] by blast
  note ready = ready_without_app [OF this]
  have run: "run_stream h c1 cl ip (filter (\<lambda>e. e \<noteq> AppDone) es) wr = run_stream h c1 cl ip es wr" for c1 cl ip
    by (rule ext) (unfold run_stream_def ready, rule refl)
  show ?thesis unfolding V1SSEStreamEvents_def run by (rule refl)
qed

text \<open>A start on the in-memory servers with the default configuration.\<close>

definition demo_load :: "string \<Rightarrow> config option \<times> go_error option" where
  "demo_load path = (Some default_config, None)"

lemma demo_boots:
  "\<exists>h srv w. boot demo_load demo_ip_lib (\<lambda>_ _ addr. addr) demo_libs mem_redis mem_nats [] [] (demo_state mem0) = (Ret (Inr (h, srv)), w)"
proof -
  have "NewMetrics [] = Ret (zero_metrics, rev metric_names)"
    by (simp add: NewMetrics_def register_names_ok metric_names_distinct)
  then show ?thesis
    by (simp add: boot_def demo_load_def NewIPStrategy_def demo_ip_lib_def default_config_def NewClient_def ProcessHook_def
        time_now_def on_rdb_def on_nats_def NewString_def mem_redis_def mPing_def guarded_def mup_def mem0_def choose_publisher_def Let_def)
qed

theorem shutdown_not_seen_by_streams_witness:
  "\<exists>h srv w1. boot demo_load demo_ip_lib (\<lambda>_ _ addr. addr) demo_libs mem_redis mem_nats [] [] (demo_state mem0) = (Ret (Inr (h, srv)), w1)
     \<and> V1SSEStreamEvents h True [AppDone] demo_stream_ctx demo_writer (demo_state mem_pending)
       = V1SSEStreamEvents h True [] demo_stream_ctx demo_writer (demo_state mem_pending)"
proof -
  obtain h srv w1 where b: "boot demo_load demo_ip_lib (\<lambda>_ _ addr. addr) demo_libs mem_redis mem_nats [] [] (demo_state mem0) = (Ret (Inr (h, srv)), w1)"
    using demo_boots by blast
  from shutdown_not_seen_by_streams [OF b, of True "[AppDone]" demo_stream_ctx demo_writer "demo_state mem_pending"] b show ?thesis by simp
qed

text \<open>
  There is always a publisher: NATS is used exactly when it is enabled, the connection was made and the
  publisher could be set up; in every other case the log publisher takes its place, which accepts every
  acknowledgement, and a connection that was opened in vain is closed.
\<close>

theorem publisher_fallback:
  assumes "choose_publisher N cfg n = (pub, n')"
  shows "case pub of
      NatsPublisher p \<Rightarrow> Enabled cfg \<and> (\<exists>n1. WithNats N cfg n = (Inr (), n1) \<and> NewNATSPublisher N cfg n1 = (Inr p, n'))
    | LogPublisher \<Rightarrow> (\<forall>marshal record m. Publish N marshal pub record m = (Inr 0, m) \<and> Connected N pub m)
        \<and> (\<not> Enabled cfg \<longrightarrow> n' = n)
        \<and> (\<forall>n1 e n2. Enabled cfg \<and> WithNats N cfg n = (Inr (), n1) \<and> NewNATSPublisher N cfg n1 = (Inl e, n2) \<longrightarrow> n' = nDrain N n2)"
  using assms by (auto simp: choose_publisher_def split: publisher.splits if_splits prod.splits sum.splits)

theorem publisher_fallback_witness:
  "choose_publisher mem_nats ((CfgNATS default_config)\<lparr>Enabled := True\<rparr>) (nats0\<lparr>nup := False\<rparr>) = (LogPublisher, nats0\<lparr>nup := False\<rparr>)
     \<and> Connected mem_nats LogPublisher nats0"
proof -
  have c: "choose_publisher mem_nats ((CfgNATS default_config)\<lparr>Enabled := True\<rparr>) (nats0\<lparr>nup := False\<rparr>) = (LogPublisher, nats0\<lparr>nup := False\<rparr>)"
    by (simp add: choose_publisher_def WithNats_def mem_nats_def nats0_def Let_def)
  from publisher_fallback [OF c] c show ?thesis by simp
qed

text \<open>
  After a signal the program comes to its end: on a Redis that answers the cleanup terminates, and the
  connection keys of this instance, and only those, have been removed; an error of the server shutdown does
  not prevent it.
\<close>

theorem stop_cleans_up:
  assumes "redis_scan (RDB h) ks up todo left" and "shutdownServers w = (e, w1)" and "up Background (rdb w1)"
    and "\<forall>k. prefix ''scorpion:conn:'' k \<longrightarrow> str_or_none (ks (rdb w1) k)"
  shows "\<exists>w'. stop h shutdownServers w = Some w'
    \<and> ks (rdb w') = without_owned (instanceID (Conns h)) {k. prefix ''scorpion:conn:'' k} (ks (rdb w1))"
proof -
  from redis_scan.CleanupInstance_effect [OF assms(1,3,4), of "Conns h"] obtain r' where
    "CleanupInstance (RDB h) (Conns h) Background (rdb w1) = Some r'"
    "ks r' = without_owned (instanceID (Conns h)) {k. prefix ''scorpion:conn:'' k} (ks (rdb w1))" by blast
  with assms(2) show ?thesis by (simp add: stop_def)
qed

theorem stop_cleans_up_witness:
  "\<exists>w'. stop demo_handlers (\<lambda>w. (Some (Err ''deadline exceeded''), w)) (demo_state mem_conn) = Some w'
     \<and> mks (rdb w') = without_owned ''i1'' {k. prefix ''scorpion:conn:'' k} (mks mem_conn)"
proof -
  have "redis_scan (RDB demo_handlers) mks mup (\<lambda>_. UNIV) (\<lambda>_. 0)" using ms.redis_scan_axioms by simp
  moreover have "mup Background mem_conn" by (simp add: mup_def mem_conn_def mem0_def)
  moreover have "\<forall>k. prefix ''scorpion:conn:'' k \<longrightarrow> str_or_none (mks mem_conn k)"
    by (simp add: mem_conn_def mem0_def mks_def mput_def)
  moreover have "instanceID (Conns demo_handlers) = ''i1''" by (simp add: demo_handlers_def NewConnectionStore_def)
  ultimately show ?thesis
    using stop_cleans_up [of demo_handlers mks mup "\<lambda>_. UNIV" "\<lambda>_. 0" "\<lambda>w. (Some (Err ''deadline exceeded''), w)" "demo_state mem_conn"]
    by simp
qed

end
