(* ===== verification/Handler_Invariants.thy ===== *)
theory Handler_Invariants
  imports Start
begin

text \<open>
  What the stores keep of the server, the handlers keep: the lemmas of \<open>redis_stable\<close> and \<open>redis_invariant\<close> carried through the
  endpoints, the middlewares, the routes, the start and the stop of the program.
\<close>

lemma auth_rdb [simp]:
  "rdb (snd (ValidateTicket J cfg tok w)) = rdb w" "rdb (snd (ValidateRealToken J cfg tok w)) = rdb w"
  "rdb (snd (GenerateTicket J cfg cl ip w)) = rdb w"
  by (simp_all add: ValidateTicket_def ValidateRealToken_def GenerateTicket_def time_now_def NewString_def Let_def split_beta
      split: sum.split)

lemma on_nats_rdb [simp]: "rdb (snd (on_nats f w)) = rdb w"
  by (simp add: on_nats_def split_beta)

context redis_stable
begin

lemma V1InsertEvent_keeps: "RDB h = R \<Longrightarrow> I (rdb w) \<Longrightarrow> I (rdb (snd (V1InsertEvent h c w)))"
  by (simp add: V1InsertEvent_def split_beta Let_def Push_keeps split: sum.split option.split prod.split)

lemma V1Poll_keeps: "RDB h = R \<Longrightarrow> I (rdb w) \<Longrightarrow> I (rdb (snd (V1Poll h c w)))"
  by (simp add: V1Poll_def split_beta Let_def Drain_keeps split: sum.split prod.split)

lemma ack_publish_keeps: "RDB h = R \<Longrightarrow> I (rdb w) \<Longrightarrow> I (rdb (snd (ack_publish h c start req w)))"
  by (simp add: ack_publish_def split_beta Let_def MarkAcked_keeps split: sum.split)

lemma V1AckEvent_keeps: "RDB h = R \<Longrightarrow> I (rdb w) \<Longrightarrow> I (rdb (snd (V1AckEvent h c w)))"
  by (simp add: V1AckEvent_def split_beta Let_def Validate_keeps ack_publish_keeps split: sum.split option.split prod.split)

lemma V1AuthTicket_keeps: "RDB h = R \<Longrightarrow> I (rdb w) \<Longrightarrow> I (rdb (snd (V1AuthTicket h c w)))"
  by (simp add: V1AuthTicket_def issue_ticket_def split_beta Let_def Allow_keeps Store_keeps split: sum.split option.split prod.split)

lemma Healthz_keeps: "RDB h = R \<Longrightarrow> I (rdb w) \<Longrightarrow> I (rdb (snd (Healthz h text c w)))"
  by (simp add: Healthz_def split_beta commands_keep split: sum.split prod.split)

text \<open>The endpoints that answer at once.\<close>

lemma run_endpoint_keeps:
  "RDB h = R \<Longrightarrow> ep \<noteq> EStream \<Longrightarrow> I (rdb w) \<Longrightarrow> I (rdb (snd (run_endpoint h text io ep c w)))"
  by (cases ep) (simp_all add: V1InsertEvent_keeps V1Poll_keeps V1AckEvent_keeps V1AuthTicket_keeps Healthz_keeps)

lemma guarded_by_keeps:
  assumes "I (rdb w)" and "\<And>c w. I (rdb w) \<Longrightarrow> I (rdb (snd (next c w)))"
  shows "I (rdb (snd (guarded_by h g next c w)))"
  using assms
  by (cases g) (simp_all add: TokenMiddleware_def IPMiddleware_def split_beta Let_def split: sum.split prod.split)

lemma serve_route_keeps:
  "RDB h = R \<Longrightarrow> rt_handler r \<noteq> EStream \<Longrightarrow> I (rdb w) \<Longrightarrow> I (rdb (snd (serve_route h text io r c w)))"
  by (simp add: serve_route_def guarded_by_keeps run_endpoint_keeps)

lemma boot_keeps: "I (rdb w) \<Longrightarrow> I (rdb (snd (boot load N ip L R N' path reg w)))"
  by (simp add: boot_def NewClient_def ProcessHook_def split_beta Let_def commands_keep
      split: prod.split option.split outcome.split sum.split)

end

context redis_invariant
begin

lemma run_stream_keeps: "RDB h = R \<Longrightarrow> I (rdb w) \<Longrightarrow> I (rdb (snd (snd (run_stream h c cl ip es wr w))))"
  by (simp add: run_stream_def split_beta Let_def Conn_Register_keeps RunLoop_keeps Delete_keeps stream_env_of_def split: sum.split bool.split prod.split)

lemma V1SSEStreamEvents_keeps: "RDB h = R \<Longrightarrow> I (rdb w) \<Longrightarrow> I (rdb (snd (snd (V1SSEStreamEvents h flusher es c wr w))))"
  by (simp add: V1SSEStreamEvents_def split_beta Let_def ValidateAndConsume_keeps run_stream_keeps split: sum.split bool.split option.split prod.split)

lemma any_endpoint_keeps: "RDB h = R \<Longrightarrow> I (rdb w) \<Longrightarrow> I (rdb (snd (run_endpoint h text io ep c w)))"
  using V1SSEStreamEvents_keeps [of h w "io_flusher io" "io_ready io" c "io_writer io"]
  by (cases "ep = EStream") (simp_all add: split_beta run_endpoint_keeps)

lemma any_route_keeps: "RDB h = R \<Longrightarrow> I (rdb w) \<Longrightarrow> I (rdb (snd (serve_route h text io r c w)))"
  by (simp add: serve_route_def guarded_by_keeps any_endpoint_keeps)

lemma stop_keeps:
  assumes "RDB h = R" and "stop h shut w = Some w'" and "I (rdb (snd (shut w)))"
  shows "I (rdb w')"
  using assms CleanupInstance_keeps by (auto simp: stop_def split_beta Let_def)

end

end
