(* ===== verification/Keyspace_Types.thy ===== *)
theory Keyspace_Types
  imports Handler_Invariants
begin

text \<open>
  The types of the key space: which kind of value the program keeps under which key. Every route and the cleanup keep
  the types, also when commands fail, and on a typed key space no command of the program is refused for the
  type of its key.
\<close>

section \<open>The types of keys\<close>

text \<open>
  What a value under a key of the program must be; keys of other programs may hold anything. The keys that the cleanup
  scans are those with the prefix of connection slots.
\<close>

definition key_type :: "string \<Rightarrow> rval \<Rightarrow> bool" where
  "key_type k v \<longleftrightarrow> (\<forall>cl. k = eventsKey cl \<longrightarrow> (\<exists>xs. xs \<noteq> [] \<and> v = RList xs))
     \<and> (\<forall>ip. k = ratelimitKey ip \<longrightarrow> (\<exists>n. v = RStr (Itoa n)))
     \<and> (string_key k \<or> prefix ''scorpion:conn:'' k \<longrightarrow> (\<exists>s. v = RStr s))"

definition typed :: "keyspace \<Rightarrow> bool" where
  "typed m \<longleftrightarrow> (\<forall>k v t. m k = Some (v, t) \<longrightarrow> key_type k v)"

lemma typed_touches:
  assumes "typed m" and "touches k Q m m'" and "\<And>v t. Q (Some (v, t)) \<Longrightarrow> key_type k v"
  shows "typed m'"
  unfolding typed_def
proof (intro allI impI)
  fix k' v t
  assume "m' k' = Some (v, t)"
  with assms show "key_type k' v" by (cases "k' = k") (metis touches_def typed_def)+
qed

lemma key_types:
  "string_key k \<Longrightarrow> key_type k (RStr s)" "key_type (ratelimitKey ip) (RStr (Itoa n))" "xs \<noteq> [] \<Longrightarrow> key_type (eventsKey cl) (RList xs)"
  by (auto simp: key_type_def string_key_def key_defs)

sublocale redis_atomic \<subseteq> ty: redis_invariant R "\<lambda>r. typed (ks r)"
proof unfold_locales
  fix r c k v d i j cl ev ip assume t: "typed (ks r)"
  have set: "typed (ks (snd (rSet R c k v d r)))" if "string_key k" for k
    by (rule typed_touches [OF t write_atomic(1)]) (use that in \<open>auto simp: key_types elim!: is_str.elims(2)\<close>)
  have setnx: "typed (ks (snd (rSetNX R c k v d r)))" if "string_key k" for k
    by (rule typed_touches [OF t write_atomic(2)]) (use that in \<open>auto simp: key_types elim!: is_str.elims(2)\<close>)
  show "typed (ks (snd (rSet R c (ticketKey cl ip) v d r))) \<and> typed (ks (snd (rSet R c (inFlightKey cl ev) v d r)))
      \<and> typed (ks (snd (rSet R c (ackedKey cl ev) v d r))) \<and> typed (ks (snd (rSetNX R c (connKey cl ip) v d r)))"
    by (simp add: set setnx)
  show "typed (ks (snd (rDel R c k r)))" for k
    by (rule typed_touches [OF t write_atomic(3)]) simp
  then show "typed (ks (snd (rDel R c (ticketKey cl ip) r))) \<and> typed (ks (snd (rDel R c (inFlightKey cl ev) r)))" by blast
  have expire: "typed (ks (snd (rExpire R c k d r)))" for k d
    by (rule typed_touches [OF t write_atomic(4)])
      (use t in \<open>cases "ks r k"; auto simp: typed_def with_ttl_def split: if_splits\<close>)
  show "typed (ks (snd (rExpire R c (connKey cl ip) d r)))" "typed (ks (snd (rExpire R c (ratelimitKey ip) (windowSeconds * second) r)))"
    by (rule expire)+
  show "typed (ks (snd (rIncr R c (ratelimitKey ip) r)))"
    by (rule typed_touches [OF t write_atomic(5)]) (auto simp: key_types elim!: is_str.elims(2))
  have "typed (ks (snd (rRPush R c (eventsKey cl) v r)))"
    by (rule typed_touches [OF t write_atomic(6)]) (auto simp: key_types elim!: is_list.elims(2))
  moreover have "typed (ks (snd (rLTrim R c (eventsKey cl) i j r)))"
    by (rule typed_touches [OF t write_atomic(7)]) (auto simp: key_types elim!: is_list.elims(2))
  ultimately show "typed (ks (snd (rRPush R c (eventsKey cl) v r))) \<and> typed (ks (snd (rLTrim R c (eventsKey cl) i j r)))" ..
qed (simp_all add: read_atomic)

context redis_atomic
begin

lemmas routes_keep_types = ty.any_route_keeps and stop_keeps_types = ty.stop_keeps

end

lemma typed_reads:
  assumes "typed m"
  shows "list_or_none (m (eventsKey cl))" and "string_key k \<or> prefix ''scorpion:conn:'' k \<Longrightarrow> str_or_none (m k)"
proof -
  show "list_or_none (m (eventsKey cl))"
    using assms by (cases "m (eventsKey cl)" rule: list_or_none.cases) (fastforce simp: typed_def key_type_def)+
  show "str_or_none (m k)" if "string_key k \<or> prefix ''scorpion:conn:'' k"
    using assms that by (cases "m k" rule: str_or_none.cases) (fastforce simp: typed_def key_type_def)+
qed

section \<open>Typed servers do not refuse commands\<close>

context redis_laws
begin

lemma Push_up:
  assumes "up c r" and "list_or_none (ks r (eventsKey cl))"
  shows "\<exists>r'. Push R s c cl e r = (None, r')"
proof -
  obtain x1 r1 where 1: "rRPush R c (eventsKey cl) e r = (x1, r1)" by force
  with assms rpush_up obtain n where x1: "x1 = Inr n" by (cases x1) auto
  have u1: "up c r1" using up_stable [OF assms(1)] 1 by (metis snd_conv)
  have "list_or_none (ks r1 (eventsKey cl))" using rpush_ok 1 x1 by fastforce
  moreover obtain x2 r2 where 2: "rLTrim R c (eventsKey cl) (wrap64 (- maxQueueDepth s)) (- 1) r1 = (x2, r2)" by force
  ultimately obtain a where "x2 = Inr a" using u1 ltrim_up by (cases x2) auto
  with 1 2 x1 show ?thesis by (simp add: Push_def)
qed

lemma insert_not_failing:
  assumes "RDB h = R" and "up (rq_ctx (ctx_req c)) (rdb w)" and "typed (ks (rdb w))" and "\<forall>p. \<not> isl (lib_marshalEvent (Libs h) p)"
  shows "status_of (fst (V1InsertEvent h c w)) \<in> {201, 400, 403}"
proof -
  let ?cl = "ctx_params c ''client_id''" and ?bind = "lib_Bind (Libs h) (ctx_req c) (limited_body (MaxEventBytes (CfgSSE (Cfg h))) (rq_Body (ctx_req c)))"
  show ?thesis
  proof (cases "?cl = [] \<or> get_ok c ClientID \<noteq> ?cl \<or> isl ?bind \<or> er_Type (projr ?bind) = []")
    case True
    then show ?thesis by (cases ?bind) (auto simp: V1InsertEvent_def Let_def)
  next
    case False
    then obtain req where req: "?bind = Inr req" by (cases ?bind) auto
    let ?p = "\<lparr>ev_ID = uuids w (drawn w), ev_Type = er_Type req, ev_Data = er_Data req\<rparr>"
    obtain raw where raw: "lib_marshalEvent (Libs h) ?p = Inr raw" using assms(4) by (metis sum.collapse(2))
    obtain r' where "Push R (Events h) (rq_ctx (ctx_req c)) ?cl raw (rdb w) = (None, r')"
      using Push_up [OF assms(2) typed_reads(1) [OF assms(3)]] by blast
    with False req raw assms(1) show ?thesis by (simp add: V1InsertEvent_def NewString_def on_rdb_def Let_def)
  qed
qed

lemma poll_not_failing:
  assumes "RDB h = R" and "up (rq_ctx (ctx_req c)) (rdb w)" and "typed (ks (rdb w))"
  shows "status_of (fst (V1Poll h c w)) \<in> {200, 400, 403}"
  using Drain_up [OF assms(2) typed_reads(1) [OF assms(3)], of "Events h" "ctx_params c ''client_id''"
      "poll_batch (BatchSize (CfgSSE (Cfg h))) (ctx_query c ''batch_size'')"] assms(1)
  by (auto simp: V1Poll_def on_rdb_def Let_def)

lemma ack_not_failing:
  assumes "RDB h = R" and "up (rq_ctx (ctx_req c)) (rdb w)"
  shows "status_of (fst (V1AckEvent h c w)) \<in> {200, 400, 403, 404, 409, 502, 503}"
proof (cases "\<exists>req. ack_admitted h c w req")
  case True
  then obtain req where a: "ack_admitted h c w req" ..
  obtain res w' where r: "V1AckEvent h c w = (res, w')" by force
  from ack_by_phase [OF a assms r refl] r show ?thesis
    by (auto split: phase.splits if_splits)
next
  case False
  with ack_not_admitted [of h c w] show ?thesis by auto
qed

end

section \<open>Properties\<close>

text \<open>
  C20: The key space keeps its types. Whatever a request contains and however Redis, NATS, the libraries and the connection
  behave, failed and half-answered commands included, serving a route leaves lists under the keys of event queues, decimal
  counters under those of the rate limiter and strings under all other keys of the program; so does the cleanup at the end.
\<close>

theorem keyspace_stays_typed:
  assumes "redis_atomic (RDB h) ks up" and "typed (ks (rdb w))"
  shows "typed (ks (rdb (snd (serve_route h text io r c w))))
    \<and> (stop h (\<lambda>w. (e, w)) w = Some w' \<longrightarrow> typed (ks (rdb w')))"
  using redis_atomic.routes_keep_types [OF assms(1) refl, of w "text" io r c]
    redis_atomic.stop_keeps_types [OF assms(1) refl, of "\<lambda>w. (e, w)" w w'] assms(2) by simp

lemma demo_atomic: "redis_atomic (RDB demo_handlers) mks mup"
  using ma.redis_atomic_axioms by simp

lemma mem3_typed: "typed (mks mem3)"
  by (auto simp: typed_def mem3_def mks_def intro: key_types split: if_splits)

theorem keyspace_stays_typed_witness:
  "typed (mks (rdb (snd (serve_route demo_handlers (\<lambda>_. []) demo_io (last (srv_routes (NewServer default_config))) demo_stream_ctx (demo_state mem3)))))"
  using keyspace_stays_typed [OF demo_atomic, of "demo_state mem3"] mem3_typed by simp

text \<open>
  On a typed key space and a Redis that answers, no store operation fails: inserting an event is answered with 201, 400 or
  403 (if events can be encoded), polling with 200, 400 or 403, and an acknowledgement never with 500.
\<close>

theorem typed_requests_do_not_fail:
  assumes "redis_laws (RDB h) ks up" and "typed (ks (rdb w))" and "up (rq_ctx (ctx_req c)) (rdb w)"
    and "\<forall>p. \<not> isl (lib_marshalEvent (Libs h) p)"
  shows "status_of (fst (V1InsertEvent h c w)) \<in> {201, 400, 403} \<and> status_of (fst (V1Poll h c w)) \<in> {200, 400, 403}
    \<and> status_of (fst (V1AckEvent h c w)) \<in> {200, 400, 403, 404, 409, 502, 503}"
  using redis_laws.insert_not_failing [OF assms(1) refl assms(3,2,4)] redis_laws.poll_not_failing [OF assms(1) refl assms(3,2)]
    redis_laws.ack_not_failing [OF assms(1) refl assms(3)] by blast

theorem typed_requests_do_not_fail_witness:
  "status_of (fst (V1Poll demo_handlers (demo_ctx []) (demo_state mem3))) \<in> {200, 400, 403}"
  using typed_requests_do_not_fail [OF demo_redis, of "demo_state mem3" "demo_ctx []"] mem3_typed
  by (simp add: demo_handlers_def demo_libs_def mup_def mem3_def)

end
