(* ===== verification/Cluster.thy ===== *)
theory Cluster
  imports Keyspace_Types
begin

text \<open>
  Several instances over one Redis. The stream handler (\<open>handlers/stream.go\<close>) and its loop (\<open>stream/loop.go\<close>) are cut into
  pieces: the checks up to the consumed ticket, the registration with the first drain, and single rounds of the
  loop with the deferred calls at its end; put together they are the handler. A step relation then lets any number of
  requests and streams of any number of instances interleave at these points, and its invariants are proved by
  rule induction: who holds a connection slot, and what the gauges show.
\<close>

section \<open>A stream in pieces\<close>

record session =
  ss_inst :: nat
  ss_client :: string
  ss_ip :: string
  ss_wr :: respw
  ss_cb :: circuitBreaker

text \<open>The checks of a stream request before it registers its connection: refused, or a client and an address.\<close>

definition stream_gate ::
  "('r, 'n) HTTPHandlers \<Rightarrow> bool \<Rightarrow> echo_ctx \<Rightarrow> ('r, 'n) world \<Rightarrow> (response outcome + string \<times> string) \<times> ('r, 'n) world" where
  "stream_gate h flusher c w =
     (let ticketStr = ctx_query c ''ticket''
      in if \<not> flusher then (Inl (Ret (errorResponse StatusInternalServerError ''internal_error'' ''Streaming not supported.'')), w)
         else if ticketStr = [] then (Inl (Ret access_denied), w)
         else case ValidateTicket (lib_jwt (Libs h)) (CfgAuth (Cfg h)) ticketStr w of
           (Inl _, w1) \<Rightarrow> (Inl (Ret access_denied), count rejected w1)
         | (Inr claims, w1) \<Rightarrow>
             (case ctx_vals c ClientIP of
                None \<Rightarrow> (Inl Panic, w1)
              | Some requestIP \<Rightarrow>
                  if requestIP = [] then (Inl (Ret (errorResponse StatusInternalServerError ''internal_error'' ''Failed to determine client IP.'')), w1)
                  else if requestIP \<noteq> cl_IP claims
                  then (Inl (Ret access_denied), count (\<lambda>m. rejected (m\<lparr>AuthIPMismatchTotal := Suc (AuthIPMismatchTotal m)\<rparr>)) w1)
                  else (case on_rdb (ValidateAndConsume (RDB h) (rq_ctx (ctx_req c)) (cl_Subject claims) requestIP (cl_ID claims)) w1 of
                    (Inl _, w2) \<Rightarrow> (Inl (Ret (errorResponse StatusInternalServerError ''internal_error'' ''Ticket validation failed.'')), w2)
                  | (Inr False, w2) \<Rightarrow> (Inl (Ret access_denied), count rejected w2)
                  | (Inr True, w2) \<Rightarrow> (Inr (cl_Subject claims, requestIP), w2))))"

text \<open>The deferred calls at the end of a stream.\<close>

definition close_session :: "('r, 'n) HTTPHandlers \<Rightarrow> string \<Rightarrow> string \<Rightarrow> ('r, 'n) world \<Rightarrow> ('r, 'n) world" where
  "close_session h cl ip w =
     (let (_, w1) = on_rdb (Delete (RDB h) Background cl ip) w
      in count (\<lambda>m. m\<lparr>ActiveConnections := ActiveConnections m - 1\<rparr>) w1)"

text \<open>The registration, the headers, the drain on connect and the two tickers.\<close>

definition open_session ::
  "('r, 'n) HTTPHandlers \<Rightarrow> nat \<Rightarrow> go_context \<Rightarrow> string \<Rightarrow> string \<Rightarrow> respw \<Rightarrow> ('r, 'n) world
     \<Rightarrow> (stream_result + unit) \<times> session \<times> ('r, 'n) world" where
  "open_session h i c cl ip wr w =
     (let s0 = \<lparr>ss_inst = i, ss_client = cl, ss_ip = ip, ss_wr = wr, ss_cb = newCircuitBreaker 5 (10 * second)\<rparr>
      in case on_rdb (Conn_Register (RDB h) (Conns h) c cl ip (ConnTTL (CfgSSE (Cfg h)))) w of
        (Inl _, w1) \<Rightarrow> (Inl (Refused (Ret (errorResponse StatusInternalServerError ''internal_error'' ''Failed to register connection.''))), s0, w1)
      | (Inr False, w1) \<Rightarrow>
          (Inl (Refused (Ret (errorResponse StatusTooManyRequests ''duplicate_connection'' ''An active stream already exists for this user and IP.''))),
           s0, count (\<lambda>m. rejected (m\<lparr>DuplicateConnectionsTotal := Suc (DuplicateConnectionsTotal m)\<rparr>)) w1)
      | (Inr True, w1) \<Rightarrow>
          let w2 = count (\<lambda>m. m\<lparr>ConnectionsTotal := inc_at [''ok''] (ConnectionsTotal m), ActiveConnections := ActiveConnections m + 1\<rparr>) w1;
              st = drainAndFlush (stream_env_of h cl ip) c \<lparr>sw = w2, swr = w_Flush wr, scb = newCircuitBreaker 5 (10 * second)\<rparr>;
              s1 = s0\<lparr>ss_wr := swr st, ss_cb := scb st\<rparr>
          in if PollInterval (CfgSSE (Cfg h)) \<le> 0 \<or> HeartbeatInterval (CfgSSE (Cfg h)) \<le> 0
             then (Inl (Streamed Panicked), s1, close_session h cl ip (sw st))
             else (Inr (), s1, sw st))"

text \<open>One round of the loop.\<close>

definition session_event ::
  "('r, 'n) HTTPHandlers \<Rightarrow> select \<Rightarrow> session \<Rightarrow> ('r, 'n) world \<Rightarrow> loop_end \<times> session \<times> ('r, 'n) world" where
  "session_event h e s w =
     (let (how, st) = select_loop (stream_env_of h (ss_client s) (ss_ip s)) (ready_channels (AppCTX h) [e])
            \<lparr>sw = w, swr = ss_wr s, scb = ss_cb s\<rparr>;
          s1 = s\<lparr>ss_wr := swr st, ss_cb := scb st\<rparr>
      in if how = Running then (Running, s1, sw st) else (how, s1, close_session h (ss_client s) (ss_ip s) (sw st)))"

fun session_run ::
  "('r, 'n) HTTPHandlers \<Rightarrow> select list \<Rightarrow> session \<Rightarrow> ('r, 'n) world \<Rightarrow> loop_end \<times> session \<times> ('r, 'n) world" where
  "session_run h [] s w = (Running, s, w)"
| "session_run h (e # es) s w =
     (case session_event h e s w of
        (Running, s', w') \<Rightarrow> session_run h es s' w'
      | (how, s', w') \<Rightarrow> (how, s', w'))"

section \<open>The pieces, put together, are the handler\<close>

lemma stream_gate_handler:
  "V1SSEStreamEvents h flusher es c wr w =
     (case stream_gate h flusher c w of
        (Inl res, w1) \<Rightarrow> (Refused res, wr, w1)
      | (Inr (cl, ip), w1) \<Rightarrow> run_stream h (rq_ctx (ctx_req c)) cl ip es wr w1)"
  by (simp add: V1SSEStreamEvents_def stream_gate_def Let_def split: prod.split sum.split option.split bool.split)

lemma stream_eta [simp]: "\<lparr>sw = sw st, swr = swr st, scb = scb st\<rparr> = (st :: ('r, 'n) stream)"
  by simp

lemma session_upd [simp]: "ss_client (s\<lparr>ss_wr := x, ss_cb := y\<rparr>) = ss_client s" "ss_ip (s\<lparr>ss_wr := x, ss_cb := y\<rparr>) = ss_ip s"
  by simp_all

lemma env_cfg: "se_cfg (stream_env_of h cl ip) = CfgSSE (Cfg h)"
  by (simp add: stream_env_of_def)

lemma select_loop_Cons:
  "select_loop env (e # es) st = (case select_loop env [e] st of
     (Running, st') \<Rightarrow> select_loop env es st' | (how, st') \<Rightarrow> (how, st'))"
  by (cases e) (simp_all add: split_beta split: option.split prod.split)

lemma session_run_loop:
  "session_run h es s w =
     (let (how, st) = select_loop (stream_env_of h (ss_client s) (ss_ip s)) (ready_channels (AppCTX h) es)
            \<lparr>sw = w, swr = ss_wr s, scb = ss_cb s\<rparr>;
          s1 = s\<lparr>ss_wr := swr st, ss_cb := scb st\<rparr>
      in if how = Running then (Running, s1, sw st) else (how, s1, close_session h (ss_client s) (ss_ip s) (sw st)))"
proof (induction es arbitrary: s w)
  case Nil
  then show ?case by (simp add: ready_channels_def)
next
  case (Cons e es)
  let ?env = "stream_env_of h (ss_client s) (ss_ip s)" and ?st = "\<lparr>sw = w, swr = ss_wr s, scb = ss_cb s\<rparr>"
  show ?case
  proof (cases "AppCTX h = Background \<and> e = AppDone")
    case True
    then show ?thesis by (simp add: session_event_def ready_channels_def Cons.IH)
  next
    case False
    then have r: "ready_channels (AppCTX h) (e # es) = e # ready_channels (AppCTX h) es" "ready_channels (AppCTX h) [e] = [e]"
      by (auto simp: ready_channels_def)
    obtain how st where e: "select_loop ?env [e] ?st = (how, st)" by force
    show ?thesis
      by (cases how) (simp_all add: session_event_def Cons.IH r select_loop_Cons [of ?env e "ready_channels (AppCTX h) es"] e split_beta Let_def)
  qed
qed

lemma run_stream_pieces:
  "run_stream h c cl ip es wr w =
     (case open_session h i c cl ip wr w of
        (Inl res, s, w1) \<Rightarrow> (res, ss_wr s, w1)
      | (Inr _, s, w1) \<Rightarrow> (case session_run h es s w1 of (how, s', w2) \<Rightarrow> (Streamed how, ss_wr s', w2)))"
  by (simp add: run_stream_def open_session_def session_run_loop RunLoop_def close_session_def env_cfg Let_def split_beta
      split: sum.split bool.split)

section \<open>The cluster\<close>

text \<open>A stream request that has consumed its ticket and not yet registered.\<close>

record admitted =
  ad_inst :: nat
  ad_ctx :: go_context
  ad_client :: string
  ad_ip :: string
  ad_wr :: respw

text \<open>
  Any number of instances over one Redis; each has its own metrics, clock and NATS connection (a world, whose
  Redis part is the shared one while the instance moves).
\<close>

record ('r, 'n) cluster =
  cl_redis :: 'r
  cl_inst :: "nat \<Rightarrow> ('r, 'n) world"
  cl_waiting :: "admitted list"
  cl_sessions :: "session list"

definition at_inst :: "nat \<Rightarrow> ('r, 'n) cluster \<Rightarrow> ('r, 'n) world" where
  "at_inst i k = (cl_inst k i)\<lparr>rdb := cl_redis k\<rparr>"

definition put_inst :: "nat \<Rightarrow> ('r, 'n) world \<Rightarrow> ('r, 'n) cluster \<Rightarrow> ('r, 'n) cluster" where
  "put_inst i w k = k\<lparr>cl_redis := rdb w, cl_inst := (cl_inst k)(i := w)\<rparr>"

definition without :: "nat \<Rightarrow> 'a list \<Rightarrow> 'a list" where
  "without n xs = take n xs @ drop (Suc n) xs"

text \<open>The key of the connection slot of a session.\<close>

definition slot_key :: "session \<Rightarrow> string" where
  "slot_key s = connKey (ss_client s) (ss_ip s)"

text \<open>
  A round of the poll ticker renews the lease of the slot when Redis answers its \<open>EXPIRE\<close>. The label of a step says
  whether a slot was taken or renewed by it.
\<close>

definition lease_renewed :: "('r, 'n) HTTPHandlers \<Rightarrow> select \<Rightarrow> session \<Rightarrow> 'r \<Rightarrow> bool" where
  "lease_renewed h e s r = (case e of
     PollTick c \<Rightarrow> fst (Refresh (RDB h) c (ss_client s) (ss_ip s) (ConnTTL (CfgSSE (Cfg h))) r) = None
   | _ \<Rightarrow> False)"

datatype move = Taken string | Renewed string | Other

text \<open>
  What an instance \<open>i\<close> with the handlers \<open>hs i\<close> can do next: serve a request of another route, refuse or admit a stream request,
  refuse or open an admitted one, run a round of a running stream, after which it runs on or ends.
\<close>

inductive inst_step ::
  "(nat \<Rightarrow> ('r, 'n) HTTPHandlers) \<Rightarrow> move \<Rightarrow> ('r, 'n) cluster \<Rightarrow> ('r, 'n) cluster \<Rightarrow> bool" for hs where
  request: "rt_handler r \<noteq> EStream \<Longrightarrow> serve_route (hs i) text io r c (at_inst i k) = (res, w) \<Longrightarrow>
    inst_step hs Other k (put_inst i w k)"
| refuse: "stream_gate (hs i) flusher c (at_inst i k) = (Inl res, w) \<Longrightarrow> inst_step hs Other k (put_inst i w k)"
| admit: "stream_gate (hs i) flusher c (at_inst i k) = (Inr (cl, ip), w) \<Longrightarrow>
    inst_step hs Other k ((put_inst i w k)\<lparr>cl_waiting := cl_waiting k @
      [\<lparr>ad_inst = i, ad_ctx = rq_ctx (ctx_req c), ad_client = cl, ad_ip = ip, ad_wr = wr\<rparr>]\<rparr>)"
| reject: "n < length (cl_waiting k) \<Longrightarrow> a = cl_waiting k ! n \<Longrightarrow>
    open_session (hs (ad_inst a)) (ad_inst a) (ad_ctx a) (ad_client a) (ad_ip a) (ad_wr a) (at_inst (ad_inst a) k) = (Inl res, s, w) \<Longrightarrow>
    inst_step hs Other k ((put_inst (ad_inst a) w k)\<lparr>cl_waiting := without n (cl_waiting k)\<rparr>)"
| opens: "n < length (cl_waiting k) \<Longrightarrow> a = cl_waiting k ! n \<Longrightarrow>
    open_session (hs (ad_inst a)) (ad_inst a) (ad_ctx a) (ad_client a) (ad_ip a) (ad_wr a) (at_inst (ad_inst a) k) = (Inr u, s, w) \<Longrightarrow>
    inst_step hs (Taken (slot_key s)) k
      ((put_inst (ad_inst a) w k)\<lparr>cl_waiting := without n (cl_waiting k), cl_sessions := cl_sessions k @ [s]\<rparr>)"
| runs: "n < length (cl_sessions k) \<Longrightarrow> s = cl_sessions k ! n \<Longrightarrow>
    session_event (hs (ss_inst s)) e s (at_inst (ss_inst s) k) = (Running, s', w) \<Longrightarrow>
    inst_step hs (if lease_renewed (hs (ss_inst s)) e s (cl_redis k) then Renewed (slot_key s) else Other) k
      ((put_inst (ss_inst s) w k)\<lparr>cl_sessions := (cl_sessions k)[n := s']\<rparr>)"
| ends: "n < length (cl_sessions k) \<Longrightarrow> s = cl_sessions k ! n \<Longrightarrow>
    session_event (hs (ss_inst s)) e s (at_inst (ss_inst s) k) = (how, s', w) \<Longrightarrow> how \<noteq> Running \<Longrightarrow>
    inst_step hs Other k ((put_inst (ss_inst s) w k)\<lparr>cl_sessions := without n (cl_sessions k)\<rparr>)"

text \<open>
  A step of the cluster: one of an instance, or of Redis, where keys expire and the server goes up and down, but the
  leases of running streams hold. (What keeps them is studied in \<open>Cluster_Leases\<close>.)
\<close>

inductive cluster_step ::
  "('r \<Rightarrow> keyspace) \<Rightarrow> (nat \<Rightarrow> ('r, 'n) HTTPHandlers) \<Rightarrow> ('r, 'n) cluster \<Rightarrow> ('r, 'n) cluster \<Rightarrow> bool"
  for ks hs where
  moves: "inst_step hs l k k' \<Longrightarrow> cluster_step ks hs k k'"
| expires: "key \<notin> slot_key ` set (cl_sessions k) \<Longrightarrow> ks r = (ks (cl_redis k))(key := None) \<Longrightarrow>
    cluster_step ks hs k (k\<lparr>cl_redis := r\<rparr>)"

text \<open>The invariant: the running streams hold their slots, each its own.\<close>

definition slots_held :: "keyspace \<Rightarrow> session list \<Rightarrow> bool" where
  "slots_held m ss \<longleftrightarrow> distinct (map slot_key ss) \<and> set (map slot_key ss) \<subseteq> dom m"

lemma conn_taken_slot: "conn_taken ks r (ss_client s) (ss_ip s) \<longleftrightarrow> slot_key s \<in> dom (ks r)"
  by (auto simp: conn_taken_def slot_key_def)

lemma at_inst_rdb [simp]: "rdb (at_inst i k) = cl_redis k"
  by (simp add: at_inst_def)

lemma put_inst_simps [simp]: "cl_redis (put_inst i w k) = rdb w" "cl_sessions (put_inst i w k) = cl_sessions k"
  "cl_waiting (put_inst i w k) = cl_waiting k" "cl_inst (put_inst i w k) = (cl_inst k)(i := w)"
  by (simp_all add: put_inst_def)

lemma map_without [simp]: "map f (without n xs) = without n (map f xs)"
  by (simp add: without_def take_map drop_map)

lemma without_distinct:
  assumes "n < length xs" and "distinct xs"
  shows "distinct (without n xs)" and "xs ! n \<notin> set (without n xs)" and "set (without n xs) \<subseteq> set xs"
proof -
  have "distinct (take n xs @ xs ! n # drop (Suc n) xs)" using assms id_take_nth_drop by metis
  then show "distinct (without n xs)" "xs ! n \<notin> set (without n xs)" by (auto simp: without_def)
  show "set (without n xs) \<subseteq> set xs" by (auto simp: without_def dest: in_set_takeD in_set_dropD)
qed

lemma without_filter:
  assumes "n < length xs"
  shows "length (filter P xs) = length (filter P (without n xs)) + (if P (xs ! n) then 1 else 0)"
proof -
  have "filter P xs = filter P (take n xs @ xs ! n # drop (Suc n) xs)" using assms id_take_nth_drop by metis
  then show ?thesis by (simp add: without_def)
qed

section \<open>The slots of running streams\<close>

context redis_stable
begin

lemma stream_gate_keeps: "RDB h = R \<Longrightarrow> I (rdb w) \<Longrightarrow> I (rdb (snd (stream_gate h flusher c w)))"
  by (simp add: stream_gate_def split_beta Let_def ValidateAndConsume_keeps split: sum.split bool.split option.split prod.split)

text \<open>An opened stream has registered, and then drained its queue.\<close>

lemma open_session_cases:
  assumes "RDB h = R" and "open_session h i c cl ip wr w = (x, s, w')"
  obtains y r1 where "Conn_Register R (Conns h) c cl ip (ConnTTL (CfgSSE (Cfg h))) (rdb w) = (y, r1)" "y \<noteq> Inr True" "isl x" "rdb w' = r1"
  | r1 w1 where "Conn_Register R (Conns h) c cl ip (ConnTTL (CfgSSE (Cfg h))) (rdb w) = (Inr True, r1)" "I r1 \<Longrightarrow> I (rdb w1)"
      "if isl x then w' = close_session h cl ip w1 else w' = w1 \<and> ss_client s = cl \<and> ss_ip s = ip \<and> ss_inst s = i"
proof -
  let ?d = "ConnTTL (CfgSSE (Cfg h))" and ?env = "stream_env_of h cl ip"
  have env: "se_redis ?env = R" using assms(1) by (simp add: stream_env_of_def)
  obtain y r1 where g: "Conn_Register R (Conns h) c cl ip ?d (rdb w) = (y, r1)" by force
  define st where "st = drainAndFlush ?env c \<lparr>sw = count (\<lambda>m. m\<lparr>ConnectionsTotal := inc_at [''ok''] (ConnectionsTotal m),
    ActiveConnections := ActiveConnections m + 1\<rparr>) (w\<lparr>rdb := r1\<rparr>), swr = w_Flush wr, scb = newCircuitBreaker 5 (10 * second)\<rparr>"
  have st: "I r1 \<Longrightarrow> I (rdb (sw st))" unfolding st_def by (rule drainAndFlush_keeps [OF env]) simp
  show thesis
  proof (cases "y = Inr True")
    case True
    with assms g have "if isl x then w' = close_session h cl ip (sw st) else w' = sw st \<and> ss_client s = cl \<and> ss_ip s = ip \<and> ss_inst s = i"
      unfolding st_def by (auto simp: open_session_def on_rdb_def Let_def split: if_splits)
    with that(2) g True st show ?thesis by blast
  next
    case False
    with assms g have "isl x \<and> rdb w' = r1"
      by (cases y) (auto simp: open_session_def on_rdb_def Let_def split: bool.splits)
    with that(1) g False show ?thesis by blast
  qed
qed

end

lemma session_event_kept:
  "session_event h e s w = (how, s', w') \<Longrightarrow> slot_key s' = slot_key s \<and> ss_inst s' = ss_inst s"
  by (auto simp: session_event_def slot_key_def Let_def split: prod.splits if_splits)

text \<open>
  An invariant about one connection key \<open>q\<close>: the removal of other connections keeps it, and while it holds the key
  is not free. The steps of all instances keep it as long as the stream that holds the key runs.
\<close>

locale slot_invariant = redis_stable R I D for R :: "'r redis" and I D +
  fixes q :: string
  assumes other_deletes: "connKey cl ip \<noteq> q \<Longrightarrow> I r \<Longrightarrow> I (snd (Delete R c cl ip r))"
    and not_free: "I r \<Longrightarrow> Conn_Register R s c cl ip d r = (Inr True, r') \<Longrightarrow> connKey cl ip \<noteq> q"
begin

lemma close_session_keeps: "RDB h = R \<Longrightarrow> connKey cl ip \<noteq> q \<Longrightarrow> I (rdb w) \<Longrightarrow> I (rdb (close_session h cl ip w))"
  by (simp add: close_session_def split_beta other_deletes)

lemma open_session_keeps:
  assumes "RDB h = R" and "open_session h i c cl ip wr w = (x, s, w')" and "I (rdb w)"
  shows "I (rdb w')"
proof (cases rule: open_session_cases [OF assms(1,2)])
  case (1 y r1)
  with Conn_Register_keeps [OF assms(3), of "Conns h" c cl ip "ConnTTL (CfgSSE (Cfg h))"] show ?thesis by simp
next
  case (2 r1 w1)
  have "I r1" using Conn_Register_keeps [OF assms(3), of "Conns h" c cl ip "ConnTTL (CfgSSE (Cfg h))"] 2(1) by simp
  with 2 close_session_keeps [OF assms(1) not_free [OF assms(3) 2(1)]] show ?thesis by (auto split: if_splits)
qed

lemma session_event_keeps:
  assumes "RDB h = R" and "D (ConnTTL (CfgSSE (Cfg h)))" and "session_event h e s w = (how, s', w')" and "I (rdb w)"
    and "how = Running \<or> slot_key s \<noteq> q"
  shows "I (rdb w')"
proof -
  obtain x st where l: "select_loop (stream_env_of h (ss_client s) (ss_ip s)) (ready_channels (AppCTX h) [e])
    \<lparr>sw = w, swr = ss_wr s, scb = ss_cb s\<rparr> = (x, st)" by force
  have "I (rdb (sw st))"
    using select_loop_keeps [of "stream_env_of h (ss_client s) (ss_ip s)" "\<lparr>sw = w, swr = ss_wr s, scb = ss_cb s\<rparr>"
        "ready_channels (AppCTX h) [e]"] assms l by (simp add: stream_env_of_def)
  with l assms(3,5) close_session_keeps [OF assms(1)] show ?thesis
    by (auto simp: session_event_def slot_key_def Let_def split: if_splits)
qed

lemma inst_step_keeps:
  assumes "inst_step hs l k k'" and "\<forall>i. RDB (hs i) = R" and "\<forall>i. D (ConnTTL (CfgSSE (Cfg (hs i))))"
    and "distinct (map slot_key (cl_sessions k))" and "q \<in> set (map slot_key (cl_sessions k'))" and "I (cl_redis k)"
  shows "I (cl_redis k')"
  using assms(1)
proof (cases rule: inst_step.cases)
  case (request r i "text" io c res w)
  with serve_route_keeps [of "hs i" r "at_inst i k" "text" io c] assms(2,6) show ?thesis by simp
next
  case (refuse i flusher c res w)
  with stream_gate_keeps [of "hs i" "at_inst i k" flusher c] assms(2,6) show ?thesis by simp
next
  case (admit i flusher c cl ip w wr)
  with stream_gate_keeps [of "hs i" "at_inst i k" flusher c] assms(2,6) show ?thesis by simp
next
  case (reject n a res s w)
  with open_session_keeps [OF _ reject(5)] assms(2,6) show ?thesis by simp
next
  case (opens n a u s w)
  with open_session_keeps [OF _ opens(5)] assms(2,6) show ?thesis by simp
next
  case (runs n s e s' w)
  with session_event_keeps [OF _ _ runs(5)] assms(2,3,6) show ?thesis by simp
next
  case (ends n s e how s' w)
  have "slot_key s \<noteq> q"
    using without_distinct(2) [OF _ assms(4), of n] ends(2-4) assms(5) by auto
  with session_event_keeps [OF _ _ ends(5)] ends(2) assms(2,3,6) show ?thesis by simp
qed

end

text \<open>The connection keys of the running streams, before and after a step.\<close>

lemma inst_step_sessions:
  assumes "inst_step hs l k k'"
  obtains "map slot_key (cl_sessions k') = map slot_key (cl_sessions k)" "\<And>q. l \<noteq> Taken q"
  | n where "n < length (cl_sessions k)" "map slot_key (cl_sessions k') = without n (map slot_key (cl_sessions k))" "l = Other"
  | q where "map slot_key (cl_sessions k') = map slot_key (cl_sessions k) @ [q]" "l = Taken q"
  using assms
proof (cases rule: inst_step.cases)
  case (runs n s e s' w)
  then have "map slot_key (cl_sessions k') = map slot_key (cl_sessions k)"
    using session_event_kept [OF runs(5)] by (simp add: map_update list_update_same_conv)
  with that(1) runs(1) show ?thesis by (simp split: if_splits)
qed (use that in auto)

lemma inst_step_taken:
  assumes "inst_step hs (Taken q) k k'" and "redis_stable R I D" and "\<forall>i. RDB (hs i) = R"
  obtains s c cl ip i r1 where "Conn_Register R s c cl ip (ConnTTL (CfgSSE (Cfg (hs i)))) (cl_redis k) = (Inr True, r1)" "q = connKey cl ip"
    "I r1 \<Longrightarrow> I (cl_redis k')"
  using assms(1)
proof (cases rule: inst_step.cases)
  case (opens n a u s w)
  show ?thesis
    by (rule redis_stable.open_session_cases [OF assms(2) assms(3) [rule_format] opens(5)])
      (use that opens in \<open>auto simp: slot_key_def\<close>)
qed (auto split: if_splits)

lemma inst_step_distinct:
  assumes "inst_step hs l k k'" and "distinct (map slot_key (cl_sessions k))" and "\<And>q. l = Taken q \<Longrightarrow> q \<notin> set (map slot_key (cl_sessions k))"
  shows "distinct (map slot_key (cl_sessions k'))"
  by (rule inst_step_sessions [OF assms(1)]) (use assms(2,3) without_distinct(1) [OF _ assms(2)] in auto)

text \<open>That a slot is taken is such an invariant.\<close>

sublocale redis_atomic \<subseteq> taken: slot_invariant R "\<lambda>r. conn_taken ks r cl ip" "\<lambda>d. 0 < d" "connKey cl ip" for cl ip
proof unfold_locales
  fix cl' ip' c r assume "connKey cl' ip' \<noteq> connKey cl ip" and "conn_taken ks r cl ip"
  then show "conn_taken ks (snd (Delete R c cl' ip' r)) cl ip"
    unfolding conn_taken_def Delete_def snd_apfst by (intro touches_present [OF write_atomic(3)]) auto
next
  fix r s c cl' ip' d r' assume "conn_taken ks r cl ip" and "Conn_Register R s c cl' ip' d r = (Inr True, r')"
  with Conn_Register_effect [OF this(2)] show "connKey cl' ip' \<noteq> connKey cl ip" by (auto simp: conn_taken_def)
qed

context redis_atomic
begin

lemma inst_step_slots:
  assumes "inst_step hs l k k'" and "\<forall>i. RDB (hs i) = R" and "\<forall>i. 0 < ConnTTL (CfgSSE (Cfg (hs i)))"
    and held: "slots_held (ks (cl_redis k)) (cl_sessions k)"
  shows "slots_held (ks (cl_redis k')) (cl_sessions k')"
proof -
  have d: "distinct (map slot_key (cl_sessions k))" "set (map slot_key (cl_sessions k)) \<subseteq> dom (ks (cl_redis k))"
    using held by (simp_all add: slots_held_def)
  have old: "connKey cl ip \<in> dom (ks (cl_redis k'))" if "connKey cl ip \<in> set (map slot_key (cl_sessions k))" "connKey cl ip \<in> set (map slot_key (cl_sessions k'))" for cl ip
    using taken.inst_step_keeps [OF assms(1-3) d(1) that(2)] d(2) that(1) by (auto simp: conn_taken_def)
  have new: "q \<notin> dom (ks (cl_redis k)) \<and> q \<in> dom (ks (cl_redis k'))" if l: "l = Taken q" for q
  proof -
    have "redis_stable R (\<lambda>r. q \<in> dom (ks r)) (\<lambda>d. 0 < d)" if "q = connKey cl ip" for cl ip
      using slot.redis_stable_axioms [of cl ip] that by (simp add: conn_taken_def domIff)
    moreover obtain cl ip where "q = connKey cl ip"
      by (rule inst_step_taken [OF assms(1) [unfolded l] ui.redis_stable_axioms [of Background] assms(2)])
    ultimately have "redis_stable R (\<lambda>r. q \<in> dom (ks r)) (\<lambda>d. 0 < d)" by blast
    from inst_step_taken [OF assms(1) [unfolded l] this assms(2)] obtain s c cl ip i r1 where
      "Conn_Register R s c cl ip (ConnTTL (CfgSSE (Cfg (hs i)))) (cl_redis k) = (Inr True, r1)" "q = connKey cl ip"
      "q \<in> dom (ks r1) \<Longrightarrow> q \<in> dom (ks (cl_redis k'))" by blast
    with Conn_Register_effect [OF this(1)] show ?thesis by auto
  qed
  have "distinct (map slot_key (cl_sessions k'))"
    by (rule inst_step_distinct [OF assms(1) d(1)]) (use new d(2) in blast)
  moreover have "q \<in> dom (ks (cl_redis k'))" if q: "q \<in> set (map slot_key (cl_sessions k'))" for q
  proof (cases "q \<in> set (map slot_key (cl_sessions k))")
    case True
    then obtain cl ip where "q = connKey cl ip" by (auto simp: slot_key_def)
    with old True q show ?thesis by blast
  next
    case False
    have "l = Taken q"
      by (rule inst_step_sessions [OF assms(1)]) (use False q without_distinct(3) [OF _ d(1)] in auto)
    with new show ?thesis by blast
  qed
  ultimately show ?thesis by (auto simp: slots_held_def)
qed

lemma cluster_step_slots:
  assumes "cluster_step ks hs k k'" and "\<forall>i. RDB (hs i) = R" and "\<forall>i. 0 < ConnTTL (CfgSSE (Cfg (hs i)))"
    and "slots_held (ks (cl_redis k)) (cl_sessions k)"
  shows "slots_held (ks (cl_redis k')) (cl_sessions k')"
  using assms(1)
proof cases
  case (moves l)
  from inst_step_slots [OF moves assms(2-4)] show ?thesis .
next
  case (expires key r)
  with assms(4) show ?thesis by (auto simp: slots_held_def)
qed

lemma cluster_runs_slots:
  assumes "(cluster_step ks hs)\<^sup>*\<^sup>* k k'" and "\<forall>i. RDB (hs i) = R" and "\<forall>i. 0 < ConnTTL (CfgSSE (Cfg (hs i)))"
    and "slots_held (ks (cl_redis k)) (cl_sessions k)"
  shows "slots_held (ks (cl_redis k')) (cl_sessions k')"
  using assms(1) by induction (use assms cluster_step_slots in blast)+

end

section \<open>The gauges of the instances\<close>

abbreviation active :: "('r, 'n) world \<Rightarrow> int" where
  "active w \<equiv> ActiveConnections (mtr w)"

lemma auth_mtr [simp]:
  "mtr (snd (ValidateTicket J cfg tok w)) = mtr w" "mtr (snd (ValidateRealToken J cfg tok w)) = mtr w"
  "mtr (snd (GenerateTicket J cfg cl ip w)) = mtr w"
  by (simp_all add: ValidateTicket_def ValidateRealToken_def GenerateTicket_def time_now_def NewString_def Let_def split_beta
      split: sum.split)

lemma on_nats_mtr [simp]: "mtr (snd (on_nats f w)) = mtr w"
  by (simp add: on_nats_def split_beta)

lemma rejected_active [simp]: "ActiveConnections (rejected m) = ActiveConnections m"
  by (simp add: rejected_def)

text \<open>The requests that are not streams leave the gauge alone.\<close>

lemma handlers_active [simp]:
  "active (snd (V1InsertEvent h c w)) = active w" "active (snd (V1Poll h c w)) = active w" "active (snd (Healthz h text c w)) = active w"
  by (simp_all add: V1InsertEvent_def V1Poll_def Healthz_def split_beta Let_def split: sum.split option.split prod.split)

lemma V1AckEvent_active [simp]: "active (snd (V1AckEvent h c w)) = active w"
  by (simp add: V1AckEvent_def ack_publish_def ack_invalid_def ack_request_def split_beta Let_def split: sum.split option.split prod.split)

lemma V1AuthTicket_active [simp]: "active (snd (V1AuthTicket h c w)) = active w"
  by (simp add: V1AuthTicket_def issue_ticket_def split_beta Let_def split: sum.split option.split prod.split)

lemma endpoint_active: "ep \<noteq> EStream \<Longrightarrow> active (snd (run_endpoint h text io ep c w)) = active w"
  by (cases ep) simp_all

lemma guarded_by_active:
  assumes "\<And>c w. active (snd (next c w)) = active w"
  shows "active (snd (guarded_by h g next c w)) = active w"
  using assms by (cases g) (simp_all add: TokenMiddleware_def IPMiddleware_def split_beta Let_def split: sum.split prod.split)

lemma serve_route_active: "rt_handler r \<noteq> EStream \<Longrightarrow> active (snd (serve_route h text io r c w)) = active w"
  by (simp add: serve_route_def guarded_by_active endpoint_active)

text \<open>A stream counts while it runs.\<close>

lemma stream_gate_active: "active (snd (stream_gate h flusher c w)) = active w"
  by (simp add: stream_gate_def split_beta Let_def split: sum.split bool.split option.split prod.split)

lemma close_session_active: "active (close_session h cl ip w) = active w - 1"
  by (simp add: close_session_def split_beta)

lemma open_session_active:
  assumes "open_session h i c cl ip wr w = (x, s, w')"
  shows "active w' = active w + (if isl x then 0 else 1) \<and> ss_inst s = i"
  using assms
  by (auto simp: open_session_def close_session_active drain_gauge split_beta Let_def split: sum.splits bool.splits if_splits prod.splits)

lemma session_event_active:
  assumes "session_event h e s w = (how, s', w')"
  shows "active w' = active w - (if how = Running then 0 else 1)"
  using assms select_loop_gauge [of "stream_env_of h (ss_client s) (ss_ip s)" "ready_channels (AppCTX h) [e]" "\<lparr>sw = w, swr = ss_wr s, scb = ss_cb s\<rparr>"]
  by (auto simp: session_event_def close_session_active split_beta Let_def split: if_splits)

text \<open>The streams that run on an instance, and what its gauge shows beyond them.\<close>

definition streams_on :: "nat \<Rightarrow> session list \<Rightarrow> int" where
  "streams_on i ss = int (length (filter (\<lambda>s. ss_inst s = i) ss))"

lemma streams_on_simps [simp]:
  "streams_on i [] = 0" "streams_on i (ss @ [s]) = streams_on i ss + (if ss_inst s = i then 1 else 0)"
  by (simp_all add: streams_on_def)

lemma streams_on_update: "ss_inst s' = ss_inst (ss ! n) \<Longrightarrow> streams_on i (ss[n := s']) = streams_on i ss"
proof -
  assume "ss_inst s' = ss_inst (ss ! n)"
  then have "map ss_inst (ss[n := s']) = map ss_inst ss" by (cases "n < length ss") (simp_all add: map_update list_update_same_conv list_update_beyond)
  then have "length (filter (\<lambda>j. j = i) (map ss_inst (ss[n := s']))) = length (filter (\<lambda>j. j = i) (map ss_inst ss))" by simp
  then show ?thesis unfolding filter_map length_map by (simp add: streams_on_def comp_def)
qed

lemma streams_on_without:
  "n < length ss \<Longrightarrow> streams_on i (without n ss) = streams_on i ss - (if ss_inst (ss ! n) = i then 1 else 0)"
  using without_filter [of n ss "\<lambda>s. ss_inst s = i"] by (simp add: streams_on_def)

definition uncounted :: "('r, 'n) cluster \<Rightarrow> nat \<Rightarrow> int" where
  "uncounted k i = active (cl_inst k i) - streams_on i (cl_sessions k)"

lemma at_inst_active [simp]: "active (at_inst i k) = active (cl_inst k i)"
  by (simp add: at_inst_def)

lemma inst_step_gauges: "inst_step hs l k k' \<Longrightarrow> uncounted k' i = uncounted k i"
proof (induction rule: inst_step.induct)
  case (request r j "text" io c k res w)
  with serve_route_active [of r "hs j" "text" io c "at_inst j k"] show ?case by (simp add: uncounted_def)
next
  case (refuse j flusher c k res w)
  with stream_gate_active [of "hs j" flusher c "at_inst j k"] show ?case by (simp add: uncounted_def)
next
  case (admit j flusher c k cl ip w wr)
  with stream_gate_active [of "hs j" flusher c "at_inst j k"] show ?case by (simp add: uncounted_def)
next
  case (reject n k a res s w)
  with open_session_active [OF reject(3)] show ?case by (simp add: uncounted_def)
next
  case (opens n k a u s w)
  with open_session_active [OF opens(3)] show ?case by (simp add: uncounted_def)
next
  case (runs n k s e s' w)
  with session_event_active [OF runs(3)] session_event_kept [OF runs(3)] show ?case by (simp add: uncounted_def streams_on_update)
next
  case (ends n k s e how s' w)
  with session_event_active [OF ends(3)] show ?case by (simp add: uncounted_def streams_on_without)
qed

lemma cluster_step_gauges: "cluster_step ks hs k k' \<Longrightarrow> uncounted k' i = uncounted k i"
  by (induction rule: cluster_step.induct) (simp_all add: inst_step_gauges, simp add: uncounted_def)

lemma cluster_runs_gauges: "(cluster_step ks hs)\<^sup>*\<^sup>* k k' \<Longrightarrow> uncounted k' i = uncounted k i"
  by (induction rule: rtranclp_induct) (simp_all add: cluster_step_gauges)

section \<open>A stream on two in-memory instances\<close>

definition demo_cluster :: "(mem, memnats) cluster" where
  "demo_cluster = \<lparr>cl_redis = mem_pending, cl_inst = (\<lambda>_. demo_state mem0), cl_waiting = [], cl_sessions = []\<rparr>"

lemma demo_gate:
  "\<exists>w. stream_gate demo_handlers True demo_stream_ctx (demo_state mem_pending) = (Inr (''u1'', ''1.2.3.4''), w) \<and> rdb w = mem0"
proof -
  obtain w1 where v: "ValidateTicket (lib_jwt (Libs demo_handlers)) (CfgAuth (Cfg demo_handlers)) demo_ticket (demo_state mem_pending) = (Inr demo_claims, w1)"
    using demo_ticket_valid [of mem_pending] by (metis prod.collapse)
  then have "rdb w1 = mem_pending" using auth_rdb(1) [of "lib_jwt (Libs demo_handlers)" "CfgAuth (Cfg demo_handlers)" demo_ticket "demo_state mem_pending"] by (simp add: demo_state_def)
  with v show ?thesis
    by (simp add: stream_gate_def on_rdb_def ValidateAndConsume_def atomic_ticket_validate_def mem_ops mem_pending_def)
qed

lemma open_session_Inr:
  assumes "Conn_Register (RDB h) (Conns h) c cl ip (ConnTTL (CfgSSE (Cfg h))) (rdb w) = (Inr True, r)"
    and "0 < PollInterval (CfgSSE (Cfg h))" and "0 < HeartbeatInterval (CfgSSE (Cfg h))"
  shows "\<exists>s w'. open_session h i c cl ip wr w = (Inr (), s, w')"
  using assms by (simp add: open_session_def on_rdb_def Let_def)

lemma demo_intervals: "0 < PollInterval (CfgSSE (Cfg demo_handlers))" "0 < HeartbeatInterval (CfgSSE (Cfg demo_handlers))"
  by (simp_all add: demo_handlers_def default_config_def second_def millisecond_def)

lemma demo_moves:
  "\<exists>k1 k2 s. inst_step (\<lambda>_. demo_handlers) Other demo_cluster k1 \<and> inst_step (\<lambda>_. demo_handlers) (Taken (slot_key s)) k1 k2
     \<and> cl_sessions k1 = [] \<and> cl_sessions k2 = [s]"
proof -
  have at: "at_inst 0 demo_cluster = demo_state mem_pending" by (simp add: at_inst_def demo_cluster_def demo_state_def)
  obtain w where w: "stream_gate demo_handlers True demo_stream_ctx (at_inst 0 demo_cluster) = (Inr (''u1'', ''1.2.3.4''), w)" "rdb w = mem0"
    using demo_gate at by auto
  define k1 where "k1 = (put_inst 0 w demo_cluster)\<lparr>cl_waiting := cl_waiting demo_cluster @ [\<lparr>ad_inst = 0, ad_ctx = rq_ctx (ctx_req demo_stream_ctx),
    ad_client = ''u1'', ad_ip = ''1.2.3.4'', ad_wr = demo_writer\<rparr>]\<rparr>"
  have 1: "inst_step (\<lambda>_. demo_handlers) Other demo_cluster k1" unfolding k1_def by (rule admit) (rule w(1))
  have k1: "cl_waiting k1 = [\<lparr>ad_inst = 0, ad_ctx = ReqCtx, ad_client = ''u1'', ad_ip = ''1.2.3.4'', ad_wr = demo_writer\<rparr>]"
    "cl_redis k1 = mem0" "cl_sessions k1 = []" by (simp_all add: k1_def w demo_cluster_def)
  obtain r where g: "Conn_Register (RDB demo_handlers) (Conns demo_handlers) ReqCtx ''u1'' ''1.2.3.4'' (ConnTTL (CfgSSE (Cfg demo_handlers))) (rdb (at_inst 0 k1))
      = (Inr True, r)" by (simp add: k1(2) Conn_Register_def mem_ops)
  obtain s w' where o: "open_session demo_handlers 0 ReqCtx ''u1'' ''1.2.3.4'' demo_writer (at_inst 0 k1) = (Inr (), s, w')"
    using open_session_Inr [OF g demo_intervals, of 0 demo_writer] by auto
  have "inst_step (\<lambda>_. demo_handlers) (Taken (slot_key s)) k1
      ((put_inst 0 w' k1)\<lparr>cl_waiting := without 0 (cl_waiting k1), cl_sessions := cl_sessions k1 @ [s]\<rparr>)"
    using opens [of 0 k1 "cl_waiting k1 ! 0" "\<lambda>_. demo_handlers" "()" s w'] k1(1) o by simp
  with 1 k1(3) show ?thesis by (intro exI conjI) (auto simp: put_inst_def)
qed

lemma demo_run:
  "\<exists>k. (cluster_step mks (\<lambda>_. demo_handlers))\<^sup>*\<^sup>* demo_cluster k \<and> length (cl_sessions k) = 1"
proof -
  obtain k1 k2 s where "inst_step (\<lambda>_. demo_handlers) Other demo_cluster k1" "inst_step (\<lambda>_. demo_handlers) (Taken (slot_key s)) k1 k2" "cl_sessions k2 = [s]"
    using demo_moves by blast
  then show ?thesis by (intro exI [of _ k2]) (auto intro: converse_rtranclp_into_rtranclp cluster_step.moves)
qed

section \<open>Properties\<close>

text \<open>
  One stream per client and address in the whole cluster. Any number of instances that share one Redis serve
  requests, admit, open, run and end streams in any order, with Redis commands that may fail: as long as
  the leases of running streams do not run out, no two running streams hold the same slot, and each
  holds its own in Redis.
\<close>

theorem one_stream_per_slot:
  assumes "redis_atomic R ks up" and "\<forall>i. RDB (hs i) = R" and "\<forall>i. 0 < ConnTTL (CfgSSE (Cfg (hs i)))"
    and "cl_sessions k0 = []" and "(cluster_step ks hs)\<^sup>*\<^sup>* k0 k"
  shows "distinct (map slot_key (cl_sessions k)) \<and> (\<forall>s \<in> set (cl_sessions k). conn_taken ks (cl_redis k) (ss_client s) (ss_ip s))"
proof -
  have "slots_held (ks (cl_redis k)) (cl_sessions k)"
    using redis_atomic.cluster_runs_slots [OF assms(1,5,2,3)] assms(4) by (simp add: slots_held_def)
  then show ?thesis by (auto simp: slots_held_def conn_taken_slot)
qed

theorem one_stream_per_slot_witness:
  "\<exists>k s. (cluster_step mks (\<lambda>_. demo_handlers))\<^sup>*\<^sup>* demo_cluster k \<and> cl_sessions k = [s] \<and> conn_taken mks (cl_redis k) (ss_client s) (ss_ip s)"
proof -
  obtain k where k: "(cluster_step mks (\<lambda>_. demo_handlers))\<^sup>*\<^sup>* demo_cluster k" "length (cl_sessions k) = 1" using demo_run by blast
  have "\<forall>s \<in> set (cl_sessions k). conn_taken mks (cl_redis k) (ss_client s) (ss_ip s)"
    using one_stream_per_slot [OF demo_atomic _ _ _ k(1)] by (simp add: demo_cluster_def demo_handlers_def default_config_def second_def)
  with k show ?thesis by (cases "cl_sessions k") auto
qed

text \<open>
  C21: The gauges of a cluster count the streams. Whatever Redis, the connections and the libraries do, in every state that is
  reachable from one without streams and with all gauges at zero, the gauge of active connections of each instance is the number
  of streams that run on it: every registration counts one more, and every end, by return or by panic, one less. (The steps are those of running instances;
  one that is restarted starts its gauge, and its streams, anew.)
\<close>

theorem gauges_count_streams:
  assumes "cl_sessions k0 = []" and "\<forall>i. ActiveConnections (mtr (cl_inst k0 i)) = 0" and "(cluster_step ks hs)\<^sup>*\<^sup>* k0 k"
  shows "ActiveConnections (mtr (cl_inst k i)) = streams_on i (cl_sessions k)"
  using cluster_runs_gauges [OF assms(3), of i] assms(1,2) by (simp add: uncounted_def)

theorem gauges_count_streams_witness:
  "\<exists>k. (cluster_step mks (\<lambda>_. demo_handlers))\<^sup>*\<^sup>* demo_cluster k \<and> length (cl_sessions k) = 1
     \<and> ActiveConnections (mtr (cl_inst k 0)) = streams_on 0 (cl_sessions k)"
proof -
  obtain k where k: "(cluster_step mks (\<lambda>_. demo_handlers))\<^sup>*\<^sup>* demo_cluster k" "length (cl_sessions k) = 1" using demo_run by blast
  with gauges_count_streams [OF _ _ k(1), of 0] show ?thesis by (auto simp: demo_cluster_def demo_state_def zero_metrics_def)
qed

text \<open>
  Adequacy of the pieces, which the steps of the cluster run one at a time: they are the handler. The checks, the registration
  with the first drain, and the rounds of the loop one by one, run without interruption, give the answer, the bytes on the wire and the state that the whole stream handler gives.
\<close>

theorem stream_is_its_pieces:
  "V1SSEStreamEvents h flusher es c wr w =
     (case stream_gate h flusher c w of
        (Inl res, w1) \<Rightarrow> (Refused res, wr, w1)
      | (Inr (cl, ip), w1) \<Rightarrow>
          (case open_session h i (rq_ctx (ctx_req c)) cl ip wr w1 of
             (Inl res, s, w2) \<Rightarrow> (res, ss_wr s, w2)
           | (Inr _, s, w2) \<Rightarrow> (case session_run h es s w2 of (how, s', w3) \<Rightarrow> (Streamed how, ss_wr s', w3))))"
  by (simp add: stream_gate_handler run_stream_pieces [where i = i] split: prod.split sum.split)

end
