(* ===== verification/Cluster_Leases.thy ===== *)
theory Cluster_Leases
  imports Cluster
begin

text \<open>
  The leases of connection slots over time. The slot of a stream has a time to live that every answered round of the poll ticker
  renews (\<open>Refresh\<close> in \<open>stream/loop.go\<close> and \<open>repository/connection.go\<close>). The steps of the cluster are combined
  with the passing of time, and the age of a lease is the time since it was taken or last renewed. As long as every running
  stream is served in time its slot stays its own; when one is not, the plain \<open>Delete\<close> at its end can free the slot of
  the stream that took over.
\<close>

section \<open>Leases\<close>

text \<open>An entry that stays for at least a time \<open>b\<close>; without a time to live it stays forever.\<close>

definition lasts :: "duration \<Rightarrow> (rval \<times> duration option) option \<Rightarrow> bool" where
  "lasts b x \<longleftrightarrow> (\<exists>v t. x = Some (v, t) \<and> (\<forall>u. t = Some u \<longrightarrow> b \<le> u))"

lemma lasts_present: "lasts b x \<Longrightarrow> x \<noteq> None"
  by (auto simp: lasts_def)

lemma lasts_expire: "0 \<le> d \<Longrightarrow> lasts (b + d) (m q) \<Longrightarrow> 0 < b \<Longrightarrow> lasts b (expire_keys d m q)"
  by (force simp: lasts_def expire_keys_def split: option.split)

text \<open>The commands of the program leave a lease alone but for renewals, which give it a full term.\<close>

sublocale redis_atomic \<subseteq> lease: redis_stable R "\<lambda>r. lasts b (ks r (connKey cl ip))" "\<lambda>d. 0 < d \<and> second dvd d \<and> b \<le> d" for b cl ip
proof unfold_locales
  fix r c v d cl' ip' ev i j assume t: "lasts b (ks r (connKey cl ip))"
  have kept: "lasts b (ks r' (connKey cl ip))" if "touches k Q (ks r) (ks r')" "\<And>y. connKey cl ip = k \<Longrightarrow> Q y \<Longrightarrow> lasts b y" for k Q r'
    using that t unfolding touches_def by metis
  show "lasts b (ks (snd (rSet R c (ticketKey cl' ip') v d r)) (connKey cl ip)) \<and> lasts b (ks (snd (rSet R c (inFlightKey cl' ev) v d r)) (connKey cl ip))
      \<and> lasts b (ks (snd (rSet R c (ackedKey cl' ev) v d r)) (connKey cl ip)) \<and> lasts b (ks (snd (rSetNX R c (connKey cl' ip') v d r)) (connKey cl ip))"
    by (intro conjI kept [OF write_atomic(1)] kept [OF write_atomic(2)]) (use lasts_present [OF t] in auto)
  show "lasts b (ks (snd (rDel R c (ticketKey cl' ip') r)) (connKey cl ip)) \<and> lasts b (ks (snd (rDel R c (inFlightKey cl' ev) r)) (connKey cl ip))"
    by (intro conjI kept [OF write_atomic(3)]) simp_all
  show "lasts b (ks (snd (rExpire R c (connKey cl' ip') d r)) (connKey cl ip))" if "0 < d \<and> second dvd d \<and> b \<le> d"
    by (rule kept [OF write_atomic(4)]) (use that t in \<open>auto simp: with_ttl_def lasts_def\<close>)
  show "lasts b (ks (snd (rExpire R c (ratelimitKey ip') (windowSeconds * second) r)) (connKey cl ip))" by (rule kept [OF write_atomic(4)]) simp
  show "lasts b (ks (snd (rIncr R c (ratelimitKey ip') r)) (connKey cl ip))" by (rule kept [OF write_atomic(5)]) simp
  show "lasts b (ks (snd (rRPush R c (eventsKey cl') v r)) (connKey cl ip)) \<and> lasts b (ks (snd (rLTrim R c (eventsKey cl') i j r)) (connKey cl ip))"
    by (intro conjI kept [OF write_atomic(6)] kept [OF write_atomic(7)]) simp_all
qed (simp_all add: read_atomic)

sublocale redis_atomic \<subseteq> leased: slot_invariant R "\<lambda>r. lasts b (ks r (connKey cl ip))" "\<lambda>d. 0 < d \<and> second dvd d \<and> b \<le> d" "connKey cl ip" for b cl ip
proof unfold_locales
  fix cl' ip' c r assume "connKey cl' ip' \<noteq> connKey cl ip" and "lasts b (ks r (connKey cl ip))"
  then show "lasts b (ks (snd (Delete R c cl' ip' r)) (connKey cl ip))"
    using write_atomic(3) [of "connKey cl' ip'" r c] by (simp add: Delete_def touches_def)
next
  fix r s c cl' ip' d r' assume "lasts b (ks r (connKey cl ip))" and "Conn_Register R s c cl' ip' d r = (Inr True, r')"
  with Conn_Register_effect [OF this(2)] lasts_present show "connKey cl' ip' \<noteq> connKey cl ip" by metis
qed

text \<open>A renewal is an answered \<open>Refresh\<close>, followed by a drain.\<close>

lemma inst_step_renewed:
  assumes "inst_step hs (Renewed q) k k'" and "redis_stable R I D" and "\<forall>i. RDB (hs i) = R"
  obtains c cl ip i r1 where "Refresh R c cl ip (ConnTTL (CfgSSE (Cfg (hs i)))) (cl_redis k) = (None, r1)" "q = connKey cl ip" "I r1 \<Longrightarrow> I (cl_redis k')"
  using assms(1)
proof (cases rule: inst_step.cases)
  case (runs n s e s' w)
  let ?h = "hs (ss_inst s)" and ?env = "stream_env_of (hs (ss_inst s)) (ss_client s) (ss_ip s)"
  from runs(1) obtain c where e: "e = PollTick c" and q: "q = slot_key s"
    and f: "fst (Refresh R c (ss_client s) (ss_ip s) (ConnTTL (CfgSSE (Cfg ?h))) (cl_redis k)) = None"
    using assms(3) by (auto simp: lease_renewed_def split: if_splits select.splits)
  obtain r1 where r1: "Refresh R c (ss_client s) (ss_ip s) (ConnTTL (CfgSSE (Cfg ?h))) (cl_redis k) = (None, r1)"
    using f by (metis prod.collapse)
  have env: "se_redis ?env = R" using assms(3) by (simp add: stream_env_of_def)
  have "rdb w = rdb (sw (drainAndFlush ?env c \<lparr>sw = (at_inst (ss_inst s) k)\<lparr>rdb := r1\<rparr>, swr = ss_wr s, scb = ss_cb s\<rparr>))"
    using runs(5) r1 env e
    by (simp add: session_event_def ready_channels_def on_rdb_def Let_def stream_env_of_def split: if_splits)
  then have "I r1 \<Longrightarrow> I (rdb w)"
    using redis_stable.drainAndFlush_keeps [OF assms(2) env, of "\<lparr>sw = (at_inst (ss_inst s) k)\<lparr>rdb := r1\<rparr>, swr = ss_wr s, scb = ss_cb s\<rparr>" c] by simp
  with that [OF r1] q runs(2) show ?thesis by (simp add: slot_key_def)
qed

section \<open>Time\<close>

text \<open>The age of leases starts again when a slot is taken or renewed, and grows as time passes.\<close>

fun renew :: "move \<Rightarrow> (string \<Rightarrow> duration) \<Rightarrow> string \<Rightarrow> duration" where
  "renew (Taken q) age = age(q := 0)"
| "renew (Renewed q) age = age(q := 0)"
| "renew Other age = age"

inductive timed_step ::
  "(duration \<Rightarrow> 'r \<Rightarrow> 'r) \<Rightarrow> (nat \<Rightarrow> ('r, 'n) HTTPHandlers) \<Rightarrow> ('r, 'n) cluster \<times> (string \<Rightarrow> duration) \<Rightarrow> ('r, 'n) cluster \<times> (string \<Rightarrow> duration) \<Rightarrow> bool"
  for tick hs where
  acts: "inst_step hs l k k' \<Longrightarrow> timed_step tick hs (k, age) (k', renew l age)"
| delay: "0 \<le> d \<Longrightarrow> timed_step tick hs (k, age) (k\<lparr>cl_redis := tick d (cl_redis k)\<rparr>, \<lambda>q. age q + d)"

text \<open>Every running stream took or renewed its lease less than \<open>T\<close> ago.\<close>

definition timely :: "duration \<Rightarrow> ('r, 'n) cluster \<times> (string \<Rightarrow> duration) \<Rightarrow> bool" where
  "timely T x \<longleftrightarrow> (\<forall>s \<in> set (cl_sessions (fst x)). snd x (slot_key s) < T)"

definition leases_held :: "duration \<Rightarrow> ('r \<Rightarrow> keyspace) \<Rightarrow> ('r, 'n) cluster \<times> (string \<Rightarrow> duration) \<Rightarrow> bool" where
  "leases_held T ks x \<longleftrightarrow> distinct (map slot_key (cl_sessions (fst x)))
     \<and> (\<forall>q \<in> set (map slot_key (cl_sessions (fst x))). 0 \<le> snd x q \<and> lasts (T - snd x q) (ks (cl_redis (fst x)) q))"

lemma slot_keys: "q \<in> set (map slot_key ss) \<Longrightarrow> \<exists>cl ip. q = connKey cl ip"
  by (auto simp: slot_key_def)

lemma second_ms: "second dvd T \<Longrightarrow> millisecond dvd T"
  by (auto simp: second_def millisecond_def dvd_def)

context redis_atomic
begin

lemma taken_lasts:
  assumes "inst_step hs (Taken q) k k'" and "\<forall>i. RDB (hs i) = R" and "\<forall>i. ConnTTL (CfgSSE (Cfg (hs i))) = T" and "0 < T" and "second dvd T"
  shows "ks (cl_redis k) q = None \<and> lasts T (ks (cl_redis k') q)"
proof -
  obtain cl ip where q: "q = connKey cl ip"
    by (rule inst_step_taken [OF assms(1) ui.redis_stable_axioms [of Background] assms(2)])
  obtain s c cl' ip' i r1 where g: "Conn_Register R s c cl' ip' (ConnTTL (CfgSSE (Cfg (hs i)))) (cl_redis k) = (Inr True, r1)" "q = connKey cl' ip'"
    "lasts T (ks r1 (connKey cl ip)) \<Longrightarrow> lasts T (ks (cl_redis k') (connKey cl ip))"
    by (rule inst_step_taken [OF assms(1) lease.redis_stable_axioms [of T cl ip] assms(2)]) (rule that)
  from Conn_Register_effect [OF g(1)] g(2) assms(3-5) second_ms have "ks (cl_redis k) q = None" "ks r1 q = Some (RStr (instanceID s), Some T)" by auto
  with g(3) q show ?thesis by (simp add: lasts_def)
qed

lemma renewed_lasts:
  assumes "inst_step hs (Renewed q) k k'" and "\<forall>i. RDB (hs i) = R" and "\<forall>i. ConnTTL (CfgSSE (Cfg (hs i))) = T" and "0 < T" and "second dvd T"
    and "ks (cl_redis k) q \<noteq> None"
  shows "lasts T (ks (cl_redis k') q)"
proof -
  obtain cl ip where q: "q = connKey cl ip"
    by (rule inst_step_renewed [OF assms(1) ui.redis_stable_axioms [of Background] assms(2)])
  obtain c cl' ip' i r1 where g: "Refresh R c cl' ip' (ConnTTL (CfgSSE (Cfg (hs i)))) (cl_redis k) = (None, r1)" "q = connKey cl' ip'"
    "lasts T (ks r1 (connKey cl ip)) \<Longrightarrow> lasts T (ks (cl_redis k') (connKey cl ip))"
    by (rule inst_step_renewed [OF assms(1) lease.redis_stable_axioms [of T cl ip] assms(2)]) (rule that)
  from Refresh_effect [OF g(1)] g(2) assms(3-6) have "lasts T (ks r1 q)" by (auto simp: lasts_def)
  with g(3) q show ?thesis by simp
qed

lemma acts_leases:
  assumes "inst_step hs l k k'" and "\<forall>i. RDB (hs i) = R" and "\<forall>i. ConnTTL (CfgSSE (Cfg (hs i))) = T" and "0 < T" and "second dvd T"
    and held: "leases_held T ks (k, age)"
  shows "leases_held T ks (k', renew l age)"
proof -
  note S = assms(1-5)
  have d: "distinct (map slot_key (cl_sessions k))" using held by (simp add: leases_held_def)
  have old: "lasts (T - age q) (ks (cl_redis k') q)" if q: "q \<in> set (map slot_key (cl_sessions k))" "q \<in> set (map slot_key (cl_sessions k'))" for q
  proof -
    obtain cl ip where k: "q = connKey cl ip" using slot_keys [OF q(1)] by blast
    have a: "0 \<le> age q" "lasts (T - age q) (ks (cl_redis k) q)" using held q(1) by (auto simp: leases_held_def)
    then have "\<forall>i. 0 < ConnTTL (CfgSSE (Cfg (hs i))) \<and> second dvd ConnTTL (CfgSSE (Cfg (hs i))) \<and> T - age q \<le> ConnTTL (CfgSSE (Cfg (hs i)))"
      using assms(3-5) by simp
    from leased.inst_step_keeps [OF assms(1,2) this d q(2) [unfolded k]] a k show ?thesis by simp
  qed
  have new: "q \<in> set (map slot_key (cl_sessions k)) \<or> l = Taken q" if "q \<in> set (map slot_key (cl_sessions k'))" for q
    by (rule inst_step_sessions [OF assms(1)]) (use that without_distinct(3) [OF _ d] in auto)
  have fresh: "q \<notin> set (map slot_key (cl_sessions k))" if "l = Taken q" for q
    using taken_lasts [OF S [unfolded that]] held lasts_present by (fastforce simp: leases_held_def)
  have "0 \<le> renew l age q \<and> lasts (T - renew l age q) (ks (cl_redis k') q)" if q: "q \<in> set (map slot_key (cl_sessions k'))" for q
  proof (cases "l = Taken q \<or> l = Renewed q")
    case True
    have "lasts T (ks (cl_redis k') q)"
    proof (cases "l = Taken q")
      case False
      with True q new have "l = Renewed q" "q \<in> set (map slot_key (cl_sessions k))" by auto
      moreover have "ks (cl_redis k) q \<noteq> None" using held calculation(2) lasts_present by (fastforce simp: leases_held_def)
      ultimately show ?thesis using renewed_lasts assms(1-5) by blast
    qed (use taken_lasts S in blast)
    with True show ?thesis by auto
  next
    case False
    with new q have "q \<in> set (map slot_key (cl_sessions k))" by blast
    moreover have "renew l age q = age q" using False by (cases l) auto
    ultimately show ?thesis using old q held by (auto simp: leases_held_def)
  qed
  with inst_step_distinct [OF assms(1) d fresh] show ?thesis by (simp add: leases_held_def)
qed

end

lemma delay_leases:
  assumes "redis_time R ks up tick" and "0 \<le> d" and "leases_held T ks (k, age)" and "timely T (k, \<lambda>q. age q + d)"
  shows "leases_held T ks (k\<lparr>cl_redis := tick d (cl_redis k)\<rparr>, \<lambda>q. age q + d)"
proof -
  have "lasts (T - (age q + d)) (ks (tick d (cl_redis k)) q)" if q: "q \<in> set (map slot_key (cl_sessions k))" for q
  proof -
    have "lasts (T - (age q + d) + d) (ks (cl_redis k) q)" "0 < T - (age q + d)"
      using assms(3,4) q by (auto simp: leases_held_def timely_def)
    with assms(2) show ?thesis unfolding redis_time.tick_ks [OF assms(1,2)] by (rule lasts_expire)
  qed
  with assms(2,3) show ?thesis by (auto simp: leases_held_def)
qed

lemma timed_runs_leases:
  assumes "redis_atomic R ks up" and "redis_time R ks up tick" and "\<forall>i. RDB (hs i) = R" and "\<forall>i. ConnTTL (CfgSSE (Cfg (hs i))) = T"
    and "0 < T" and "second dvd T" and "(\<lambda>x y. timed_step tick hs x y \<and> timely T y)\<^sup>*\<^sup>* x y" and "leases_held T ks x"
  shows "leases_held T ks y"
  using assms(7)
proof induction
  case base
  show ?case by (rule assms(8))
next
  case (step y z)
  from step(2) have "timed_step tick hs y z" "timely T z" by simp_all
  then show ?case
  proof (cases rule: timed_step.cases)
    case (acts l k k' age)
    with redis_atomic.acts_leases [OF assms(1) acts(3) assms(3-6), of age] step.IH show ?thesis by simp
  next
    case (delay d k age)
    with delay_leases [OF assms(2) delay(3), of T k age] step.IH \<open>timely T z\<close> show ?thesis by (simp add: timely_def)
  qed
qed

section \<open>Streams that are not served in time\<close>

context redis_laws
begin

lemma register_free:
  assumes "up c r" and "0 \<le> d" and "ks r (connKey cl ip) = None"
  shows "\<exists>r'. Conn_Register R s c cl ip d r = (Inr True, r')"
proof -
  obtain b r' where g: "Conn_Register R s c cl ip d r = (Inr b, r')" using Conn_Register_up [OF assms(1,2)] by blast
  with Conn_Register_effect [OF g] assms(3) show ?thesis by auto
qed

text \<open>On a Redis that answers, a free slot admits a stream, and a stream whose client goes away frees its slot.\<close>

lemma free_slot_opens:
  assumes "RDB h = R" and "up c (rdb w)" and "ks (rdb w) (connKey cl ip) = None"
    and "0 \<le> ConnTTL (CfgSSE (Cfg h))" and "0 < PollInterval (CfgSSE (Cfg h))" and "0 < HeartbeatInterval (CfgSSE (Cfg h))"
  shows "\<exists>s w'. open_session h i c cl ip wr w = (Inr (), s, w') \<and> slot_key s = connKey cl ip \<and> ss_inst s = i
    \<and> (\<forall>c'. up c' (rdb w) \<longrightarrow> up c' (rdb w'))"
proof -
  obtain r where "Conn_Register (RDB h) (Conns h) c cl ip (ConnTTL (CfgSSE (Cfg h))) (rdb w) = (Inr True, r)"
    using register_free [OF assms(2,4,3)] assms(1) by blast
  then obtain s w' where o: "open_session h i c cl ip wr w = (Inr (), s, w')" using open_session_Inr [OF _ assms(5,6)] by blast
  have "slot_key s = connKey cl ip \<and> ss_inst s = i"
    by (rule ui.open_session_cases [where ca = Background, OF assms(1) o]) (auto simp: slot_key_def)
  moreover have "up c' (rdb w')" if "up c' (rdb w)" for c'
  proof (rule ui.open_session_cases [where ca = c', OF assms(1) o])
    fix r1 w1
    assume g: "Conn_Register R (Conns h) c cl ip (ConnTTL (CfgSSE (Cfg h))) (rdb w) = (Inr True, r1)" and "up c' r1 \<Longrightarrow> up c' (rdb w1)"
      and "if isl (Inr () :: stream_result + unit) then w' = close_session h cl ip w1 else w' = w1 \<and> ss_client s = cl \<and> ss_ip s = ip \<and> ss_inst s = i"
    with ui.Conn_Register_keeps [OF that, of "Conns h" c cl ip "ConnTTL (CfgSSE (Cfg h))"] show "up c' (rdb w')" by simp
  qed simp
  ultimately show ?thesis using o by blast
qed

lemma gone_client_frees:
  assumes "RDB h = R" and "up Background (rdb w)"
  shows "\<exists>s' w'. session_event h CtxDone s w = (Returned, s', w') \<and> ks (rdb w') (slot_key s) = None
    \<and> (\<forall>c'. up c' (rdb w) \<longrightarrow> up c' (rdb w'))"
proof -
  let ?env = "stream_env_of h (ss_client s) (ss_ip s)"
  define st where "st = drainAndFlush ?env Background \<lparr>sw = w, swr = ss_wr s, scb = ss_cb s\<rparr>"
  have env: "se_redis ?env = R" using assms(1) by (simp add: stream_env_of_def)
  have u: "up c' (rdb (sw st))" if "up c' (rdb w)" for c'
    unfolding st_def by (rule ui.drainAndFlush_keeps [where ca = c', OF env]) (simp add: that)
  define w' where "w' = close_session h (ss_client s) (ss_ip s) (sw st)"
  have "\<exists>s'. session_event h CtxDone s w = (Returned, s', w')"
    by (simp add: session_event_def ready_channels_def st_def w'_def Let_def)
  moreover obtain x r' where d: "rDel R Background (slot_key s) (rdb (sw st)) = (x, r')" by force
  moreover have "rdb w' = r'"
    using d assms(1) by (simp add: w'_def close_session_def on_rdb_def Delete_def slot_key_def)
  moreover have "ks r' (slot_key s) = None" using del_cmd [OF u [OF assms(2)] d] by simp
  moreover have "up c' (rdb w) \<Longrightarrow> up c' r'" for c' using u up_stable d by (metis snd_conv)
  ultimately show ?thesis by metis
qed

end

section \<open>Properties\<close>

text \<open>
  C8: Leases hold under timely service. Any number of instances over one Redis serve requests and streams in any order while time passes
  and commands may fail. If at every moment each running stream has taken or renewed its slot less than \<open>conn_ttl\<close>
  ago, no two running streams ever hold the same slot, and each holds its own in Redis.
\<close>

theorem served_streams_keep_slots:
  assumes "redis_atomic R ks up" and "redis_time R ks up tick" and "\<forall>i. RDB (hs i) = R" and "\<forall>i. ConnTTL (CfgSSE (Cfg (hs i))) = T"
    and "0 < T" and "second dvd T" and "cl_sessions k0 = []" and "(\<lambda>x y. timed_step tick hs x y \<and> timely T y)\<^sup>*\<^sup>* (k0, age0) (k, age)"
  shows "distinct (map slot_key (cl_sessions k)) \<and> (\<forall>s \<in> set (cl_sessions k). conn_taken ks (cl_redis k) (ss_client s) (ss_ip s))"
proof -
  have "leases_held T ks (k0, age0)" using assms(7) by (simp add: leases_held_def)
  from timed_runs_leases [OF assms(1-6,8) this] show ?thesis
    by (auto simp: leases_held_def conn_taken_slot lasts_def domIff)
qed

lemma demo_rdb: "RDB demo_handlers = mem_redis"
  by (simp add: demo_handlers_def)

theorem served_streams_keep_slots_witness:
  "\<exists>k age s. (\<lambda>x y. timed_step mtick (\<lambda>_. demo_handlers) x y \<and> timely (60 * second) y)\<^sup>*\<^sup>* (demo_cluster, \<lambda>_. 0) (k, age)
     \<and> cl_sessions k = [s] \<and> conn_taken mks (cl_redis k) (ss_client s) (ss_ip s)"
proof -
  obtain k1 k2 s where k: "inst_step (\<lambda>_. demo_handlers) Other demo_cluster k1" "inst_step (\<lambda>_. demo_handlers) (Taken (slot_key s)) k1 k2"
    "cl_sessions k1 = []" "cl_sessions k2 = [s]" using demo_moves by blast
  let ?step = "\<lambda>x y. timed_step mtick (\<lambda>_. demo_handlers) x y \<and> timely (60 * second) y"
  have "?step (demo_cluster, \<lambda>_. 0) (k1, renew Other (\<lambda>_. 0))" "?step (k1, \<lambda>_. 0) (k2, renew (Taken (slot_key s)) (\<lambda>_. 0))"
    using acts [OF k(1)] acts [OF k(2)] k(3,4) by (auto simp: timely_def second_def)
  then have run: "?step\<^sup>*\<^sup>* (demo_cluster, \<lambda>_. 0) (k2, \<lambda>_. 0)"
    by (auto simp: fun_upd_idem intro: converse_rtranclp_into_rtranclp)
  have "\<forall>s \<in> set (cl_sessions k2). conn_taken mks (cl_redis k2) (ss_client s) (ss_ip s)"
    using served_streams_keep_slots [OF demo_atomic [unfolded demo_rdb] mr.redis_time_axioms _ _ _ _ _ run]
    by (simp add: demo_cluster_def demo_handlers_def default_config_def second_def)
  with run k(4) show ?thesis by auto
qed

text \<open>
  C33: A stream that is not served in time can cost its successor the slot. If the lease of a running stream has run out, its client can open a
  second stream, the end of the first frees the slot of the second (\<open>Delete\<close> does not look who owns it), and
  a third is admitted: two streams of one client and address run at once.
\<close>

theorem late_end_frees_successor:
  fixes k :: "('r, 'n) cluster"
  assumes "redis_time R ks up tick" and "\<forall>i. RDB (hs i) = R" and "\<forall>i. 0 \<le> ConnTTL (CfgSSE (Cfg (hs i)))"
    and "\<forall>i. 0 < PollInterval (CfgSSE (Cfg (hs i))) \<and> 0 < HeartbeatInterval (CfgSSE (Cfg (hs i)))"
    and "cl_sessions k = [s]" and "cl_waiting k = [a1, a2]" and "connKey (ad_client a1) (ad_ip a1) = slot_key s" and "connKey (ad_client a2) (ad_ip a2) = slot_key s"
    and "up (ad_ctx a1) (cl_redis k)" and "up (ad_ctx a2) (cl_redis k)" and "up Background (cl_redis k)"
    and "ks (cl_redis k) (slot_key s) = Some (v, Some t)" and "0 \<le> t"
  shows "\<exists>k' age' s1 s2. (timed_step tick hs)\<^sup>*\<^sup>* (k, age) (k', age') \<and> cl_sessions k' = [s1, s2]
    \<and> slot_key s1 = slot_key s \<and> slot_key s2 = slot_key s \<and> ss_inst s1 = ad_inst a1 \<and> ss_inst s2 = ad_inst a2"
proof -
  note laws = redis_time.axioms(1) [OF assms(1)]
  let ?step = "timed_step tick hs" and ?q = "slot_key s"
  define k1 where "k1 = k\<lparr>cl_redis := tick t (cl_redis k)\<rparr>"
  have 1: "?step (k, age) (k1, \<lambda>q. age q + t)" unfolding k1_def by (rule delay) (rule assms(13))
  have r1: "ks (cl_redis k1) ?q = None" "up c (cl_redis k) \<Longrightarrow> up c (cl_redis k1)" for c
    using redis_time.tick_ks [OF assms(1,13)] redis_time.tick_up [OF assms(1)] assms(12) by (simp_all add: k1_def expire_keys_def)
  obtain s1 w1 where o1: "open_session (hs (ad_inst a1)) (ad_inst a1) (ad_ctx a1) (ad_client a1) (ad_ip a1) (ad_wr a1) (at_inst (ad_inst a1) k1) = (Inr (), s1, w1)"
    and s1: "slot_key s1 = ?q" "ss_inst s1 = ad_inst a1" and u1: "up c (cl_redis k1) \<Longrightarrow> up c (rdb w1)" for c
    using redis_laws.free_slot_opens [OF laws, of "hs (ad_inst a1)" "ad_ctx a1" "at_inst (ad_inst a1) k1" "ad_client a1" "ad_ip a1" "ad_inst a1" "ad_wr a1"]
      r1 assms(2-4,7,9) by auto
  define k2 where "k2 = (put_inst (ad_inst a1) w1 k1)\<lparr>cl_waiting := without 0 (cl_waiting k1), cl_sessions := cl_sessions k1 @ [s1]\<rparr>"
  have 2: "?step (k1, b) (k2, renew (Taken (slot_key s1)) b)" for b
    unfolding k2_def by (rule acts, rule opens) (use o1 assms(6) in \<open>simp_all add: k1_def\<close>)
  have k2: "cl_sessions k2 = [s, s1]" "cl_waiting k2 = [a2]" "cl_redis k2 = rdb w1"
    using assms(5,6) by (simp_all add: k2_def k1_def without_def)
  obtain s' w2 where e: "session_event (hs (ss_inst s)) CtxDone s (at_inst (ss_inst s) k2) = (Returned, s', w2)"
    and f: "ks (rdb w2) ?q = None" and u2: "up c (cl_redis k2) \<Longrightarrow> up c (rdb w2)" for c
    using redis_laws.gone_client_frees [OF laws, of "hs (ss_inst s)" "at_inst (ss_inst s) k2" s] assms(2,11) r1(2) u1 k2(3) by auto
  define k3 where "k3 = (put_inst (ss_inst s) w2 k2)\<lparr>cl_sessions := without 0 (cl_sessions k2)\<rparr>"
  have 3: "?step (k2, b) (k3, renew Other b)" for b
    unfolding k3_def by (rule acts, rule ends [where how = Returned and s' = s' and e = CtxDone]) (use e k2 in simp_all)
  have k3: "cl_sessions k3 = [s1]" "cl_waiting k3 = [a2]" "cl_redis k3 = rdb w2" by (simp_all add: k3_def k2 without_def)
  obtain s2 w3 where o2: "open_session (hs (ad_inst a2)) (ad_inst a2) (ad_ctx a2) (ad_client a2) (ad_ip a2) (ad_wr a2) (at_inst (ad_inst a2) k3) = (Inr (), s2, w3)"
    and s2: "slot_key s2 = ?q" "ss_inst s2 = ad_inst a2"
    using redis_laws.free_slot_opens [OF laws, of "hs (ad_inst a2)" "ad_ctx a2" "at_inst (ad_inst a2) k3" "ad_client a2" "ad_ip a2" "ad_inst a2" "ad_wr a2"]
      r1(2) u1 u2 f k2(3) k3(3) assms(2-4,8,10) by auto
  define k4 where "k4 = (put_inst (ad_inst a2) w3 k3)\<lparr>cl_waiting := without 0 (cl_waiting k3), cl_sessions := cl_sessions k3 @ [s2]\<rparr>"
  have 4: "?step (k3, b) (k4, renew (Taken (slot_key s2)) b)" for b
    unfolding k4_def by (rule acts, rule opens) (use o2 k3 in simp_all)
  have "cl_sessions k4 = [s1, s2]" by (simp add: k4_def k3)
  moreover have "\<exists>b. ?step\<^sup>*\<^sup>* (k, age) (k4, b)"
    using 1 2 3 4 by (meson converse_rtranclp_into_rtranclp rtranclp.rtrancl_refl)
  ultimately show ?thesis using s1 s2 by blast
qed

definition late_session :: session where
  "late_session = \<lparr>ss_inst = 0, ss_client = ''u1'', ss_ip = ''1.2.3.4'', ss_wr = demo_writer, ss_cb = newCircuitBreaker 5 (10 * second)\<rparr>"

definition late_request :: "nat \<Rightarrow> admitted" where
  "late_request i = \<lparr>ad_inst = i, ad_ctx = ReqCtx, ad_client = ''u1'', ad_ip = ''1.2.3.4'', ad_wr = demo_writer\<rparr>"

definition late_cluster :: "(mem, memnats) cluster" where
  "late_cluster = demo_cluster\<lparr>cl_redis := mput (slot_key late_session) (RStr ''i0'', Some (60 * second)) mem0,
     cl_waiting := [late_request 1, late_request 2], cl_sessions := [late_session]\<rparr>"

theorem late_end_frees_successor_witness:
  "\<exists>k' age' s1 s2. (timed_step mtick (\<lambda>_. demo_handlers))\<^sup>*\<^sup>* (late_cluster, \<lambda>_. 0) (k', age') \<and> cl_sessions k' = [s1, s2]
     \<and> slot_key s1 = slot_key s2 \<and> ss_inst s1 = 1 \<and> ss_inst s2 = 2"
proof -
  have "RDB demo_handlers = mem_redis" "0 \<le> ConnTTL (CfgSSE (Cfg demo_handlers))"
    by (simp_all add: demo_handlers_def default_config_def second_def)
  moreover have "mup c (cl_redis late_cluster)" if "c \<noteq> DoneCtx" for c using that by (simp add: late_cluster_def mput_def mup_def mem0_def)
  moreover have "mks (cl_redis late_cluster) (slot_key late_session) = Some (RStr ''i0'', Some (60 * second))" by (simp add: late_cluster_def)
  ultimately obtain k' age' s1 s2 where "(timed_step mtick (\<lambda>_. demo_handlers))\<^sup>*\<^sup>* (late_cluster, \<lambda>_. 0) (k', age')" "cl_sessions k' = [s1, s2]"
    "slot_key s1 = slot_key late_session" "slot_key s2 = slot_key late_session" "ss_inst s1 = 1" "ss_inst s2 = 2"
    using late_end_frees_successor [OF mr.redis_time_axioms, where hs = "\<lambda>_. demo_handlers" and k = late_cluster and s = late_session
        and ?a1.0 = "late_request 1" and ?a2.0 = "late_request 2" and v = "RStr ''i0''" and t = "60 * second" and age = "\<lambda>_. 0"] demo_intervals
    by (auto simp: late_request_def late_session_def slot_key_def late_cluster_def second_def)
  then show ?thesis by metis
qed

end
