(* ===== verification/Push_Script.thy ===== *)
theory Push_Script
  imports Keyspace_Types "HOL-Library.AList" "HOL-Library.Multiset" "HOL-Library.List_Lexorder" "HOL-Library.Char_ord"
begin

text \<open>
  The development scripts: \<open>scripts/push_events.go\<close>, which mints a token for a client and pushes a number of
  events to the event endpoint, and \<open>scripts/token.go\<close>, which prints a token. The JWT library's signature over a claims map,
  the URL parser and the HTTP transport are parameters; random numbers and the clock are arbitrary sequences; the bodies are
  written by the encoder of \<open>Json\<close>. The last section puts the script in front of the modelled server.
\<close>

section \<open>Data\<close>

text \<open>
  The values of a \<open>map[string]any\<close> that the scripts build, by their keys; \<open>JDecimal m k\<close> is the \<open>float64\<close> whose shortest
  decimal form has \<open>k\<close> digits after the point and is \<open>m / 10^k\<close>.
\<close>

datatype jany = JText string | JInt int | JDecimal nat nat | JBool bool

type_synonym go_map = "(string \<times> jany) list"

record eventRequest =
  pe_Type :: string
  pe_Data :: string

definition fakePayloads :: "go_map list" where
  "fakePayloads =
     [[(''message'', JText ''Hello, Scorpion!''), (''priority'', JText ''low'')],
      [(''action'', JText ''login''), (''device'', JText ''mobile''), (''os'', JText ''android'')],
      [(''order_id'', JText ''ORD-9921''), (''status'', JText ''shipped''), (''eta'', JText ''2026-04-28'')],
      [(''alert'', JText ''cpu_high''), (''value'', JDecimal 942 1), (''host'', JText ''node-03'')],
      [(''score'', JInt 1500), (''level'', JInt 7), (''xp_earned'', JInt 250)],
      [(''chat'', JText ''Hey there!''), (''room'', JText ''general'')],
      [(''metric'', JText ''latency_p99''), (''ms'', JInt 38)],
      [(''feature_flag'', JText ''dark_mode''), (''enabled'', JBool True)],
      [(''promo_code'', JText ''SPRING26''), (''discount'', JInt 20)],
      [(''notification'', JText ''You have a new follower''), (''follower'', JText ''jane_doe'')]]"

text \<open>The flags of the script with their defaults.\<close>

record push_flags =
  fl_url :: string
  fl_client :: string
  fl_secret :: string
  fl_count :: int
  fl_interval :: duration
  fl_type :: string
  fl_insecure :: bool

definition default_flags :: push_flags where
  "default_flags = \<lparr>fl_url = ''http://localhost:8443'', fl_client = ''user-1'', fl_secret = ''change-me-real-token-secret'',
     fl_count = 10, fl_interval = 200 * millisecond, fl_type = ''fake.event'', fl_insecure = True\<rparr>"

record client_request =
  hq_Method :: string
  hq_URL :: string
  hq_Header :: "(string \<times> string) list"
  hq_Body :: string

text \<open>The libraries; \<open>sl_Do\<close> sends a request over the network and answers with a status.\<close>

record 'n script_libs =
  sl_Sign :: "string \<Rightarrow> go_map \<Rightarrow> go_error + string"
  sl_checkURL :: "string \<Rightarrow> go_error option"
  sl_Do :: "bool \<Rightarrow> client_request \<Rightarrow> 'n \<Rightarrow> (go_error + int) \<times> 'n"

text \<open>The state of a running script: the pool of payloads, which it writes to, and what it has used of the outside.\<close>

record 'n script =
  sc_pool :: "go_map list"
  sc_clock :: "nat \<Rightarrow> time"
  sc_reads :: nat
  sc_rand :: "nat \<Rightarrow> nat"
  sc_drawn :: nat
  sc_slept :: "duration list"
  sc_net :: 'n

text \<open>\<open>log.Fatalf\<close> and a panic end the process.\<close>

datatype 'a exit = Fatal string | Exit 'a

section \<open>Operations\<close>

text \<open>\<open>json.Marshal\<close> of a map, which sorts the keys, and of a request, whose data it compacts.\<close>

fun marshal_any :: "jany \<Rightarrow> string" where
  "marshal_any (JText s) = json_string s"
| "marshal_any (JInt i) = Itoa i"
| "marshal_any (JDecimal m k) = nat_digits (m div 10 ^ k) @ CHR ''.'' # map (\<lambda>i. digit (m div 10 ^ i mod 10)) (rev [0..<k])"
| "marshal_any (JBool b) = (if b then ''true'' else ''false'')"

definition Marshal_map :: "go_map \<Rightarrow> go_error + string" where
  "Marshal_map m = Inr (json_object (map (apsnd marshal_any) (sort_key fst m)))"

definition Marshal_eventRequest :: "eventRequest \<Rightarrow> go_error + string" where
  "Marshal_eventRequest r = (case marshal_raw (pe_Data r) of
     None \<Rightarrow> Inl (Err ''json: error calling MarshalJSON'')
   | Some d \<Rightarrow> Inr (json_object [(''type'', json_string (pe_Type r)), (''data'', d)]))"

definition script_now :: "'n script \<Rightarrow> time \<times> 'n script" where
  "script_now st = (sc_clock st (sc_reads st), st\<lparr>sc_reads := Suc (sc_reads st)\<rparr>)"

definition Intn :: "nat \<Rightarrow> 'n script \<Rightarrow> nat \<times> 'n script" where
  "Intn n st = (sc_rand st (sc_drawn st) mod n, st\<lparr>sc_drawn := Suc (sc_drawn st)\<rparr>)"

definition Sleep :: "duration \<Rightarrow> 'n script \<Rightarrow> 'n script" where
  "Sleep d st = st\<lparr>sc_slept := sc_slept st @ [d]\<rparr>"

definition mintToken :: "'n script_libs \<Rightarrow> string \<Rightarrow> string \<Rightarrow> 'n script \<Rightarrow> string exit \<times> 'n script" where
  "mintToken L clientID secret st =
     (let (iat, st1) = script_now st;
          (now, st2) = script_now st1;
          claims = [(''sub'', JText clientID), (''iat'', JInt (Unix iat)), (''exp'', JInt (Unix (now + 24 * hour)))]
      in case sl_Sign L secret claims of
           Inl _ \<Rightarrow> (Fatal ''failed to sign token'', st2)
         | Inr tok \<Rightarrow> (Exit tok, st2))"

text \<open>\<open>payload\<close> is the map of the pool itself, not a copy.\<close>

fun push_loop :: "'n script_libs \<Rightarrow> push_flags \<Rightarrow> string \<Rightarrow> nat \<Rightarrow> int \<Rightarrow> int \<Rightarrow> 'n script \<Rightarrow> int exit \<times> 'n script" where
  "push_loop L fl token 0 i successCount st = (Exit successCount, st)"
| "push_loop L fl token (Suc left) i successCount st =
     (let (k, st1) = Intn (length (sc_pool st)) st;
          (now, st2) = script_now st1;
          payload = AList.update ''ts'' (JInt (now div millisecond)) (AList.update ''seq'' (JInt i) (sc_pool st2 ! k));
          st3 = st2\<lparr>sc_pool := (sc_pool st2)[k := payload]\<rparr>;
          endpoint = fl_url fl @ ''/v1/events/'' @ fl_client fl
      in case Marshal_map payload of
           Inl _ \<Rightarrow> (Fatal ''failed to marshal data'', st3)
         | Inr dataBytes \<Rightarrow>
             (case Marshal_eventRequest \<lparr>pe_Type = fl_type fl, pe_Data = dataBytes\<rparr> of
                Inl _ \<Rightarrow> (Fatal ''failed to marshal request'', st3)
              | Inr body \<Rightarrow>
                  (case sl_checkURL L endpoint of
                     Some _ \<Rightarrow> (Fatal ''failed to build request'', st3)
                   | None \<Rightarrow>
                       let req = \<lparr>hq_Method = ''POST'', hq_URL = endpoint,
                                  hq_Header = [(''Content-Type'', ''application/json''), (''Authorization'', ''Bearer '' @ token)],
                                  hq_Body = body\<rparr>;
                           (resp, net) = sl_Do L (fl_insecure fl) req (sc_net st3);
                           st4 = st3\<lparr>sc_net := net\<rparr>
                       in case resp of
                            Inl _ \<Rightarrow> push_loop L fl token left (i + 1) successCount (Sleep (fl_interval fl) st4)
                          | Inr status \<Rightarrow>
                              push_loop L fl token left (i + 1) (if 300 \<le> status then successCount else successCount + 1)
                                (if i < fl_count fl then Sleep (fl_interval fl) st4 else st4))))"

text \<open>\<open>main\<close>: the number of events pushed successfully, as the last log line prints it.\<close>

definition push_main :: "'n script_libs \<Rightarrow> push_flags \<Rightarrow> 'n script \<Rightarrow> int exit \<times> 'n script" where
  "push_main L fl st =
     (case mintToken L (fl_client fl) (fl_secret fl) st of
        (Fatal e, st1) \<Rightarrow> (Fatal e, st1)
      | (Exit token, st1) \<Rightarrow> push_loop L fl token (nat (fl_count fl)) 1 0 st1)"

text \<open>\<open>main\<close> of \<open>token.go\<close>: the token it prints.\<close>

definition token_main :: "'n script_libs \<Rightarrow> 'n script \<Rightarrow> string exit \<times> 'n script" where
  "token_main L st =
     (let (now, st1) = script_now st;
          (iat, st2) = script_now st1;
          claims = [(''sub'', JText ''12345''), (''user_id'', JInt 12345), (''exp'', JInt (Unix (now + 24 * hour))), (''iat'', JInt (Unix iat))]
      in case sl_Sign L ''change-me-real-token-secret'' claims of
           Inl _ \<Rightarrow> (Fatal ''panic'', st2)
         | Inr tokenString \<Rightarrow> (Exit tokenString, st2))"

section \<open>What the scripts' JWT library documents\<close>

text \<open>A token signed over a claims map is read back by \<open>jwt.Parse\<close> under the same key until its \<open>exp\<close> claim.\<close>

locale map_tokens =
  fixes J :: jwt_lib and sign :: "string \<Rightarrow> go_map \<Rightarrow> go_error + string"
  assumes parse_signed_map: "sign secret claims = Inr tok \<Longrightarrow> keyf (HMAC ''HS256'') = Inr secret \<Longrightarrow> map_of claims ''sub'' = Some (JText sub) \<Longrightarrow>
    map_of claims ''exp'' = Some (JInt e) \<Longrightarrow> now < e * second \<Longrightarrow> jParseMap J now tok keyf = Inr (Inr sub, True)"
begin

lemma signed_token_accepted:
  assumes "sign (TokenSecret cfg) claims = Inr tok" and "map_of claims ''sub'' = Some (JText sub)" and "sub \<noteq> []"
    and "map_of claims ''exp'' = Some (JInt e)" and "clock w (reads w) < e * second"
  shows "ValidateRealToken J cfg tok w = (Inr sub, snd (time_now w))"
  using parse_signed_map [of "TokenSecret cfg" claims tok "hmac_key (TokenSecret cfg)" sub e "clock w (reads w)"] assms
  by (simp add: ValidateRealToken_def time_now_def)

end

definition demo_map_sign :: "string \<Rightarrow> go_map \<Rightarrow> go_error + string" where
  "demo_map_sign secret claims = (case map_of claims ''sub'' of
     Some (JText s) \<Rightarrow> if line_free [secret, s] then Inr (secret @ sep # s) else Inl (Err ''cannot sign'')
   | _ \<Rightarrow> Inl (Err ''cannot sign''))"

interpretation dm: map_tokens demo_jwt demo_map_sign
proof unfold_locales
  fix secret tok sub e now and claims :: go_map and keyf :: "jmethod \<Rightarrow> go_error + string"
  assume "demo_map_sign secret claims = Inr tok" "keyf (HMAC ''HS256'') = Inr secret" "map_of claims ''sub'' = Some (JText sub)"
  then have "split_on sep tok = [secret, sub]"
    by (auto simp: demo_map_sign_def line_free_def split_on_append split_on_free split: if_splits)
  with \<open>keyf (HMAC ''HS256'') = Inr secret\<close> show "jParseMap demo_jwt now tok keyf = Inr (Inr sub, True)"
    by (simp add: demo_jwt_def demo_parse_map_def)
qed

section \<open>The requests of a run\<close>

fun net_run :: "'n script_libs \<Rightarrow> bool \<Rightarrow> client_request list \<Rightarrow> 'n \<Rightarrow> (go_error + int) list \<times> 'n" where
  "net_run L insecure [] net = ([], net)"
| "net_run L insecure (q # qs) net =
     (let (x, net1) = sl_Do L insecure q net; (xs, net2) = net_run L insecure qs net1 in (x # xs, net2))"

definition succeeded :: "(go_error + int) list \<Rightarrow> nat" where
  "succeeded xs = length (filter (\<lambda>x. \<exists>n < 300. x = Inr n) xs)"

text \<open>A payload the script sends as number \<open>i\<close>: one of the pool with its number and a time.\<close>

definition payload_no :: "int \<Rightarrow> go_map \<Rightarrow> bool" where
  "payload_no i m \<longleftrightarrow> (\<exists>p \<in> set fakePayloads. \<exists>t. int64_range t \<and> m = p @ [(''seq'', JInt i), (''ts'', JInt t)])"

definition request_no :: "push_flags \<Rightarrow> string \<Rightarrow> int \<Rightarrow> client_request \<Rightarrow> bool" where
  "request_no fl token i q \<longleftrightarrow> hq_Method q = ''POST'' \<and> hq_URL q = fl_url fl @ ''/v1/events/'' @ fl_client fl
     \<and> map_of (hq_Header q) ''Authorization'' = Some (''Bearer '' @ token)
     \<and> (\<exists>m d. payload_no i m \<and> Marshal_map m = Inr d \<and> Marshal_eventRequest \<lparr>pe_Type = fl_type fl, pe_Data = d\<rparr> = Inr (hq_Body q))"

text \<open>The script writes into its pool, but only the number and the time of a payload, which it sets again before it sends one.\<close>

definition pool_ok :: "go_map list \<Rightarrow> bool" where
  "pool_ok pool \<longleftrightarrow> length pool = length fakePayloads
     \<and> (\<forall>k < length pool. pool ! k = fakePayloads ! k \<or> (\<exists>i t. pool ! k = fakePayloads ! k @ [(''seq'', i), (''ts'', t)]))"

lemma pool_ok_start [simp]: "pool_ok fakePayloads"
  by (simp add: pool_ok_def)

lemma update_new: "k \<notin> fst ` set al \<Longrightarrow> AList.update k v al = al @ [(k, v)]"
  by (induction al) auto

lemma update_old: "k \<notin> fst ` set al \<Longrightarrow> AList.update k v (al @ (k, w) # bl) = al @ (k, v) # bl"
  by (induction al) auto

lemma payload_keys: "\<forall>p \<in> set fakePayloads. ''seq'' \<notin> fst ` set p \<and> ''ts'' \<notin> fst ` set p"
  by (simp add: fakePayloads_def)

lemma pool_payload:
  assumes "pool_ok pool" and "k < length pool" and "int64_range t"
  shows "payload_no i (AList.update ''ts'' (JInt t) (AList.update ''seq'' (JInt i) (pool ! k)))"
    and "pool_ok (pool[k := AList.update ''ts'' (JInt t) (AList.update ''seq'' (JInt i) (pool ! k))])"
proof -
  let ?p = "fakePayloads ! k"
  have p: "?p \<in> set fakePayloads" using assms by (simp add: pool_ok_def)
  then have k: "''seq'' \<notin> fst ` set ?p" "''ts'' \<notin> fst ` set ?p" using payload_keys by auto
  from assms have "pool ! k = ?p \<or> (\<exists>i t. pool ! k = ?p @ [(''seq'', i), (''ts'', t)])" by (simp add: pool_ok_def)
  then have u: "AList.update ''ts'' (JInt t) (AList.update ''seq'' (JInt i) (pool ! k)) = ?p @ [(''seq'', JInt i), (''ts'', JInt t)]"
    using k update_new [of "''ts''" "?p @ [(''seq'', JInt i)]"] update_old [of "''ts''" "?p @ [(''seq'', JInt i)]"]
    by (auto simp: update_new update_old)
  with p assms(3) show "payload_no i (AList.update ''ts'' (JInt t) (AList.update ''seq'' (JInt i) (pool ! k)))" by (auto simp: payload_no_def)
  from u assms(1,2) show "pool_ok (pool[k := AList.update ''ts'' (JInt t) (AList.update ''seq'' (JInt i) (pool ! k))])"
    by (auto simp: pool_ok_def nth_list_update)
qed

text \<open>
  The bodies: a payload is encoded as an object that is valid JSON and compact already, and a request with it is read back
  by \<open>encoding/json\<close> as it was meant, with invalid UTF-8 in the type replaced.
\<close>

lemma payload_kinds:
  "\<forall>p \<in> set fakePayloads. \<forall>(k, v) \<in> set p. (\<exists>s. v = JText s) \<or> (\<exists>i. v = JInt i \<and> int64_range i) \<or> v = JDecimal 942 1 \<or> v = JBool True"
  by (simp add: fakePayloads_def)

lemma decimal_payload: "marshal_any (JDecimal 942 1) = ''94.2''"
  by (simp add: nat_digits.simps [of 94] nat_digits.simps [of 9] digit_def char_of_eq_iff)

lemma payload_values:
  assumes "payload_no i m" and "(k, v) \<in> set m"
  shows "json_value n (marshal_any v) \<and> compacted (marshal_any v)"
proof -
  have "(\<exists>s. v = JText s) \<or> (\<exists>i. v = JInt i) \<or> v = JDecimal 942 1 \<or> v = JBool True"
    using assms payload_kinds by (fastforce simp: payload_no_def)
  moreover note decimal_payload
  moreover have "json_value n ''94.2''" "json_value n ''true''"
    by (auto intro!: json_value_scalar simp: scan_scalar_def scan_word_def scan_number_def skip_one_def scan_digits_def is_digit_def scan_fraction_def scan_exponent_def)
  ultimately show ?thesis by (auto simp: json_value_string json_value_Itoa compacted_Itoa json_space_def)
qed

lemma marshal_payload:
  assumes "payload_no i m" and "Marshal_map m = Inr d"
  shows "json_value (Suc n) d \<and> compacted d"
proof -
  have d: "d = json_object (map (apsnd marshal_any) (sort_key fst m))" using assms(2) by (simp add: Marshal_map_def)
  have v: "\<forall>(k, raw) \<in> set (map (apsnd marshal_any) (sort_key fst m)). json_value n raw \<and> compacted raw"
    using payload_values [OF assms(1)] by auto
  then have "json_value (Suc n) d" unfolding d by (intro json_object_value) auto
  moreover have "compacted d" unfolding d using v by (intro compacted_object) auto
  ultimately show ?thesis by simp
qed

lemma marshal_request:
  assumes "payload_no i m" and "Marshal_map m = Inr d"
  shows "Marshal_eventRequest \<lparr>pe_Type = ty, pe_Data = d\<rparr> = Inr (request_text \<lparr>er_Type = ty, er_Data = d\<rparr>)"
    and "Unmarshal_EventRequest (request_text \<lparr>er_Type = ty, er_Data = d\<rparr>) = Some \<lparr>er_Type = fix_utf8 ty, er_Data = d\<rparr>"
proof -
  have v: "json_value (max_nesting - 1) d" "json_value max_nesting d"
    using marshal_payload [OF assms, of "max_nesting - 2"] marshal_payload [OF assms, of "max_nesting - 1"] by (simp_all add: max_nesting_def)
  then have "d \<noteq> []" "json_valid d" by (auto simp: json_value_def json_value_valid)
  moreover have "compact False d = d" using marshal_payload [OF assms] by (metis append.right_neutral compact.simps(1) compacted_def)
  ultimately show "Marshal_eventRequest \<lparr>pe_Type = ty, pe_Data = d\<rparr> = Inr (request_text \<lparr>er_Type = ty, er_Data = d\<rparr>)"
    by (simp add: Marshal_eventRequest_def marshal_raw_def request_text_def)
  show "Unmarshal_EventRequest (request_text \<lparr>er_Type = ty, er_Data = d\<rparr>) = Some \<lparr>er_Type = fix_utf8 ty, er_Data = d\<rparr>"
    using v(1) by (simp add: request_text_roundtrip json_data_def)
qed

text \<open>How long a body can be.\<close>

lemma members_length: "length (json_members ms) \<le> sum_list (map (\<lambda>(k, raw). 6 * length k + 4 + length raw) ms)"
  by (induction ms rule: json_members.induct) (auto simp: json_string_def intro: order_trans [OF add_mono [OF quote_string_length]] le_trans [OF quote_string_length])

lemma Itoa_length: "int64_range i \<Longrightarrow> length (Itoa i) \<le> 20"
  using nat_digits_length [of "nat i" 19] nat_digits_length [of "nat (- i)" 19] by (auto simp: Itoa_def nat_less_iff)

lemma payload_length:
  assumes "payload_no i m" and "int64_range i" and "Marshal_map m = Inr d"
  shows "length d \<le> 800"
proof -
  let ?f = "\<lambda>(k, v). 6 * length k + 4 + (case v of JText s \<Rightarrow> 6 * length s + 2 | JInt i \<Rightarrow> 20 | _ \<Rightarrow> 4) :: nat"
  obtain p t where m: "p \<in> set fakePayloads" "int64_range t" "m = p @ [(''seq'', JInt i), (''ts'', JInt t)]"
    using assms(1) by (auto simp: payload_no_def)
  have v: "6 * length k + 4 + length (marshal_any v) \<le> ?f (k, v)" if "(k, v) \<in> set m" for k v
  proof -
    have "(k, v) \<in> set p \<or> v = JInt i \<or> v = JInt t" using that m(3) by auto
    moreover have "(k, v) \<in> set p \<Longrightarrow> (\<exists>s. v = JText s) \<or> (\<exists>i. v = JInt i \<and> int64_range i) \<or> v = JDecimal 942 1 \<or> v = JBool True"
      using payload_kinds m(1) by blast
    ultimately consider s where "v = JText s" | j where "v = JInt j" "int64_range j" | "v = JDecimal 942 1" | "v = JBool True"
      using m(2) assms(2) by blast
    then show ?thesis using quote_string_length Itoa_length nat_digits_length [of 94 2] by cases (simp_all add: json_string_def decimal_payload)
  qed
  have "length (json_members (map (apsnd marshal_any) (sort_key fst m))) \<le> sum_list (map (\<lambda>(k, v). 6 * length k + 4 + length (marshal_any v)) (sort_key fst m))"
    using members_length [of "map (apsnd marshal_any) (sort_key fst m)"] by (simp add: comp_def split_def)
  also have "\<dots> \<le> sum_list (map ?f (sort_key fst m))" using v by (intro sum_list_mono) auto
  also have "\<dots> = sum_list (map ?f m)"
    by (metis (no_types, lifting) mset_map mset_sort sum_mset_sum_list)
  also have "\<dots> \<le> 700" using m(1,3) by (auto simp: fakePayloads_def)
  finally show ?thesis using assms(3) by (auto simp: Marshal_map_def json_object_def)
qed

lemma millis_range: "int64_range x \<Longrightarrow> int64_range (x div millisecond)"
  by (simp add: millisecond_def) linarith

lemma push_loop_requests:
  assumes "push_loop L fl token left i s st = (Exit n, st')" and "pool_ok (sc_pool st)" and "\<forall>k. int64_range (sc_clock st k)"
  shows "\<exists>qs xs. net_run L (fl_insecure fl) qs (sc_net st) = (xs, sc_net st') \<and> length qs = left \<and> n = s + int (succeeded xs)
    \<and> (\<forall>j < left. request_no fl token (i + int j) (qs ! j)) \<and> pool_ok (sc_pool st')"
  using assms
proof (induction left arbitrary: i s st)
  case 0
  then show ?case by (simp add: succeeded_def)
next
  case (Suc left)
  let ?k = "sc_rand st (sc_drawn st) mod length (sc_pool st)"
  let ?m = "AList.update ''ts'' (JInt (sc_clock st (sc_reads st) div millisecond)) (AList.update ''seq'' (JInt i) (sc_pool st ! ?k))"
  have k: "?k < length (sc_pool st)" using Suc.prems(2) by (simp add: pool_ok_def fakePayloads_def)
  have t: "int64_range (sc_clock st (sc_reads st) div millisecond)" using millis_range Suc.prems(3) by blast
  note p = pool_payload [OF Suc.prems(2) k t, where i = i]
  obtain d b where d: "Marshal_map ?m = Inr d" "Marshal_eventRequest \<lparr>pe_Type = fl_type fl, pe_Data = d\<rparr> = Inr b"
    "sl_checkURL L (fl_url fl @ ''/v1/events/'' @ fl_client fl) = None"
    using Suc.prems(1) by (auto simp: Intn_def script_now_def Let_def split: sum.splits option.splits)
  let ?q = "\<lparr>hq_Method = ''POST'', hq_URL = fl_url fl @ ''/v1/events/'' @ fl_client fl,
    hq_Header = [(''Content-Type'', ''application/json''), (''Authorization'', ''Bearer '' @ token)], hq_Body = b\<rparr>"
  obtain x net where x: "sl_Do L (fl_insecure fl) ?q (sc_net st) = (x, net)" by force
  have "\<exists>s1 st1. push_loop L fl token left (i + 1) s1 st1 = (Exit n, st') \<and> s1 = s + (if \<exists>m < 300. x = Inr m then 1 else 0)
    \<and> sc_net st1 = net \<and> pool_ok (sc_pool st1) \<and> sc_clock st1 = sc_clock st"
  proof (cases x)
    case (Inl e)
    with Suc.prems(1) d x p(2) show ?thesis by (fastforce simp: Intn_def script_now_def Sleep_def Let_def)
  next
    case (Inr status)
    with Suc.prems(1) d x p(2) show ?thesis
      by (cases "i < fl_count fl"; cases "300 \<le> status") (fastforce simp: Intn_def script_now_def Sleep_def Let_def)+
  qed
  then obtain s1 st1 where 1: "push_loop L fl token left (i + 1) s1 st1 = (Exit n, st')" "s1 = s + (if \<exists>m < 300. x = Inr m then 1 else 0)"
    "sc_net st1 = net" "pool_ok (sc_pool st1)" "sc_clock st1 = sc_clock st" by blast
  from Suc.IH [OF 1(1,4)] Suc.prems(3) 1(5) obtain qs xs where 2: "net_run L (fl_insecure fl) qs net = (xs, sc_net st')" "length qs = left" "n = s1 + int (succeeded xs)"
    "\<forall>j < left. request_no fl token (i + 1 + int j) (qs ! j)" "pool_ok (sc_pool st')" using 1(3) by auto
  have q: "request_no fl token i ?q" using p(1) d by (auto simp: request_no_def)
  have "request_no fl token (i + int j) ((?q # qs) ! j)" if "j < Suc left" for j
    using that q 2(4) by (cases j) (auto simp: algebra_simps)
  with 1(2) 2 x show ?case by (intro exI [of _ "?q # qs"] exI [of _ "x # xs"]) (auto simp: succeeded_def)
qed

section \<open>The script in front of the server\<close>

text \<open>
  The network carries a request to the event route of the server; \<open>decode\<close> stands for what \<open>net/http\<close> and echo's router make of it.
\<close>

definition event_route :: "config \<Rightarrow> route" where
  "event_route cfg = srv_routes (NewServer cfg) ! 2"

definition server_do ::
  "('r, 'n) HTTPHandlers \<Rightarrow> (go_error \<Rightarrow> string) \<Rightarrow> stream_io \<Rightarrow> (client_request \<Rightarrow> echo_ctx) \<Rightarrow> bool \<Rightarrow> client_request
     \<Rightarrow> ('r, 'n) world \<Rightarrow> (go_error + int) \<times> ('r, 'n) world" where
  "server_do h text io decode insecure q w =
     (let (res, w') = serve_route h text io (event_route (Cfg h)) (decode q) w in (Inr (status_of res), w'))"

text \<open>What a request says arrives: path parameter, header, body, with a client address and a live context.\<close>

definition delivers :: "('r, 'n) HTTPHandlers \<Rightarrow> push_flags \<Rightarrow> go_context \<Rightarrow> (client_request \<Rightarrow> echo_ctx) \<Rightarrow> bool" where
  "delivers h fl c decode \<longleftrightarrow> (\<forall>q.
     (hq_URL q = fl_url fl @ ''/v1/events/'' @ fl_client fl \<longrightarrow> ctx_params (decode q) ''client_id'' = fl_client fl)
     \<and> (\<forall>v. map_of (hq_Header q) ''Authorization'' = Some v \<longrightarrow> header_get (ctx_req (decode q)) ''Authorization'' = v)
     \<and> rq_Body (ctx_req (decode q)) = hq_Body q \<and> rq_ctx (ctx_req (decode q)) = c
     \<and> lib_ClientIP (Libs h) (rq_Header (ctx_req (decode q))) (rq_RemoteAddr (ctx_req (decode q))) \<noteq> [])"

text \<open>The server's binder decodes bodies as \<open>encoding/json\<close> does, and its own events can be encoded.\<close>

definition reads_json :: "('r, 'n) HTTPHandlers \<Rightarrow> bool" where
  "reads_json h \<longleftrightarrow> (\<forall>p. \<not> isl (lib_marshalEvent (Libs h) p))
     \<and> (\<forall>b r rq. Unmarshal_EventRequest b = Some r \<longrightarrow> lib_Bind (Libs h) rq (Reader b False) = Inr r)"

text \<open>The limit on bodies leaves room for the script's: its payloads encode to at most 800 bytes, a character of the type to at most six.\<close>

definition bodies_fit :: "('r, 'n) HTTPHandlers \<Rightarrow> push_flags \<Rightarrow> bool" where
  "bodies_fit h fl \<longleftrightarrow> (0 < MaxEventBytes (CfgSSE (Cfg h)) \<longrightarrow> 6 * int (length (fl_type fl)) + 1000 \<le> MaxEventBytes (CfgSSE (Cfg h)))"

text \<open>An entry of the queue that holds the script's event number \<open>i\<close>.\<close>

definition event_no :: "('r, 'n) HTTPHandlers \<Rightarrow> push_flags \<Rightarrow> int \<Rightarrow> string \<Rightarrow> bool" where
  "event_no h fl i raw \<longleftrightarrow> (\<exists>p m. lib_marshalEvent (Libs h) p = Inr raw \<and> ev_Type p = fix_utf8 (fl_type fl) \<and> payload_no i m \<and> Marshal_map m = Inr (ev_Data p))"

lemma last_n_last_n: "last_n d (last_n d xs @ ys) = last_n d (xs @ ys)"
proof (cases "length xs \<le> d")
  case False
  then have "length xs - d - (length xs + length ys - d) = 0" by simp
  with False show ?thesis by (cases "length ys \<le> d") (simp_all add: last_n_def add_diff_assoc add.commute)
qed simp

context redis_laws
begin

lemmas push_stays_up = ui.Push_keeps

end

lemma insert_served:
  assumes "redis_events (RDB h) ks up (Events h)" and "delivers h fl c decode" and "reads_json h" and "bodies_fit h fl"
    and "request_no fl token i q" and "1 \<le> i" and "i \<le> fl_count fl" and "fl_client fl \<noteq> []" and "fl_type fl \<noteq> []" and "token \<noteq> []"
    and "ValidateRealToken (lib_jwt (Libs h)) (CfgAuth (Cfg h)) token w = (Inr (fl_client fl), snd (time_now w))"
    and "up c (rdb w)" and "list_or_none (ks (rdb w) (eventsKey (fl_client fl)))" and "fl_count fl < 2 ^ 63"
  shows "\<exists>raw w'. server_do h text io decode insecure q w = (Inr 201, w') \<and> event_no h fl i raw
    \<and> queue_of ks (rdb w') (fl_client fl) = last_n (nat (maxQueueDepth (Events h))) (queue_of ks (rdb w) (fl_client fl) @ [raw])
    \<and> up c (rdb w') \<and> list_or_none (ks (rdb w') (eventsKey (fl_client fl))) \<and> clock w' = clock w"
proof -
  let ?cl = "fl_client fl" and ?c = "decode q" and ?w = "snd (time_now w)"
  note laws = redis_events.axioms(1) [OF assms(1)]
  have dc: "ctx_params ?c ''client_id'' = ?cl" "header_get (ctx_req ?c) ''Authorization'' = ''Bearer '' @ token" "rq_ctx (ctx_req ?c) = c"
    "rq_Body (ctx_req ?c) = hq_Body q" and ip: "lib_ClientIP (Libs h) (rq_Header (ctx_req ?c)) (rq_RemoteAddr (ctx_req ?c)) \<noteq> []"
    using assms(2,5) by (auto simp: delivers_def request_no_def)
  obtain m d where m: "payload_no i m" "Marshal_map m = Inr d" "Marshal_eventRequest \<lparr>pe_Type = fl_type fl, pe_Data = d\<rparr> = Inr (hq_Body q)"
    using assms(5) by (auto simp: request_no_def)
  have b: "hq_Body q = request_text \<lparr>er_Type = fl_type fl, er_Data = d\<rparr>" using m(3) marshal_request(1) [OF m(1,2)] by simp
  have "int64_range i" using assms(6,7,14) by simp
  then have "length (hq_Body q) \<le> 6 * length (fl_type fl) + 1000"
    using payload_length [OF m(1) _ m(2)] quote_string_length [of "fl_type fl"]
    by (auto simp: b request_text_def raw_member_def json_object_def json_string_def escape_byte_def)
  then have "limited_body (MaxEventBytes (CfgSSE (Cfg h))) (hq_Body q) = Reader (hq_Body q) False"
    using assms(4) by (auto simp: bodies_fit_def limited_body_def MaxBytesReader_def)
  then have bind: "lib_Bind (Libs h) (ctx_req ?c) (limited_body (MaxEventBytes (CfgSSE (Cfg h))) (hq_Body q)) = Inr \<lparr>er_Type = fix_utf8 (fl_type fl), er_Data = d\<rparr>"
    using assms(3) marshal_request(2) [OF m(1,2)] by (simp add: reads_json_def b)
  have ty: "fix_utf8 (fl_type fl) \<noteq> []" using assms(9) by (simp add: fix_utf8_Nil)
  let ?p = "\<lparr>ev_ID = uuids w (drawn w), ev_Type = fix_utf8 (fl_type fl), ev_Data = d\<rparr>"
  obtain raw where raw: "lib_marshalEvent (Libs h) ?p = Inr raw" using assms(3) unfolding reads_json_def by (metis sum.collapse(2))
  obtain r where push: "Push (RDB h) (Events h) c ?cl raw (rdb w) = (None, r)"
    using redis_laws.Push_up [OF laws assms(12,13)] by blast
  have "status_of (fst (serve_route h text io (event_route (Cfg h)) ?c w)) = 201 \<and> rdb (snd (serve_route h text io (event_route (Cfg h)) ?c w)) = r
    \<and> clock (snd (serve_route h text io (event_route (Cfg h)) ?c w)) = clock w"
    using assms(8,10,11) ty dc ip bind raw push
    by (simp add: serve_route_def event_route_def NewServer_def TokenMiddleware_def Let_def V1InsertEvent_def get_ok_def
        NewString_def time_now_def on_rdb_def)
  then obtain w' where w': "server_do h text io decode insecure q w = (Inr 201, w')" "rdb w' = r" "clock w' = clock w"
    by (simp add: server_do_def split_beta)
  have "event_no h fl i raw" unfolding event_no_def by (intro exI [of _ ?p] exI [of _ m]) (use raw m in simp)
  moreover have "queue_of ks r ?cl = last_n (nat (maxQueueDepth (Events h))) (queue_of ks (rdb w) ?cl @ [raw])"
    using redis_events.Push_spec [OF assms(1) push] by simp
  moreover have "list_or_none (ks r (eventsKey ?cl))"
    using redis_laws.Push_effect [OF laws push] by (auto simp: put_list_def)
  moreover have "up c r" using redis_laws.push_stays_up [OF laws assms(12), of "Events h" c ?cl raw] push by simp
  ultimately show ?thesis using w' by auto
qed

lemma pushes_served:
  fixes h :: "('r, 'n) HTTPHandlers"
  assumes "redis_events (RDB h) ks up (Events h)" and "delivers h fl c decode" and "reads_json h" and "bodies_fit h fl"
    and "fl_client fl \<noteq> []" and "fl_type fl \<noteq> []" and "token \<noteq> []" and "sl_Do L = server_do h text io decode"
    and valid: "\<And>w' :: ('r, 'n) world. clock w' = clock w \<Longrightarrow>
      ValidateRealToken (lib_jwt (Libs h)) (CfgAuth (Cfg h)) token w' = (Inr (fl_client fl), snd (time_now w'))"
    and "\<forall>j < length qs. request_no fl token (i + int j) (qs ! j)" and "1 \<le> i" and "i + int (length qs) \<le> fl_count fl + 1"
    and "up c (rdb w)" and "list_or_none (ks (rdb w) (eventsKey (fl_client fl)))"
    and "length (queue_of ks (rdb w) (fl_client fl)) \<le> nat (maxQueueDepth (Events h))" and "net_run L (fl_insecure fl) qs w = (xs, w')"
    and "fl_count fl < 2 ^ 63"
  shows "succeeded xs = length qs \<and> (\<exists>raws. length raws = length qs \<and> (\<forall>j < length raws. event_no h fl (i + int j) (raws ! j))
    \<and> queue_of ks (rdb w') (fl_client fl) = last_n (nat (maxQueueDepth (Events h))) (queue_of ks (rdb w) (fl_client fl) @ raws))"
  using assms(9-)
proof (induction qs arbitrary: i w xs)
  case Nil
  then show ?case by (simp add: succeeded_def)
next
  case (Cons q qs)
  have q: "request_no fl token i q" using Cons.prems(2) by auto
  have qs: "\<forall>j < length qs. request_no fl token (i + 1 + int j) (qs ! j)"
    using Cons.prems(2) by (metis (no_types, opaque_lifting) Suc_less_eq add.assoc length_Cons nth_Cons_Suc of_nat_Suc add.commute)
  obtain raw w1 where 1: "server_do h text io decode (fl_insecure fl) q w = (Inr 201, w1)" "event_no h fl i raw"
    "queue_of ks (rdb w1) (fl_client fl) = last_n (nat (maxQueueDepth (Events h))) (queue_of ks (rdb w) (fl_client fl) @ [raw])"
    "up c (rdb w1)" "list_or_none (ks (rdb w1) (eventsKey (fl_client fl)))" "clock w1 = clock w"
    using insert_served [OF assms(1-4) q Cons.prems(3) _ assms(5-7) Cons.prems(1) [OF refl] Cons.prems(5,6,9)] Cons.prems(4) by fastforce
  obtain xs1 where xs: "net_run L (fl_insecure fl) qs w1 = (xs1, w')" "xs = Inr 201 # xs1"
    using Cons.prems(8) 1(1) assms(8) by (auto split: prod.splits)
  from Cons.IH [OF _ qs _ _ 1(4,5) _ xs(1) Cons.prems(9)] Cons.prems(1,3,4) 1(3,6) obtain raws where
    2: "succeeded xs1 = length qs" "length raws = length qs" "\<forall>j < length raws. event_no h fl (i + 1 + int j) (raws ! j)"
    "queue_of ks (rdb w') (fl_client fl) = last_n (nat (maxQueueDepth (Events h))) (queue_of ks (rdb w1) (fl_client fl) @ raws)" by auto
  have "event_no h fl (i + int j) ((raw # raws) ! j)" if "j < Suc (length raws)" for j
    using that 1(2) 2(3) by (cases j) (auto simp: algebra_simps)
  with 1(3) 2 xs(2) show ?case
    by (intro conjI exI [of _ "raw # raws"]) (simp_all add: succeeded_def last_n_last_n)
qed

section \<open>Properties\<close>

text \<open>
  Round trip of the scripts' tokens. A token that \<open>push_events.go\<close> mints, and the one that \<open>token.go\<close> prints, is accepted by
  a server with the same \<open>token_secret\<close> for 24 hours (to the second), and yields the client it was made for.
\<close>

theorem minted_token_accepted:
  assumes "map_tokens J (sl_Sign L)" and "clock w (reads w) < Unix (issued + 24 * hour) * second"
  shows "(mintToken L cl (TokenSecret cfg) st = (Exit tok, st') \<longrightarrow> cl \<noteq> [] \<longrightarrow> issued = sc_clock st (Suc (sc_reads st)) \<longrightarrow>
      ValidateRealToken J cfg tok w = (Inr cl, snd (time_now w)))
    \<and> (token_main L st = (Exit tok, st') \<longrightarrow> TokenSecret cfg = ''change-me-real-token-secret'' \<longrightarrow> issued = sc_clock st (sc_reads st) \<longrightarrow>
      ValidateRealToken J cfg tok w = (Inr ''12345'', snd (time_now w)))"
proof (intro conjI impI)
  assume m: "mintToken L cl (TokenSecret cfg) st = (Exit tok, st')" and cl: "cl \<noteq> []" and i: "issued = sc_clock st (Suc (sc_reads st))"
  let ?claims = "[(''sub'', JText cl), (''iat'', JInt (Unix (sc_clock st (sc_reads st)))), (''exp'', JInt (Unix (issued + 24 * hour)))]"
  from m i have "sl_Sign L (TokenSecret cfg) ?claims = Inr tok"
    by (auto simp: mintToken_def script_now_def Let_def split: sum.splits)
  from map_tokens.signed_token_accepted [OF assms(1) this, where sub = cl and w = w] cl assms(2) show "ValidateRealToken J cfg tok w = (Inr cl, snd (time_now w))" by simp
next
  assume m: "token_main L st = (Exit tok, st')" and s: "TokenSecret cfg = ''change-me-real-token-secret''" and i: "issued = sc_clock st (sc_reads st)"
  let ?claims = "[(''sub'', JText ''12345''), (''user_id'', JInt 12345), (''exp'', JInt (Unix (issued + 24 * hour))), (''iat'', JInt (Unix (sc_clock st (Suc (sc_reads st)))))]"
  from m i s have "sl_Sign L (TokenSecret cfg) ?claims = Inr tok"
    by (auto simp: token_main_def script_now_def Let_def split: sum.splits)
  from map_tokens.signed_token_accepted [OF assms(1) this, where sub = "''12345''" and w = w] assms(2) show "ValidateRealToken J cfg tok w = (Inr ''12345'', snd (time_now w))" by simp
qed

text \<open>
  C39: The events of the script reach the queue. A run that exits normally reports all its events as pushed (\<open>-count\<close>, or none if
  that is negative), and the client's queue has them at its end, in order and with the data that was encoded, the newest
  \<open>max_queue_depth\<close> entries being kept. It holds on these conditions. The script: \<open>-type\<close> and \<open>-client\<close> are not empty (the
  server answers an empty type with 400), its secret is the server's, \<open>-count\<close> is below \<open>2^63\<close>, its clock is in the range of an \<open>int64\<close>, its
  payloads are as the source has them, and its library signs with a non-empty token that the server's verifies (\<open>map_tokens\<close>). The network: every request
  arrives as it was sent, with a client address (\<open>delivers\<close>). The server: it reads JSON (\<open>reads_json\<close>), its limit on bodies leaves
  room for the script's (\<open>bodies_fit\<close>), and every reading of its clock during the run is before the token's expiry,
  24 hours after the script's. The queue: at the start the key holds a list or nothing, of at most \<open>max_queue_depth\<close> entries; Redis answers,
  and during the run nobody but the script's requests uses Redis.
\<close>

theorem pushed_events_queued:
  fixes h :: "('r, 'n) HTTPHandlers"
  assumes "redis_events (RDB h) ks up (Events h)" and "map_tokens (lib_jwt (Libs h)) (sl_Sign L)" and "push_main L fl st = (Exit n, st')"
    and "sl_Do L = server_do h err_text io decode" and "delivers h fl c decode" and "reads_json h" and "bodies_fit h fl"
    and "fl_secret fl = TokenSecret (CfgAuth (Cfg h))" and "fl_client fl \<noteq> []" and "fl_type fl \<noteq> []" and "\<forall>secret claims. sl_Sign L secret claims \<noteq> Inr []"
    and "sc_pool st = fakePayloads" and "\<forall>k. clock (sc_net st) k < Unix (sc_clock st (Suc (sc_reads st)) + 24 * hour) * second"
    and "up c (rdb (sc_net st))" and "list_or_none (ks (rdb (sc_net st)) (eventsKey (fl_client fl)))"
    and "q = queue_of ks (rdb (sc_net st)) (fl_client fl)" and "int (length q) \<le> maxQueueDepth (Events h)"
    and "\<forall>k. int64_range (sc_clock st k)" and "fl_count fl < 2 ^ 63"
  shows "n = max 0 (fl_count fl) \<and> (\<exists>raws. int (length raws) = n \<and> (\<forall>j < length raws. event_no h fl (1 + int j) (raws ! j))
    \<and> queue_of ks (rdb (sc_net st')) (fl_client fl) = last_n (nat (maxQueueDepth (Events h))) (q @ raws))"
proof -
  obtain token st1 where t: "mintToken L (fl_client fl) (TokenSecret (CfgAuth (Cfg h))) st = (Exit token, st1)"
    and l: "push_loop L fl token (nat (fl_count fl)) 1 0 st1 = (Exit n, st')"
    using assms(3,8) by (auto simp: push_main_def split: prod.splits exit.splits)
  have st1: "sc_net st1 = sc_net st" "sc_pool st1 = fakePayloads" "sc_clock st1 = sc_clock st" and tok: "token \<noteq> []"
    using t assms(11,12) by (auto simp: mintToken_def script_now_def Let_def split: sum.splits)
  let ?claims = "[(''sub'', JText (fl_client fl)), (''iat'', JInt (Unix (sc_clock st (sc_reads st)))), (''exp'', JInt (Unix (sc_clock st (Suc (sc_reads st)) + 24 * hour)))]"
  have sign: "sl_Sign L (TokenSecret (CfgAuth (Cfg h))) ?claims = Inr token"
    using t by (auto simp: mintToken_def script_now_def Let_def split: sum.splits)
  have valid: "ValidateRealToken (lib_jwt (Libs h)) (CfgAuth (Cfg h)) token w' = (Inr (fl_client fl), snd (time_now w'))" if "clock w' = clock (sc_net st)" for w' :: "('r, 'n) world"
    using map_tokens.signed_token_accepted [OF assms(2) sign, of "fl_client fl" _ w'] assms(9,13) that by simp
  obtain qs xs where r: "net_run L (fl_insecure fl) qs (sc_net st) = (xs, sc_net st')" "length qs = nat (fl_count fl)" "n = int (succeeded xs)"
    "\<forall>j < length qs. request_no fl token (1 + int j) (qs ! j)"
    using push_loop_requests [OF l] st1 assms(18) by auto
  show ?thesis
  proof (cases "0 \<le> fl_count fl")
    case True
    then have "1 + int (length qs) \<le> fl_count fl + 1" "length (queue_of ks (rdb (sc_net st)) (fl_client fl)) \<le> nat (maxQueueDepth (Events h))"
      using r(2) assms(16,17) by simp_all
    with pushes_served [OF assms(1,5-7,9,10) tok assms(4) valid r(4) _ _ assms(14,15) _ r(1) assms(19)] obtain raws where
      "succeeded xs = length qs" "length raws = length qs" "\<forall>j < length raws. event_no h fl (1 + int j) (raws ! j)"
      "queue_of ks (rdb (sc_net st')) (fl_client fl) = last_n (nat (maxQueueDepth (Events h))) (q @ raws)" using assms(16) by auto
    with True r(2,3) show ?thesis by (intro conjI exI [of _ raws]) simp_all
  next
    case False
    with r have "qs = []" "xs = []" "sc_net st' = sc_net st" by auto
    with False r(3) assms(16,17) show ?thesis by (simp add: succeeded_def)
  qed
qed

text \<open>Three events of \<open>u1\<close> pushed to the server on the in-memory Redis.\<close>

definition demo_decode :: "client_request \<Rightarrow> echo_ctx" where
  "demo_decode q = (demo_ctx (hq_Body q))\<lparr>ctx_req := \<lparr>rq_ctx = ReqCtx,
     rq_Header = (\<lambda>name. case map_of (hq_Header q) name of None \<Rightarrow> [] | Some v \<Rightarrow> [v]), rq_RemoteAddr = ''1.2.3.4'', rq_Body = hq_Body q\<rparr>\<rparr>"

definition demo_io :: stream_io where
  "demo_io = \<lparr>io_flusher = False, io_ready = [], io_writer = demo_writer\<rparr>"

definition demo_script_libs :: "(mem, memnats) world script_libs" where
  "demo_script_libs = \<lparr>sl_Sign = demo_map_sign, sl_checkURL = (\<lambda>_. None), sl_Do = server_do demo_handlers (\<lambda>_. []) demo_io demo_decode\<rparr>"

definition demo_flags :: push_flags where
  "demo_flags = default_flags\<lparr>fl_client := ''u1'', fl_type := ''order'', fl_count := 3\<rparr>"

definition demo_script :: "(mem, memnats) world script" where
  "demo_script = \<lparr>sc_pool = fakePayloads, sc_clock = (\<lambda>_. 0), sc_reads = 0, sc_rand = (\<lambda>n. n), sc_drawn = 0, sc_slept = [],
     sc_net = (demo_state mem0)\<lparr>clock := (\<lambda>_. 0)\<rparr>\<rparr>"

lemma push_loop_runs:
  assumes "pool_ok (sc_pool st)" and "\<forall>k. int64_range (sc_clock st k)" and "\<forall>u. sl_checkURL L u = None"
  shows "\<exists>n st'. push_loop L fl token left i s st = (Exit n, st')"
  using assms(1,2)
proof (induction left arbitrary: i s st)
  case (Suc left)
  let ?k = "sc_rand st (sc_drawn st) mod length (sc_pool st)"
  let ?m = "AList.update ''ts'' (JInt (sc_clock st (sc_reads st) div millisecond)) (AList.update ''seq'' (JInt i) (sc_pool st ! ?k))"
  have k: "?k < length (sc_pool st)" using Suc.prems(1) by (simp add: pool_ok_def fakePayloads_def)
  have t: "int64_range (sc_clock st (sc_reads st) div millisecond)" using millis_range Suc.prems(2) by blast
  note p = pool_payload [OF Suc.prems(1) k t, where i = i]
  obtain d where d: "Marshal_map ?m = Inr d" by (simp add: Marshal_map_def)
  note b = marshal_request(1) [OF p(1) d, of "fl_type fl"]
  show ?case
    using assms(3) d b Suc.IH p(2) Suc.prems(2)
    by (simp add: Intn_def script_now_def Sleep_def Let_def split_beta split: sum.split)
qed simp

lemma demo_push_runs: "\<exists>n st'. push_main demo_script_libs demo_flags demo_script = (Exit n, st')"
proof -
  obtain tok st1 where t: "mintToken demo_script_libs (fl_client demo_flags) (fl_secret demo_flags) demo_script = (Exit tok, st1)"
    and s: "sc_pool st1 = fakePayloads" "sc_clock st1 = (\<lambda>_. 0)"
    by (simp add: mintToken_def script_now_def demo_script_libs_def demo_flags_def default_flags_def demo_map_sign_def line_free_def Let_def demo_script_def)
  from push_loop_runs [of st1 demo_script_libs] s t show ?thesis by (simp add: push_main_def demo_script_libs_def)
qed

theorem minted_token_accepted_witness:
  "\<exists>tok st'. mintToken demo_script_libs ''u1'' (TokenSecret (CfgAuth default_config)) demo_script = (Exit tok, st')
     \<and> fst (ValidateRealToken demo_jwt (CfgAuth default_config) tok demo_world0) = Inr ''u1''"
proof -
  obtain tok st' where m: "mintToken demo_script_libs ''u1'' (TokenSecret (CfgAuth default_config)) demo_script = (Exit tok, st')"
    by (simp add: mintToken_def script_now_def demo_script_libs_def default_config_def demo_map_sign_def line_free_def Let_def)
  have j: "map_tokens demo_jwt (sl_Sign demo_script_libs)" using dm.map_tokens_axioms by (simp add: demo_script_libs_def)
  have "clock demo_world0 (reads demo_world0) < Unix (sc_clock demo_script (Suc (sc_reads demo_script)) + 24 * hour) * second"
    by (simp add: demo_world0_def demo_script_def Unix_def hour_def second_def)
  from minted_token_accepted [OF j this] m show ?thesis by (metis fst_conv list.distinct(1))
qed

theorem pushed_events_queued_witness:
  "\<exists>st'. push_main demo_script_libs demo_flags demo_script = (Exit 3, st') \<and> length (queue_of mks (rdb (sc_net st')) ''u1'') = 3"
proof -
  obtain n st' where p: "push_main demo_script_libs demo_flags demo_script = (Exit n, st')" using demo_push_runs by blast
  have j: "map_tokens (lib_jwt (Libs demo_handlers)) (sl_Sign demo_script_libs)"
    using dm.map_tokens_axioms by (simp add: demo_script_libs_def demo_defs)
  have "n = max 0 (fl_count demo_flags) \<and> (\<exists>raws. int (length raws) = n \<and> (\<forall>j < length raws. event_no demo_handlers demo_flags (1 + int j) (raws ! j))
    \<and> queue_of mks (rdb (sc_net st')) (fl_client demo_flags) = last_n (nat (maxQueueDepth (Events demo_handlers))) ([] @ raws))"
  proof (rule pushed_events_queued [OF demo_events j p, where c = ReqCtx and decode = demo_decode and io = demo_io and err_text = "\<lambda>_. []"])
    show "sl_Do demo_script_libs = server_do demo_handlers (\<lambda>_. []) demo_io demo_decode" by (simp add: demo_script_libs_def)
    show "delivers demo_handlers demo_flags ReqCtx demo_decode"
      by (simp add: delivers_def demo_decode_def demo_ctx_def demo_flags_def header_get_def demo_handlers_def demo_libs_def)
    show "reads_json demo_handlers"
      by (auto simp: reads_json_def demo_handlers_def demo_libs_def)
    show "bodies_fit demo_handlers demo_flags"
      by (simp add: bodies_fit_def demo_flags_def demo_handlers_def default_config_def)
    show "\<forall>secret claims. sl_Sign demo_script_libs secret claims \<noteq> Inr []"
      by (auto simp: demo_script_libs_def demo_map_sign_def split: option.splits jany.splits)
  qed (simp_all add: demo_flags_def default_flags_def demo_handlers_def default_config_def demo_script_def Unix_def hour_def second_def
        mup_def mem0_def mks_def queue_of_def NewEventStore_def)
  then show ?thesis using p by (auto simp: demo_flags_def)
qed

end
