(* ===== verification/Lifecycle.thy ===== *)
theory Lifecycle
  imports Keyspace_Types
begin

text \<open>
  The life of the program, from the command line to the exit code: \<open>runStart\<close> (\<open>cmd/scorpion/start.go\<close>) is the start, the
  requests served until the signal, and the stop; \<open>Execute\<close> (\<open>cmd/scorpion/root.go\<close>) turns its error into an exit code; \<open>main\<close>
  (\<open>main.go\<close>) hands the command tree to cobra, whose parser is a parameter.
\<close>

section \<open>Operations\<close>

text \<open>The requests served between the start and the signal, those that finish during the shutdown included.\<close>

fun serve_all :: "('r, 'n) HTTPHandlers \<Rightarrow> (go_error \<Rightarrow> string) \<Rightarrow> (route \<times> stream_io \<times> echo_ctx) list \<Rightarrow> ('r, 'n) world \<Rightarrow> ('r, 'n) world" where
  "serve_all h text [] w = w"
| "serve_all h text ((r, io, c) # qs) w = serve_all h text qs (snd (serve_route h text io r c w))"

text \<open>
  \<open>qs\<close> are the requests that come, \<open>shutErr\<close> is what the shutdown of the listeners returns. \<open>None\<close> is a run that does not end.
\<close>

definition runStart ::
  "(string \<Rightarrow> config option \<times> go_error option) \<Rightarrow> 's ip_lib \<Rightarrow> ('s \<Rightarrow> (string \<Rightarrow> string list) \<Rightarrow> string \<Rightarrow> string)
     \<Rightarrow> handler_libs \<Rightarrow> 'r redis \<Rightarrow> 'n nats_api \<Rightarrow> string \<Rightarrow> string list \<Rightarrow> (go_error \<Rightarrow> string)
     \<Rightarrow> (route \<times> stream_io \<times> echo_ctx) list \<Rightarrow> go_error option \<Rightarrow> ('r, 'n) world \<Rightarrow> (go_error option outcome \<times> ('r, 'n) world) option" where
  "runStart load I clientIP L R N configPath reg text qs shutErr w =
     (case boot load I clientIP L R N configPath reg w of
        (Panic, w1) \<Rightarrow> Some (Panic, w1)
      | (Ret (Inl e), w1) \<Rightarrow> Some (Ret (Some e), w1)
      | (Ret (Inr (h, srv)), w1) \<Rightarrow> map_option (Pair (Ret None)) (stop h (\<lambda>w. (shutErr, w)) (serve_all h text qs w1)))"

text \<open>The exit code; the Go runtime exits with 2 after a panic.\<close>

fun Execute :: "go_error option outcome \<Rightarrow> int" where
  "Execute (Ret None) = 0"
| "Execute (Ret (Some _)) = 1"
| "Execute Panic = 2"

text \<open>
  The command tree: what cobra knows of a command is its name, its string flags with their defaults, whether it runs
  anything, and its sub-commands. Cobra reports an error in the arguments, shows a text of its own, or runs a command with the values of its flags.
\<close>

datatype cobra_command = Command (cmd_Use: string) (cmd_Flags: "(string \<times> string) list") (cmd_Runs: bool) (cmd_Subs: "cobra_command list")

definition startCmd :: cobra_command where
  "startCmd = Command ''start'' [(''config'', ''config/config.yaml'')] True []"

definition rootCmd :: cobra_command where
  "rootCmd = Command ''scorpion'' [] False [startCmd]"

datatype invocation = Shown | Run string "string \<Rightarrow> string"

text \<open>\<open>main\<close> with the exit code of the process; \<open>run\<close> is \<open>runStart\<close> as a function of the path of the configuration.\<close>

definition main ::
  "(cobra_command \<Rightarrow> string list \<Rightarrow> go_error + invocation) \<Rightarrow> (string \<Rightarrow> 'w \<Rightarrow> (go_error option outcome \<times> 'w) option) \<Rightarrow> string list \<Rightarrow> 'w
     \<Rightarrow> (int \<times> 'w) option" where
  "main cobra run args w =
     (case cobra rootCmd args of
        Inl e \<Rightarrow> Some (Execute (Ret (Some e)), w)
      | Inr Shown \<Rightarrow> Some (Execute (Ret None), w)
      | Inr (Run name flags) \<Rightarrow>
          if name = cmd_Use startCmd then map_option (apfst Execute) (run (flags ''config'') w) else Some (Execute (Ret None), w))"

section \<open>What a run keeps\<close>

context redis_invariant
begin

lemma serve_all_keeps: "RDB h = R \<Longrightarrow> I (rdb w) \<Longrightarrow> I (rdb (serve_all h text qs w))"
  by (induction h "text" qs w rule: serve_all.induct) (simp_all add: any_route_keeps)

end

context redis_laws
begin

lemmas serve_all_up = ui.serve_all_keeps and boot_up = ui.boot_keeps

end

context redis_atomic
begin

lemmas serve_all_typed = ty.serve_all_keeps and boot_typed = ty.boot_keeps

end

section \<open>Properties\<close>

lemma run_to_exit:
  fixes w :: "('r, 'n) world"
  assumes "redis_atomic R ks up" and "redis_scan R ks up todo left" and "typed (ks (rdb w))" and "up Background (rdb w)"
    and "boot load I clientIP L R N path reg w = (Ret x, w1)"
  shows "\<exists>res w'. runStart load I clientIP L R N path reg text qs shutErr w = Some (res, w') \<and> typed (ks (rdb w'))
    \<and> (case x of Inl e \<Rightarrow> Execute res = 1 \<and> w' = w1
       | Inr (h, srv) \<Rightarrow> Execute res = 0 \<and> ks (rdb w') = without_owned (instanceID (Conns h)) {k. prefix ''scorpion:conn:'' k} (ks (rdb (serve_all h text qs w1))))"
proof (cases x)
  case (Inl e)
  with assms(5) redis_atomic.boot_typed [OF assms(1,3), of load I clientIP L N path reg] show ?thesis by (simp add: runStart_def)
next
  case (Inr y)
  then obtain h srv where x: "x = Inr (h, srv)" by (cases y) auto
  then have R: "RDB h = R" using boot_handlers assms(5) by blast
  let ?w2 = "serve_all h text qs w1"
  have t: "typed (ks (rdb ?w2))"
    using redis_atomic.boot_typed [OF assms(1,3), of load I clientIP L N path reg] redis_atomic.serve_all_typed [OF assms(1) R] assms(5) by simp
  have u: "up Background (rdb ?w2)"
    using redis_laws.boot_up [OF redis_atomic.axioms(1) [OF assms(1)] assms(4), of load I clientIP L N path reg]
      redis_laws.serve_all_up [OF redis_atomic.axioms(1) [OF assms(1)] R] assms(5) by simp
  have s: "\<forall>k. prefix ''scorpion:conn:'' k \<longrightarrow> str_or_none (ks (rdb ?w2) k)" using typed_reads(2) [OF t] by blast
  from redis_scan.CleanupInstance_effect [OF assms(2) u s, of "Conns h"] obtain r' where
    "CleanupInstance R (Conns h) Background (rdb ?w2) = Some r'"
    "ks r' = without_owned (instanceID (Conns h)) {k. prefix ''scorpion:conn:'' k} (ks (rdb ?w2))" by blast
  then obtain w' where w': "stop h (\<lambda>w. (shutErr, w)) ?w2 = Some w'" 
    "ks (rdb w') = without_owned (instanceID (Conns h)) {k. prefix ''scorpion:conn:'' k} (ks (rdb ?w2))"
    using R by (simp add: stop_def)
  moreover have "typed (ks (rdb w'))" using redis_atomic.stop_keeps_types [OF assms(1) R w'(1)] t by simp
  ultimately show ?thesis using x assms(5) by (simp add: runStart_def)
qed

text \<open>
  What a user sees: arguments that cobra refuses end the program with 1 and help with 0, neither touching the outside; \<open>start\<close> ends
  with 0 or 1, unless it panics before any request is served.
\<close>

theorem main_exit_code:
  fixes w :: "('r, 'n) world"
  assumes "redis_atomic R ks up" and "redis_scan R ks up todo left" and "typed (ks (rdb w))" and "up Background (rdb w)"
    and "\<forall>path. fst (boot load I clientIP L R N path reg w) \<noteq> Panic"
  shows "\<exists>code w'. main cobra (\<lambda>path. runStart load I clientIP L R N path reg text qs shutErr) args w = Some (code, w')
    \<and> code \<in> {0, 1} \<and> ((\<exists>e. cobra rootCmd args = Inl e) \<longrightarrow> code = 1 \<and> w' = w) \<and> (cobra rootCmd args = Inr Shown \<longrightarrow> code = 0 \<and> w' = w)"
proof (cases "\<exists>flags. cobra rootCmd args = Inr (Run (cmd_Use startCmd) flags)")
  case True
  then obtain flags where f: "cobra rootCmd args = Inr (Run (cmd_Use startCmd) flags)" by blast
  obtain x w1 where b: "boot load I clientIP L R N (flags ''config'') reg w = (Ret x, w1)"
    using assms(5) by (metis outcome.exhaust prod.exhaust fst_conv)
  from run_to_exit [OF assms(1-4) b, of "text" qs shutErr] f show ?thesis
    by (cases x) (auto simp: main_def split: prod.splits)
next
  case False
  then show ?thesis by (auto simp: main_def split: sum.split invocation.split)
qed

text \<open>
  C14: A start either fails with exit code 1 before any request is served, or the program serves whatever requests come and,
  after the signal, ends with exit code 0: on a Redis that answers the cleanup terminates even when the
  shutdown of the listeners fails, no connection slot of this instance is left, no other key was removed by it, and the key
  space is typed as it was at the start.
\<close>

theorem program_runs_to_exit:
  fixes w :: "('r, 'n) world"
  assumes "redis_atomic R ks up" and "redis_scan R ks up todo left" and "typed (ks (rdb w))" and "up Background (rdb w)"
    and "boot load I clientIP L R N path reg w = (Ret x, w1)"
  shows "\<exists>res w'. runStart load I clientIP L R N path reg text qs shutErr w = Some (res, w') \<and> typed (ks (rdb w'))
    \<and> (case x of Inl e \<Rightarrow> Execute res = 1 \<and> w' = w1
       | Inr (h, srv) \<Rightarrow> Execute res = 0 \<and> ks (rdb w') = without_owned (instanceID (Conns h)) {k. prefix ''scorpion:conn:'' k} (ks (rdb (serve_all h text qs w1))))"
  by (rule run_to_exit [OF assms])

theorem program_runs_to_exit_witness:
  "\<exists>res w'. runStart demo_load demo_ip_lib (\<lambda>_ _ addr. addr) demo_libs mem_redis mem_nats [] [] (\<lambda>_. [])
       [(srv_routes (NewServer default_config) ! 0, \<lparr>io_flusher = False, io_ready = [], io_writer = demo_writer\<rparr>, demo_ctx [])]
       (Some (Err ''deadline exceeded'')) (demo_state mem0) = Some (res, w') \<and> Execute res = 0"
proof -
  obtain h srv w where b: "boot demo_load demo_ip_lib (\<lambda>_ _ addr. addr) demo_libs mem_redis mem_nats [] [] (demo_state mem0) = (Ret (Inr (h, srv)), w)"
    using demo_boots by blast
  have "typed (mks (rdb (demo_state mem0)))" "mup Background (rdb (demo_state mem0))" by (simp_all add: typed_def mks_def mup_def mem0_def)
  from program_runs_to_exit [OF ma.redis_atomic_axioms ms.redis_scan_axioms this b] show ?thesis by fastforce
qed

text \<open>A parser that knows \<open>start\<close> with its default path.\<close>

definition demo_cobra :: "cobra_command \<Rightarrow> string list \<Rightarrow> go_error + invocation" where
  "demo_cobra c args =
     (if args = [] then Inr Shown
      else case find (\<lambda>s. cmd_Use s = hd args) (cmd_Subs c) of None \<Rightarrow> Inl (Err ''unknown command'')
        | Some s \<Rightarrow> Inr (Run (cmd_Use s) (\<lambda>f. the (map_of (cmd_Flags s) f))))"

theorem main_exit_code_witness:
  "\<exists>w'. main demo_cobra (\<lambda>path. runStart demo_load demo_ip_lib (\<lambda>_ _ addr. addr) demo_libs mem_redis mem_nats path [] (\<lambda>_. []) [] None)
     [''stop''] (demo_state mem0) = Some (1, w') \<and> w' = demo_state mem0"
proof -
  have "typed (mks (rdb (demo_state mem0)))" "mup Background (rdb (demo_state mem0))" by (simp_all add: typed_def mks_def mup_def mem0_def)
  moreover have "fst (boot demo_load demo_ip_lib (\<lambda>_ _ addr. addr) demo_libs mem_redis mem_nats path [] (demo_state mem0)) \<noteq> Panic" for path
    using demo_boots by (auto simp: boot_def demo_load_def)
  ultimately show ?thesis
    using main_exit_code [OF ma.redis_atomic_axioms ms.redis_scan_axioms, where cobra = demo_cobra and args = "[''stop'']"]
    by (fastforce simp: demo_cobra_def rootCmd_def startCmd_def)
qed

end
