(* ===== verification/Spec2Isabelle.thy ===== *)
theory Spec2Isabelle
  imports Event_Delivery Ack_Race Cluster_Leases Push_Script Lifecycle
begin

text \<open>
  \<^bold>\<open>Scorpion, an SSE gateway: verification development.\<close>

  \<^bold>\<open>The program.\<close> Clients exchange a bearer token for a short-lived ticket (\<open>POST /v1/auth/ticket\<close>), open one
  event stream with it (\<open>GET /v1/stream/events\<close>), receive what producers queued for them
  (\<open>POST /v1/events/:client_id\<close>) and acknowledge each event (\<open>POST /v1/ack\<close>), which is published to NATS.
  All state that outlives a request is in Redis: one list per client (its queue), one key per pending ticket, per
  open connection, per delivered and per acknowledged event, and one counter per address for the rate limit.

  \<^bold>\<open>Theories, bottom up\<close> (paths under \<open>src/internal/\<close> unless they start with \<open>cmd\<close> or \<open>scripts\<close>):
  \<^item> \<open>Prelude\<close>: Go values (errors, 64-bit wrap-around, durations, times, \<open>Itoa\<close>/\<open>Atoi\<close>, panics), list lemmas, theorem collections.
  \<^item> \<open>Redis_Api\<close>: the Redis commands the program sends as the record \<open>redis\<close>, and the locale \<open>redis_laws\<close> with
    their documented effect on a key space with expiry times; \<open>redis_time\<close>, \<open>redis_scan\<close> and \<open>redis_atomic\<close> extend it by the
    passing of time, the SCAN cursor and the promise that a failed command ran whole or not at all.
    \<open>Redis_Mem\<close>: an executable server and its interpretations.
  \<^item> \<open>Keys\<close>: the key builders of \<open>repository/*.go\<close> and \<open>ratelimit/limiter.go\<close>; they are injective where no part has a colon.
  \<^item> \<open>Event_Store\<close>: \<open>repository/events.go\<close>, against the abstract bounded queue (locale \<open>event_store\<close>). \<open>Event_Pipeline\<close>:
    the same operations as pipelines whose commands interleave with those of other connections, for every schedule.
    \<open>Event_Delivery\<close>: what one consumer then still receives in order.
  \<^item> \<open>Ticket_Store\<close>, \<open>Connection_Store\<close>, \<open>InFlight_Store\<close>, \<open>Rate_Limiter\<close>: \<open>repository/ticket.go\<close>, \<open>connection.go\<close>,
    \<open>inflight.go\<close>, \<open>ratelimit/limiter.go\<close> and their Lua scripts, each run as one atomic step. The in-flight store
    refines a three-phase machine, the limiter a fixed window for each address. \<open>Go_Time\<close>: the calendar and the text of time stamps
    (\<open>Format(time.RFC3339Nano)\<close>), which is read back exactly. \<open>Redis_Invariant\<close>: the locales \<open>redis_stable\<close> and
    \<open>redis_invariant\<close>, in which what every command keeps is carried through every store operation and the stream loop.
  \<^item> \<open>Json\<close>: what the program uses of \<open>encoding/json\<close> and \<open>unicode/utf8\<close>: the scanner with its nesting limit, unquoting, decoding
    into a struct, quoting, and the compact copy of a \<open>RawMessage\<close>. \<open>Json_Facts\<close>: what the encoder writes is read back.
    \<open>Json_Content\<close>: a decoded value is valid JSON by itself, is no longer than its text and keeps its meaning when compacted.
  \<^item> \<open>Config\<close>: \<open>config/config.go\<close>. \<open>Domain\<close>: \<open>domain/*.go\<close>, with the decoding of the event structs by their tags. \<open>Metrics\<close>: \<open>metrics/metrics.go\<close>. \<open>World\<close>: the state handlers
    share, with the clock and the UUID generator as arbitrary sequences.
  \<^item> \<open>Circuit_Breaker\<close>, \<open>Sse_Frame\<close>, \<open>Stream_Loop\<close>: \<open>stream/loop.go\<close> and \<open>stream/heartbeat.go\<close>. The breaker refines an
    abstract one; the frames are read back by the event stream parser of the WHATWG standard; the loop is run
    on every sequence of ready channels and every schedule of failing writes.
  \<^item> \<open>Publisher\<close>: \<open>ack/*.go\<close> and \<open>app/nats.go\<close>, with the locale \<open>jetstream\<close>. \<open>Auth_Jwt\<close>: \<open>auth/jwt.go\<close>, with the locale
    \<open>jwt_laws\<close>. \<open>Net_Cidr\<close>: \<open>net.ParseCIDR\<close> and \<open>IPNet.Contains\<close>, and which addresses,
    IPv4-mapped ones included, a range contains. \<open>Ip_Strategy\<close>: \<open>app/ip.go\<close>.
  \<^item> \<open>Http_Context\<close>: requests, responses, \<open>handlers/handlers.go\<close>, \<open>http/middleware\<close>. \<open>Event_Handlers\<close>, \<open>Ack_Handler\<close>,
    \<open>Ticket_Handler\<close>, \<open>Stream_Handler\<close>: the files of \<open>http/handlers\<close>, one definition per handler, every branch
    with its status, body and metrics. \<open>Ack_Race\<close>: the acknowledgement command by command, and the interleavings of any
    number of requests as a step relation, within the 72 hours its keys live; run alone, the commands are the handler.
  \<^item> \<open>Observability\<close>: \<open>log/log.go\<close>, \<open>telemetry/tracer.go\<close>, \<open>app/redis.go\<close>. \<open>Server\<close>: \<open>http/server.go\<close>, the routes and their
    guards. \<open>Start\<close>: \<open>cmd/scorpion/start.go\<close> and \<open>app/repository.go\<close>, up to the signal and after it. \<open>Handler_Invariants\<close>:
    the invariants of the stores, carried through handlers, middlewares and routes. \<open>Keyspace_Types\<close>: the types of the
    program's keys as such an invariant. \<open>Lifecycle\<close>: \<open>runStart\<close> as a whole, the command tree and the exit
    code (\<open>cmd/scorpion/root.go\<close>, \<open>main.go\<close>).
  \<^item> \<open>Cluster\<close>: the stream handler in pieces, which put together are the handler, and any number of instances, requests and streams over one Redis as a
    step relation with invariants by rule induction. \<open>Cluster_Leases\<close>: the same steps with time passing between them and
    the age of every lease.
  \<^item> \<open>Push_Script\<close>: \<open>scripts/push_events.go\<close> and \<open>scripts/token.go\<close>, alone and in front of the server.
  \<^item> This theory: properties that span handlers, from the issued ticket to the open stream, from the insert
    to the client's parser, and on to the acknowledgement.

  \<^bold>\<open>State and errors.\<close> An operation takes the state it changes and returns a result with the new state. A Go error is
  \<open>Inl\<close> (or \<open>Some\<close> where the operation returns only an error); a panic is the constructor \<open>Panic\<close>. Under \<open>redis_laws\<close> a failed
  command may have any effect: the laws constrain only what an answer means, and \<open>up\<close> says when an answer comes; theorems that
  must survive failures assume \<open>redis_atomic\<close>. A command is sent once: a retry by the client library after a lost answer, which would
  run it twice, is outside the laws. Concurrency is interleaving: of single commands in \<open>Event_Pipeline\<close> and \<open>Ack_Race\<close>,
  of whole requests, registrations and rounds of the stream loop in \<open>Cluster\<close>, where keys may expire between the
  steps but the leases of running streams hold, and in \<open>Cluster_Leases\<close>, where they run out unless they are renewed in time.

  \<^bold>\<open>Parameters.\<close> Code outside the repository is an argument: Redis, NATS, the JWT library, the sonic
  codec, echo's \<open>Bind\<close> and router, \<open>realclientip\<close>, viper, cobra, the scripts' HTTP client.
  Their documented behaviour is in the locales \<open>redis_laws\<close> (with its extensions), \<open>jetstream\<close>, \<open>jwt_laws\<close> and \<open>map_tokens\<close>; each is interpreted on an executable instance, and
  the witnesses evaluate the model there.

  \<^bold>\<open>Termination.\<close> All operations are total functions but the SCAN loop of \<open>CleanupInstance\<close>, a partial function whose
  termination on a Redis that answers is proved (\<open>cleanup_removes_exactly_own\<close>, and for the whole program \<open>program_runs_to_exit\<close>). The retry loop of the publisher
  recurses on the attempts left; the stream loop on the sequence of ready channels, so no fuel is needed.

  \<^bold>\<open>What the lemmas show.\<close> Queue: delivery is in order and without duplicates for one consumer and the length stays within
  the cap, both under every interleaving, and a drain that races a push can lose an event. Tickets: single use,
  bound to client and address, accepted only under the configured secret. Connections: one stream per client and
  address in the whole cluster, released at its end, kept as long as every lease is renewed in time; a stream that is served late frees its successor's
  slot. The gauges count the streams that run. Events: an accepted body is read back from the queue as it was, byte by byte in its data;
  data over several lines is cut on the way to the client. Addresses: the trusted ranges are exactly those configured, or the start fails.
  Acknowledgements: decided by the event's phase, which only advances under every interleaving; nothing is published for an
  event that is not delivered and open, whatever Redis does; a late duplicate is refused, but two that overlap can both be published,
  each at least once. Limiter: exactly \<open>ticket_rpm + ticket_burst\<close> per
  window and address, whatever other addresses send, with the bounds of what it reports. Server: what is behind the token check is refused without a token, an accepted event
  stays within the size limit, no route panics before it answers, every route keeps the types of the key space, and the
  program ends with the exit code its start deserves. Scripts: their tokens are accepted, their events reach the queue in order.

  \<^bold>\<open>Not modelled.\<close> Log lines of the handlers and the names of their fields, the tracing spans around them (they pass their
  arguments on), the latency hook around the handlers' Redis calls (\<open>latency_hook_transparent\<close>: it only observes), help texts and
  buckets of metrics, TLS and the sockets of the listeners, cobra's parsing of the arguments. The bodies of acknowledgements and responses are
  values: sonic, a third-party codec, reads and writes them, and an instant here has no zone, which the text of \<open>acked_at\<close> would need.
  The limiter's and the ticket's scripts run as one step, as Redis runs them, so interleaved requests of several instances are sequences of
  these steps. What is left of the source are interfaces, constructors without state and constants.
\<close>

section \<open>From the ticket to the stream, from the insert to the client\<close>

lemma stream_env_of_simps [simp]:
  "se_redis (stream_env_of h cl ip) = RDB h"
  "se_client (stream_env_of h cl ip) = cl" "se_cfg (stream_env_of h cl ip) = CfgSSE (Cfg h)" "se_inFlight (stream_env_of h cl ip)"
  by (simp_all add: stream_env_of_def)

text \<open>
  C7: An issued ticket opens a stream. After a 200 answer of the ticket endpoint, a stream request that
  presents the (non-empty) token from the same address before it expires, to the whole second, over a connection that can be
  flushed, is accepted, on four conditions: the ticket pending for
  this client and address is still the one that was issued, so it has not been used, replaced by a second one or dropped by
  Redis; the connection slot is free; Redis answers; the configured lifetime of a connection is not negative. What else happened to
  Redis in between does not matter.
\<close>

theorem issued_ticket_opens_stream:
  fixes h :: "('r, 'n) HTTPHandlers"
  assumes "redis_laws (RDB h) ks up" and "jwt_laws (lib_jwt (Libs h)) signed_by"
    and "V1AuthTicket h c w = (Ret resp, w1)" and "rs_status resp = 200" and "rs_body resp = TicketBody tok n" and "tok \<noteq> []"
    and "ctx_vals c ClientID = Some cl" and "ctx_vals c ClientIP = Some ip"
    and "ctx_query c2 ''ticket'' = tok" and "ctx_vals c2 ClientIP = Some ip"
    and "pending_ticket ks (rdb w2) cl ip = pending_ticket ks (rdb w1) cl ip"
    and "clock w2 (reads w2) < (clock w (Suc (reads w)) + TicketTTL (CfgAuth (Cfg h))) div second * second"
    and "up (rq_ctx (ctx_req c2)) (rdb w2)" and "\<not> conn_taken ks (rdb w2) cl ip" and "0 \<le> ConnTTL (CfgSSE (Cfg h))"
  shows "\<exists>how. fst (V1SSEStreamEvents h True es c2 wr w2) = Streamed how"
proof -
  have ip: "ip \<noteq> []" using V1AuthTicket_issued [OF assms(3)] assms(4,8) by auto
  from V1AuthTicket_pending [OF assms(1-3)] assms(4,5,7,8) obtain jti where
    p: "pending_ticket ks (rdb w1) cl ip = Some jti"
    and u: "usable_ticket (lib_jwt (Libs h)) (CfgAuth (Cfg h)) (clock w (Suc (reads w))) tok cl ip jti w2" by auto
  from u assms(12) obtain claims where
    v: "fst (ValidateTicket (lib_jwt (Libs h)) (CfgAuth (Cfg h)) tok w2) = Inr claims"
      "cl_Subject claims = cl" "cl_IP claims = ip" "cl_ID claims = jti" by (auto simp: usable_ticket_def)
  show ?thesis
    by (rule redis_laws.stream_opens [OF assms(1) refl, where claims = claims and ip = ip]) (use assms p v ip in simp_all)
qed

text \<open>A ticket of \<open>u1\<close>, issued on the in-memory servers.\<close>

lemma demo_issued:
  assumes "V1AuthTicket demo_handlers (demo_ctx []) (demo_state mem0) = (res, w1)"
  shows "\<exists>resp tok n. res = Ret resp \<and> rs_status resp = 200 \<and> rs_body resp = TicketBody tok n \<and> tok \<noteq> []
    \<and> mup ReqCtx (rdb w1) \<and> \<not> conn_taken mks (rdb w1) ''u1'' ''1.2.3.4''"
  using assms
  by (simp add: V1AuthTicket_def demo_ctx_def ClientID_def ClientIP_def demo_handlers_def demo_libs_def demo_state_def time_now_def
      on_rdb_def Allow_def atomic_ratelimit_def mem_ops windowSeconds_def default_config_def issue_ticket_def GenerateTicket_def
      NewString_def demo_jwt_def demo_sign_def line_free_def second_def Store_def nats1_def nats0_def ratelimitKey_def ticketKey_def)
    (auto simp: conn_taken_def key_defs mup_def mks_def)

theorem issued_ticket_opens_stream_witness:
  "\<exists>resp w1 tok n how. V1AuthTicket demo_handlers (demo_ctx []) (demo_state mem0) = (Ret resp, w1) \<and> rs_body resp = TicketBody tok n
     \<and> fst (V1SSEStreamEvents demo_handlers True [CtxDone] ((demo_ctx [])\<lparr>ctx_query := (\<lambda>_. tok)\<rparr>) demo_writer (demo_state (rdb w1)))
         = Streamed how"
proof -
  obtain res w1 where r: "V1AuthTicket demo_handlers (demo_ctx []) (demo_state mem0) = (res, w1)" by force
  from demo_issued [OF r] obtain resp tok n where i: "res = Ret resp" "rs_status resp = 200" "rs_body resp = TicketBody tok n" "tok \<noteq> []"
    "mup ReqCtx (rdb w1)" "\<not> conn_taken mks (rdb w1) ''u1'' ''1.2.3.4''" by blast
  have c: "ctx_vals (demo_ctx []) ClientID = Some ''u1''" "ctx_vals (demo_ctx []) ClientIP = Some ''1.2.3.4''"
    by (simp_all add: demo_ctx_def ClientID_def ClientIP_def)
  have "\<exists>how. fst (V1SSEStreamEvents demo_handlers True [CtxDone] ((demo_ctx [])\<lparr>ctx_query := (\<lambda>_. tok)\<rparr>) demo_writer (demo_state (rdb w1)))
         = Streamed how"
    by (rule issued_ticket_opens_stream [OF demo_redis demo_jwt_ok r [unfolded i(1)] i(2-4) c])
      (use i c in \<open>simp_all add: demo_handlers_def default_config_def second_def\<close>)
  with r i show ?thesis by blast
qed

text \<open>An event inserted into a queue with room, and the stream that drains it.\<close>

lemma inserted_event_received:
  assumes "redis_events (RDB h) ks up (Events h)" and "V1InsertEvent h c w = (Ret (JSON StatusCreated (PayloadBody p)), w1)"
    and "cl = ctx_params c ''client_id''" and "q = queue_of ks (rdb w) cl" and "int (length q) < maxQueueDepth (Events h)"
    and "\<forall>raw. lib_marshalEvent (Libs h) p = Inr raw \<longrightarrow> Unmarshal_EventPayload raw = Some p"
    and "env = stream_env_of h cl ip" and "cfg = CfgSSE (Cfg h)"
    and "ks (rdb w2) (eventsKey cl) = ks (rdb w1) (eventsKey cl)"
    and "phase_of ks (rdb w2) cl (ev_ID p) = phase_of ks (rdb w1) cl (ev_ID p)" and "\<forall>c' \<in> {c2, Background} \<union> poll_contexts es. up c' (rdb w2)"
    and "\<forall>k. faults wr k = None" and "sent wr = []"
    and "0 < BatchSize cfg" and "BatchSize cfg < 2 ^ 63" and "0 < ConnTTL cfg" and "0 < PollInterval cfg" and "0 < HeartbeatInterval cfg"
    and "list_all clean_chunk (chunks_of q)" and "clean_chunk (EventChunk (ev_ID p) (ev_Type p) (ev_Data p))"
    and "length q < Suc (drains es) * nat (BatchSize cfg)" and "RunLoop env c2 es w2 wr = (x, st')"
  shows "parse_stream (sent (swr st')) = concat (map chunk_events (chunks_of q)) @ [(ev_ID p, ev_Type p, ev_Data p)]
    \<and> queue_of ks (rdb (sw st')) cl = [] \<and> phase_of ks (rdb (sw st')) cl (ev_ID p) = max Delivered (phase_of ks (rdb w) cl (ev_ID p))"
proof -
  note laws = redis_events.axioms(1) [OF assms(1)]
  obtain raw where raw: "lib_marshalEvent (Libs h) p = Inr raw" "ev_Type p \<noteq> []"
    and push: "Push (RDB h) (Events h) (rq_ctx (ctx_req c)) cl raw (rdb w) = (None, rdb w1)"
    using assms(2,3) by (cases rule: V1InsertEvent_cases [of h c w]) (auto simp: JSON_def)
  have "queue_of ks (rdb w1) cl = q @ [raw]" and "list_or_none (ks (rdb w1) (eventsKey cl))"
    using redis_events.Push_spec [OF assms(1) push] redis_laws.Push_effect [OF laws push] assms(4,5)
    by (auto simp: last_n_def put_list_def)
  then have q: "queue_of ks (rdb w2) cl = q @ [raw]" and l: "list_or_none (ks (rdb w2) (eventsKey cl))"
    using assms(9) by (simp_all add: queue_of_def)
  have ch: "chunk_of raw = Some (EventChunk (ev_ID p) (ev_Type p) (ev_Data p))"
    using raw assms(6,7) by (simp add: chunk_of_def event_type_def)
  then have "list_all clean_chunk (chunks_of (q @ [raw]))" using assms(19,20) by simp
  then have *: "parse_stream (sent (swr st')) = concat (map chunk_events (chunks_of (q @ [raw])))
    \<and> queue_of ks (rdb (sw st')) cl = [] \<and> (\<forall>raw' \<in> set (q @ [raw]). \<forall>e. Unmarshal_EventPayload raw' = Some e \<longrightarrow>
          phase_of ks (rdb (sw st')) cl (ev_ID e) = max Delivered (phase_of ks (rdb w2) cl (ev_ID e)))"
    using RunLoop_received [of env ks up c2 es w2 wr "q @ [raw]" x st' "Suc (drains es) * nat (BatchSize cfg)"] laws assms(7,8,11-22) q l
    by simp
  moreover have "phase_of ks (rdb w2) cl (ev_ID p) = phase_of ks (rdb w) cl (ev_ID p)"
    using redis_laws.Push_effect [OF laws push] assms(10)
    by (auto simp: put_list_other intro!: redis_laws.phase_of_cong [OF laws])
  ultimately show ?thesis using ch raw(1) assms(6,7) by simp
qed

text \<open>
  C6: An inserted event reaches its client. After a 201 answer on a queue with room, a stream of that client that drains the whole
  queue ends with exactly this event, after the backlog; the queue is then empty and the in-flight registry knows the event as
  delivered, unless it was acknowledged before. It holds on these conditions: between the insert and the stream nothing has
  touched this client's queue or the registry's entry of this event, while anything may have happened to other keys; Redis
  answers the stream, whose connection is fresh, and no write to the client fails; the codec decodes the event it encoded; identifier, type and data
  of this event and of every queued one are single lines, the identifier without NUL and the type not empty (\<open>clean_chunk\<close>; an event
  over several lines is cut); batch size (below \<open>2^63\<close>), lifetime and the two intervals are positive.
\<close>

theorem inserted_event_reaches_client:
  assumes "redis_events (RDB h) ks up (Events h)" and "V1InsertEvent h c w = (Ret (JSON StatusCreated (PayloadBody p)), w1)"
    and "cl = ctx_params c ''client_id''" and "q = queue_of ks (rdb w) cl" and "int (length q) < maxQueueDepth (Events h)"
    and "\<forall>raw. lib_marshalEvent (Libs h) p = Inr raw \<longrightarrow> Unmarshal_EventPayload raw = Some p"
    and "env = stream_env_of h cl ip" and "cfg = CfgSSE (Cfg h)"
    and "ks (rdb w2) (eventsKey cl) = ks (rdb w1) (eventsKey cl)"
    and "phase_of ks (rdb w2) cl (ev_ID p) = phase_of ks (rdb w1) cl (ev_ID p)" and "\<forall>c' \<in> {c2, Background} \<union> poll_contexts es. up c' (rdb w2)"
    and "\<forall>k. faults wr k = None" and "sent wr = []"
    and "0 < BatchSize cfg" and "BatchSize cfg < 2 ^ 63" and "0 < ConnTTL cfg" and "0 < PollInterval cfg" and "0 < HeartbeatInterval cfg"
    and "list_all clean_chunk (chunks_of q)" and "clean_chunk (EventChunk (ev_ID p) (ev_Type p) (ev_Data p))"
    and "length q < Suc (drains es) * nat (BatchSize cfg)" and "RunLoop env c2 es w2 wr = (x, st')"
  shows "parse_stream (sent (swr st')) = concat (map chunk_events (chunks_of q)) @ [(ev_ID p, ev_Type p, ev_Data p)]
    \<and> queue_of ks (rdb (sw st')) cl = [] \<and> phase_of ks (rdb (sw st')) cl (ev_ID p) = max Delivered (phase_of ks (rdb w) cl (ev_ID p))"
  by (rule inserted_event_received [OF assms])

text \<open>An insert on the in-memory server and the settings of the stream that follows it.\<close>

definition demo_payload :: EventPayload where
  "demo_payload = \<lparr>ev_ID = ''i0'', ev_Type = ''order'', ev_Data = ''{}''\<rparr>"

lemma demo_insert:
  "\<exists>w1. V1InsertEvent demo_handlers (demo_ctx demo_body) (demo_state mem0) = (Ret (JSON StatusCreated (PayloadBody demo_payload)), w1) \<and> reachable (rdb w1)"
  by (auto simp: V1InsertEvent_def demo_defs demo_state_def limited_body_def MaxBytesReader_def default_config_def demo_payload_def
      get_ok_def ClientID_def ClientIP_def NewString_def on_rdb_def Push_def mem_eval)

lemma demo_sse:
  "0 < PollInterval (CfgSSE (Cfg demo_handlers))" "0 < HeartbeatInterval (CfgSSE (Cfg demo_handlers))"
  "0 < ConnTTL (CfgSSE (Cfg demo_handlers))" "BatchSize (CfgSSE (Cfg demo_handlers)) = 100"
  by (simp_all add: demo_handlers_def default_config_def second_def millisecond_def)

lemma demo_text: "lib_marshalEvent (Libs demo_handlers) demo_payload = Inr raw \<Longrightarrow> Unmarshal_EventPayload raw = Some demo_payload"
  by (auto simp: demo_handlers_def demo_libs_def demo_payload_def event_text_roundtrip fix_utf8_valid)

lemma demo_ends: "RunLoop (stream_env_of demo_handlers cl ip) c [CtxDone] w wr = (x, st) \<Longrightarrow> x = Returned"
  using demo_sse by (auto simp: RunLoop_def Let_def)

theorem inserted_event_reaches_client_witness:
  "\<exists>p w1 st. V1InsertEvent demo_handlers (demo_ctx demo_body) (demo_state mem0) = (Ret (JSON StatusCreated (PayloadBody p)), w1)
     \<and> RunLoop (stream_env_of demo_handlers ''u1'' ''1.2.3.4'') ReqCtx [CtxDone] (demo_state (rdb w1)) demo_writer = (Returned, st)
     \<and> parse_stream (sent (swr st)) = [(''i0'', ''order'', ''{}'')]"
proof -
  obtain w1 where i: "V1InsertEvent demo_handlers (demo_ctx demo_body) (demo_state mem0) = (Ret (JSON StatusCreated (PayloadBody demo_payload)), w1)"
    and u: "reachable (rdb w1)" using demo_insert by blast
  obtain x st where l: "RunLoop (stream_env_of demo_handlers ''u1'' ''1.2.3.4'') ReqCtx [CtxDone] (demo_state (rdb w1)) demo_writer = (x, st)" by force
  have "parse_stream (sent (swr st)) = concat (map chunk_events (chunks_of [])) @ [(ev_ID demo_payload, ev_Type demo_payload, ev_Data demo_payload)]
      \<and> queue_of mks (rdb (sw st)) ''u1'' = []
      \<and> phase_of mks (rdb (sw st)) ''u1'' (ev_ID demo_payload) = max Delivered (phase_of mks (rdb (demo_state mem0)) ''u1'' (ev_ID demo_payload))"
    by (rule inserted_event_reaches_client [OF demo_events i _ _ _ _ refl refl _ _ _ _ _ _ _ _ _ _ _ _ _ l])
      (use u demo_sse demo_text in \<open>simp_all add: mup_def poll_contexts_def\<close>, simp add: demo_payload_def)
  with i l demo_ends [OF l] show ?thesis by (auto simp: demo_payload_def)
qed

text \<open>
  C5: The life of an event. After a 201 answer on a queue with room, a stream of that client that drains the whole queue delivers the
  event; the client's acknowledgement of its identifier is then taken: one call publishes a record for it, and the answer is 200 with the
  event acknowledged, or 502 when publishing failed; after a 200, acknowledging it again is refused with 409 without
  publishing. It holds on these conditions. The event was not acknowledged before. Between insert, stream and the two
  acknowledgements nothing else touches this client's queue or the registry's entry of this event, whose keys are not expired either,
  while anything may happen to other keys. Redis answers all four requests, and the stream's connection is fresh and no write on it fails. The codec
  decodes the event it encoded. Identifier, type and data of this event and of every queued one are single lines, the identifier
  without NUL and the type not empty (\<open>clean_chunk\<close>). Batch size (below \<open>2^63\<close>), lifetime and the two intervals are positive. Both acknowledgements are
  admitted (\<open>ack_admitted\<close>: the publisher is connected, all fields are valid, the client is the token's).
\<close>

theorem event_life_cycle:
  assumes "redis_events (RDB h) ks up (Events h)" and "V1InsertEvent h c w = (Ret (JSON StatusCreated (PayloadBody p)), w1)"
    and "cl = ctx_params c ''client_id''" and "q = queue_of ks (rdb w) cl" and "int (length q) < maxQueueDepth (Events h)"
    and "\<forall>raw. lib_marshalEvent (Libs h) p = Inr raw \<longrightarrow> Unmarshal_EventPayload raw = Some p"
    and "env = stream_env_of h cl ip" and "cfg = CfgSSE (Cfg h)"
    and "ks (rdb w2) (eventsKey cl) = ks (rdb w1) (eventsKey cl)"
    and "phase_of ks (rdb w2) cl (ev_ID p) = phase_of ks (rdb w1) cl (ev_ID p)" and "\<forall>c' \<in> {c2, Background} \<union> poll_contexts es. up c' (rdb w2)"
    and "\<forall>k. faults wr k = None" and "sent wr = []"
    and "0 < BatchSize cfg" and "BatchSize cfg < 2 ^ 63" and "0 < ConnTTL cfg" and "0 < PollInterval cfg" and "0 < HeartbeatInterval cfg"
    and "list_all clean_chunk (chunks_of q)" and "clean_chunk (EventChunk (ev_ID p) (ev_Type p) (ev_Data p))"
    and "length q < Suc (drains es) * nat (BatchSize cfg)" and "RunLoop env c2 es w2 wr = (x, st')"
    and "phase_of ks (rdb w) cl (ev_ID p) \<noteq> Acked" and "phase_of ks (rdb w3) cl (ev_ID p) = phase_of ks (rdb (sw st')) cl (ev_ID p)"
    and "req_ClientID req = cl" and "req_EventID req = ev_ID p"
    and "ack_admitted h c3 w3 req" and "up (rq_ctx (ctx_req c3)) (rdb w3)" and "V1AckEvent h c3 w3 = (res, w4)"
    and "phase_of ks (rdb w5) cl (ev_ID p) = phase_of ks (rdb w4) cl (ev_ID p)"
    and "ack_admitted h c3 w5 req" and "up (rq_ctx (ctx_req c3)) (rdb w5)" and "V1AckEvent h c3 w5 = (res', w6)"
  shows "(ev_ID p, ev_Type p, ev_Data p) \<in> set (parse_stream (sent (swr st')))
    \<and> (\<exists>a y. record_for req a \<and> Publish (NatsConn h) (lib_marshalAck (Libs h)) (AckPublisher h) a (nats w3) = (y, nats w4)
        \<and> status_of res = (if isl y then 502 else 200))
    \<and> (status_of res = 200 \<longrightarrow> phase_of ks (rdb w4) cl (ev_ID p) = Acked \<and> status_of res' = 409 \<and> nats w6 = nats w5)"
proof -
  note laws = redis_events.axioms(1) [OF assms(1)]
  note received = inserted_event_received [OF assms(1-22)]
  have "phase_of ks (rdb w3) cl (ev_ID p) = Delivered"
    using received assms(23,24) by (cases "phase_of ks (rdb w) cl (ev_ID p)") (simp_all add: max_def less_eq_phase_def)
  then obtain a y where y: "record_for req a" "Publish (NatsConn h) (lib_marshalAck (Libs h)) (AckPublisher h) a (nats w3) = (y, nats w4)"
    "status_of res = (if isl y then 502 else 200)" "phase_of ks (rdb w4) cl (ev_ID p) = (if isl y then Delivered else Acked)"
    using redis_laws.ack_by_phase [OF laws assms(27) refl assms(28,29) refl] assms(25,26) by auto
  have "status_of res' = 409 \<and> nats w6 = nats w5" if "phase_of ks (rdb w4) cl (ev_ID p) = Acked"
    using redis_laws.ack_by_phase [OF laws assms(31) refl assms(32,33) refl] assms(25,26,30) that by simp
  with received y show ?thesis by (auto split: if_splits)
qed

lemma mem0_phase: "phase_of mks mem0 cl ev = Unknown"
  by (simp add: phase_of_def mks_def mem0_def)

lemma demo_admits:
  "ack_admitted demo_handlers (demo_ctx (''i0'' @ sep # ''u1'' @ sep # AckStatusProcessed)) (demo_state r) (demo_ack\<lparr>req_EventID := ''i0''\<rparr>)"
  by (simp add: ack_admitted_def demo_ack_def demo_handlers_def demo_libs_def demo_state_def mem_nats_def nats1_def nats0_def
      validateAckRequest_None AckStatusProcessed_def zero_time_def split_on_append)

theorem event_life_cycle_witness:
  "\<exists>p w1 st res w4 res' w6. V1InsertEvent demo_handlers (demo_ctx demo_body) (demo_state mem0) = (Ret (JSON StatusCreated (PayloadBody p)), w1)
     \<and> RunLoop (stream_env_of demo_handlers ''u1'' ''1.2.3.4'') ReqCtx [CtxDone] (demo_state (rdb w1)) demo_writer = (Returned, st)
     \<and> V1AckEvent demo_handlers (demo_ctx (''i0'' @ sep # ''u1'' @ sep # AckStatusProcessed)) (demo_state (rdb (sw st))) = (res, w4) \<and> status_of res = 200
     \<and> V1AckEvent demo_handlers (demo_ctx (''i0'' @ sep # ''u1'' @ sep # AckStatusProcessed)) (demo_state (rdb w4)) = (res', w6) \<and> status_of res' = 409"
proof -
  let ?c = "demo_ctx (''i0'' @ sep # ''u1'' @ sep # AckStatusProcessed)"
  obtain w1 where i: "V1InsertEvent demo_handlers (demo_ctx demo_body) (demo_state mem0) = (Ret (JSON StatusCreated (PayloadBody demo_payload)), w1)"
    and u: "reachable (rdb w1)" using demo_insert by blast
  obtain x st where l: "RunLoop (stream_env_of demo_handlers ''u1'' ''1.2.3.4'') ReqCtx [CtxDone] (demo_state (rdb w1)) demo_writer = (x, st)" by force
  obtain res w4 where a: "V1AckEvent demo_handlers ?c (demo_state (rdb (sw st))) = (res, w4)" by force
  obtain res' w6 where b: "V1AckEvent demo_handlers ?c (demo_state (rdb w4)) = (res', w6)" by force
  have r: "RDB demo_handlers = mem_redis" by (simp add: demo_handlers_def)
  have u3: "mup ReqCtx (rdb (sw st))"
    using redis_laws.stream_stays_up [OF mr.redis_laws_axioms, of ReqCtx "rdb w1" "stream_env_of demo_handlers ''u1'' ''1.2.3.4''"
      "demo_state (rdb w1)" ReqCtx "[CtxDone]" demo_writer] u l r by (simp add: mup_def)
  have u5: "mup ReqCtx (rdb w4)"
    using redis_laws.ack_by_phase [OF demo_redis demo_admits refl _ a refl] u3 by auto
  have "(\<exists>ar y. record_for (demo_ack\<lparr>req_EventID := ''i0''\<rparr>) ar
        \<and> Publish (NatsConn demo_handlers) (lib_marshalAck (Libs demo_handlers)) (AckPublisher demo_handlers) ar (nats (demo_state (rdb (sw st)))) = (y, nats w4)
        \<and> status_of res = (if isl y then 502 else 200))
    \<and> (status_of res = 200 \<longrightarrow> phase_of mks (rdb w4) ''u1'' (ev_ID demo_payload) = Acked \<and> status_of res' = 409 \<and> nats w6 = nats (demo_state (rdb w4)))"
    by (rule conjunct2, rule event_life_cycle [OF demo_events i _ _ _ _ refl refl _ _ _ _ _ _ _ _ _ _ _ _ _ l _ _ _ _ demo_admits _ a _ demo_admits _ b])
      (use u u3 u5 demo_sse demo_text in \<open>simp_all add: mup_def poll_contexts_def mem0_phase\<close>, simp_all add: demo_payload_def)
  then have "status_of res = 200 \<and> status_of res' = 409" by (auto dest: demo_publishes)
  with i l demo_ends [OF l] a b show ?thesis by blast
qed

end
